(* ===== verification/Prelude.thy ===== *)
theory Prelude
  imports Main "HOL-Library.Word"
begin

text \<open>
  What every component of the indexer shares: the Go types of the program (64-bit words,
  times, error values), the few functions of Go's standard library that the source calls on
  strings, decimal printing, and generic lemmas on words, lists and strings.

  Conventions.  A Go \<open>uint64\<close> (and \<open>uint\<close> on a 64-bit platform) is a \<open>64 word\<close>,
  so that \<open>+\<close>, \<open>-\<close> and \<open>*\<close> wrap as they do in Go.  A \<open>time.Time\<close> is the number
  of nanoseconds since the Unix epoch.  A Go string is the list of its bytes.  A Go \<open>error\<close>
  is a value of \<open>go_error\<close>; a pair \<open>(value, error)\<close> is \<open>go_error + 'a\<close>.
\<close>

section \<open>Types of the program\<close>

type_synonym u64 = "64 word"

type_synonym time = int

datatype go_error =
    ErrTooManyResults
  | ErrCanceled
  | ErrDeadlineExceeded
  | ErrNew string
  | ErrWrap string go_error

type_synonym 'a result = "go_error + 'a"

text \<open>\<open>errors.Is\<close> follows the chain of wrapped errors.\<close>

fun errors_is :: "go_error \<Rightarrow> go_error \<Rightarrow> bool" where
  "errors_is (ErrWrap m e) target = (ErrWrap m e = target \<or> errors_is e target)"
| "errors_is e target = (e = target)"

text \<open>\<open>if err != nil { return err }\<close>, and the same with \<open>fmt.Errorf("m: %w", err)\<close>.\<close>

definition and_then :: "'a result \<Rightarrow> ('a \<Rightarrow> 'b result) \<Rightarrow> 'b result" where
  "and_then r k = (case r of Inl e \<Rightarrow> Inl e | Inr x \<Rightarrow> k x)"

definition wrap_err :: "string \<Rightarrow> 'a result \<Rightarrow> 'a result" where
  "wrap_err m r = (case r of Inl e \<Rightarrow> Inl (ErrWrap m e) | Inr x \<Rightarrow> Inr x)"

lemma and_then_simps [simp]: "and_then (Inl e) k = Inl e" "and_then (Inr x) k = k x"
  by (simp_all add: and_then_def)

lemma wrap_err_simps [simp]: "wrap_err m (Inl e) = Inl (ErrWrap m e)" "wrap_err m (Inr x) = Inr x"
  by (simp_all add: wrap_err_def)

lemma and_then_Inr: "and_then r k = Inr y \<longleftrightarrow> (\<exists>x. r = Inr x \<and> k x = Inr y)"
  by (cases r) simp_all

lemma wrap_err_Inr [simp]: "wrap_err m r = Inr y \<longleftrightarrow> r = Inr y"
  by (cases r) simp_all

section \<open>Times\<close>

text \<open>\<open>Time.Unix\<close> (seconds, rounded down) and \<open>time.Unix(s, 0)\<close>.\<close>

definition Unix :: "time \<Rightarrow> int" where
  "Unix t = t div 1000000000"

definition time_Unix :: "int \<Rightarrow> time" where
  "time_Unix s = s * 1000000000"

lemma time_Unix_Unix [simp]: "Unix (time_Unix s) = s"
  by (simp add: Unix_def time_Unix_def)

text \<open>\<open>time.Duration(n) * time.Second\<close>: the product of two signed 64-bit integers.\<close>

definition seconds :: "int \<Rightarrow> time" where
  "seconds n = sint (word_of_int (n * 1000000000) :: 64 word)"

lemma seconds_small: "0 \<le> n \<Longrightarrow> n \<le> 9223372036 \<Longrightarrow> seconds n = n * 1000000000"
  unfolding seconds_def int_word_sint by simp

lemma seconds_wrap: "seconds 9223372037 < 0"
  by (simp add: seconds_def)

text \<open>\<open>time.NewTicker\<close> panics unless the interval is positive.\<close>

definition NewTicker :: "time \<Rightarrow> go_error option" where
  "NewTicker d = (if d \<le> 0 then Some (ErrNew ''panic: non-positive interval for NewTicker'') else None)"

section \<open>Hints collected for the component proofs\<close>

named_theorems u64_arith \<open>facts that move 64-bit arithmetic to the natural numbers\<close>
named_theorems frame \<open>which part of the state an operation leaves alone\<close>

section \<open>64-bit arithmetic\<close>

definition maxU64 :: u64 where
  "maxU64 = 18446744073709551615"

lemma unat_maxU64 [u64_arith]: "unat maxU64 = 2 ^ 64 - 1"
  by (simp add: maxU64_def)

lemma unat_lt_2_64: "unat (x :: u64) < 2 ^ 64"
  using unsigned_less [of x] by simp

lemma unat_u64_le: "unat (x :: u64) \<le> 2 ^ 64 - 1"
  using unat_lt_2_64 [of x] by simp

lemma u64_eq_iff [u64_arith]: "(x :: u64) = y \<longleftrightarrow> unat x = unat y"
  by (simp add: word_unat_eq_iff)

lemma unat_plus_ok: "unat (x :: u64) + unat y < 2 ^ 64 \<Longrightarrow> unat (x + y) = unat x + unat y"
  using unat_add_lem [of x y] by simp

lemma unat_plus_one: "(x :: u64) \<noteq> maxU64 \<Longrightarrow> unat (x + 1) = unat x + 1"
proof -
  assume "x \<noteq> maxU64"
  then have "unat x \<noteq> 2 ^ 64 - 1" by (simp add: u64_eq_iff unat_maxU64)
  with unat_lt_2_64 [of x] have "unat x + unat (1 :: u64) < 2 ^ 64" by simp
  from unat_plus_ok [OF this] show ?thesis by simp
qed

lemma unat_plus_one_lt: "unat (x :: u64) < 2 ^ 64 - 1 \<Longrightarrow> unat (x + 1) = unat x + 1"
  by (rule unat_plus_one) (auto simp: unat_maxU64)

lemma unat_minus_ok: "(y :: u64) \<le> x \<Longrightarrow> unat (x - y) = unat x - unat y"
  by (simp add: unat_sub)

lemma u64_le_iff [u64_arith]: "(x :: u64) \<le> y \<longleftrightarrow> unat x \<le> unat y"
  by (simp add: word_le_nat_alt)

lemma u64_less_iff [u64_arith]: "(x :: u64) < y \<longleftrightarrow> unat x < unat y"
  by (simp add: word_less_nat_alt)

lemma unat_div_numeral [u64_arith]:
  "unat ((x :: u64) div numeral n) = unat x div unat (numeral n :: u64)"
  by (simp add: unat_div)

section \<open>Strings\<close>

text \<open>
  The functions of Go's \<open>strings\<close> package that the program uses, on ASCII bytes.  Beyond
  ASCII \<open>strings.ToLower\<close> maps Unicode letters; every string the program lowers (an
  address, a hash, a JSON-RPC error message) is ASCII.
\<close>

definition char_lower :: "char \<Rightarrow> char" where
  "char_lower c = (let n = of_char c :: nat in
     if 65 \<le> n \<and> n \<le> 90 then char_of (n + 32) else c)"

definition to_lower :: "string \<Rightarrow> string" where
  "to_lower = map char_lower"

fun has_prefix :: "string \<Rightarrow> string \<Rightarrow> bool" where
  "has_prefix s [] = True"
| "has_prefix [] (p # ps) = False"
| "has_prefix (c # s) (p # ps) = (c = p \<and> has_prefix s ps)"

definition trim_prefix :: "string \<Rightarrow> string \<Rightarrow> string" where
  "trim_prefix s p = (if has_prefix s p then drop (length p) s else s)"

fun str_contains :: "string \<Rightarrow> string \<Rightarrow> bool" where
  "str_contains [] p = (p = [])"
| "str_contains (c # s) p = (has_prefix (c # s) p \<or> str_contains s p)"

lemma has_prefix_iff: "has_prefix s p \<longleftrightarrow> (\<exists>t. s = p @ t)"
  by (induction s p rule: has_prefix.induct) auto

lemma has_prefix_append [simp]: "has_prefix (p @ s) p"
  by (auto simp: has_prefix_iff)

lemma trim_prefix_append [simp]: "trim_prefix (p @ s) p = s"
  by (simp add: trim_prefix_def)

lemma str_contains_iff: "str_contains s p \<longleftrightarrow> (\<exists>u v. s = u @ p @ v)"
proof (induction s)
  case Nil
  then show ?case by auto
next
  case (Cons c s)
  show ?case
  proof
    assume "str_contains (c # s) p"
    then consider "has_prefix (c # s) p" | "str_contains s p" by auto
    then show "\<exists>u v. c # s = u @ p @ v"
    proof cases
      case 1
      then obtain v where "c # s = [] @ p @ v" by (auto simp: has_prefix_iff)
      then show ?thesis by blast
    next
      case 2
      then obtain u v where "s = u @ p @ v" using Cons.IH by blast
      then have "c # s = (c # u) @ p @ v" by simp
      then show ?thesis by blast
    qed
  next
    assume "\<exists>u v. c # s = u @ p @ v"
    then obtain u v where uv: "c # s = u @ p @ v" by blast
    show "str_contains (c # s) p"
    proof (cases u)
      case Nil
      with uv have "has_prefix (c # s) p" by (auto simp: has_prefix_iff)
      then show ?thesis by simp
    next
      case (Cons d u')
      with uv have "s = u' @ p @ v" by simp
      then show ?thesis using Cons.IH by auto
    qed
  qed
qed

lemma to_lower_append [simp]: "to_lower (s @ t) = to_lower s @ to_lower t"
  by (simp add: to_lower_def)

lemma length_to_lower [simp]: "length (to_lower s) = length s"
  by (simp add: to_lower_def)

lemma char_lower_idem [simp]: "char_lower (char_lower c) = char_lower c"
proof (cases "65 \<le> (of_char c :: nat) \<and> (of_char c :: nat) \<le> 90")
  case True
  then have "(of_char (char_of ((of_char c :: nat) + 32)) :: nat) = of_char c + 32"
    by (simp add: take_bit_eq_mod)
  with True show ?thesis by (simp add: char_lower_def)
next
  case False
  then show ?thesis by (auto simp: char_lower_def)
qed

lemma to_lower_idem [simp]: "to_lower (to_lower s) = to_lower s"
  by (simp add: to_lower_def)

text \<open>A list is cut at a separator in one way only.\<close>

lemma split_at_sep:
  "x \<notin> set u \<Longrightarrow> x \<notin> set u' \<Longrightarrow> u @ x # v = u' @ x # v' \<longleftrightarrow> u = u' \<and> v = v'"
proof (induction u arbitrary: u')
  case Nil
  then show ?case by (cases u') auto
next
  case (Cons a u)
  then show ?case by (cases u') auto
qed

section \<open>Decimal numbers\<close>

text \<open>\<open>%d\<close> of \<open>fmt\<close>, and the other direction: the value of a string of decimal digits.\<close>

definition digit_char :: "nat \<Rightarrow> char" where
  "digit_char d = char_of (48 + d)"

fun show_nat :: "nat \<Rightarrow> string" where
  "show_nat n = (if n < 10 then [digit_char n] else show_nat (n div 10) @ [digit_char (n mod 10)])"

declare show_nat.simps [simp del]

definition char_digit :: "char \<Rightarrow> nat" where
  "char_digit c = of_char c - 48"

definition read_nat :: "string \<Rightarrow> nat" where
  "read_nat s = foldl (\<lambda>n c. 10 * n + char_digit c) 0 s"

lemma char_digit_char: "d < 10 \<Longrightarrow> char_digit (digit_char d) = d"
  by (simp add: char_digit_def digit_char_def take_bit_eq_mod)

lemma read_show_nat [simp]: "read_nat (show_nat n) = n"
proof (induction n rule: show_nat.induct)
  case (1 n)
  show ?case
  proof (cases "n < 10")
    case True
    then show ?thesis by (simp add: show_nat.simps [of n] read_nat_def char_digit_char)
  next
    case False
    with 1 have "read_nat (show_nat (n div 10)) = n div 10" by simp
    with False show ?thesis
      by (simp add: show_nat.simps [of n] read_nat_def char_digit_char)
  qed
qed

lemma show_nat_inject [simp]: "show_nat m = show_nat n \<longleftrightarrow> m = n"
  by (metis read_show_nat)

lemma show_nat_digits: "c \<in> set (show_nat n) \<Longrightarrow> 48 \<le> (of_char c :: nat) \<and> (of_char c :: nat) \<le> 57"
proof (induction n rule: show_nat.induct)
  case (1 n)
  have dig: "\<And>d. d < 10 \<Longrightarrow> (of_char (digit_char d) :: nat) = 48 + d"
    by (simp add: digit_char_def take_bit_eq_mod)
  show ?case
  proof (cases "n < 10")
    case True
    with "1.prems" show ?thesis by (auto simp: show_nat.simps [of n] dig)
  next
    case False
    with "1.prems" have "c \<in> set (show_nat (n div 10)) \<or> c = digit_char (n mod 10)"
      by (auto simp: show_nat.simps [of n])
    with False "1.IH" show ?thesis by (auto simp: dig)
  qed
qed

end
