(* ===== verification/Chunker.thy ===== *)
theory Chunker
  imports Prelude
begin

text \<open>
  \<open>internal/extract/chunker.go\<close>: the adaptive size of an \<open>eth_getLogs\<close> range.  The size
  halves when the node answers "too many results" and grows by a tenth after a success,
  between two bounds.
\<close>

record Chunker =
  ch_min :: u64
  ch_max :: u64
  ch_current :: u64

definition NewChunker :: "u64 \<Rightarrow> u64 \<Rightarrow> u64 \<Rightarrow> Chunker" where
  "NewChunker mn mx start =
     (let mn = (if mn = 0 then 1 else mn);
          mx = (if mx < mn then mn else mx);
          start = (if start < mn then mn else start);
          start = (if start > mx then mx else start)
      in \<lparr>ch_min = mn, ch_max = mx, ch_current = start\<rparr>)"

definition Current :: "Chunker \<Rightarrow> u64" where
  "Current c = ch_current c"

definition OnError :: "Chunker \<Rightarrow> Chunker" where
  "OnError c =
     (if ch_current c \<le> ch_min c then c
      else let next = ch_current c div 2;
               next = (if next < ch_min c then ch_min c else next)
           in c\<lparr>ch_current := next\<rparr>)"

definition OnSuccess :: "Chunker \<Rightarrow> Chunker" where
  "OnSuccess c =
     (if ch_current c \<ge> ch_max c then c
      else let grow = ch_current c div 10 + 1;
               next = ch_current c + grow;
               next = (if next > ch_max c then ch_max c else next)
           in c\<lparr>ch_current := next\<rparr>)"

lemmas chunker_defs = Current_def OnError_def OnSuccess_def Let_def

text \<open>The invariant the code relies on: a positive minimum, and the size between the bounds.\<close>

definition chunker_ok :: "Chunker \<Rightarrow> bool" where
  "chunker_ok c \<longleftrightarrow> 1 \<le> ch_min c \<and> ch_min c \<le> ch_current c \<and> ch_current c \<le> ch_max c"

lemma NewChunker_ok: "chunker_ok (NewChunker mn mx start)"
  by (auto simp: NewChunker_def chunker_ok_def Let_def u64_arith)

lemma OnError_bounds [frame]:
  "ch_min (OnError c) = ch_min c" "ch_max (OnError c) = ch_max c"
  by (simp_all add: chunker_defs)

lemma OnSuccess_bounds [frame]:
  "ch_min (OnSuccess c) = ch_min c" "ch_max (OnSuccess c) = ch_max c"
  by (simp_all add: chunker_defs)

lemma OnError_ok: "chunker_ok c \<Longrightarrow> chunker_ok (OnError c)"
  by (auto simp: chunker_ok_def chunker_defs u64_arith)

lemma OnError_current:
  "unat (ch_current (OnError c)) =
     (if unat (ch_current c) \<le> unat (ch_min c) then unat (ch_current c)
      else max (unat (ch_min c)) (unat (ch_current c) div 2))"
  by (auto simp: chunker_defs u64_arith max_def)

lemma OnError_decreases:
  "chunker_ok c \<Longrightarrow> ch_min c < ch_current c \<Longrightarrow>
   unat (ch_current (OnError c)) < unat (ch_current c)"
  by (auto simp: OnError_current chunker_ok_def u64_arith)

text \<open>
  \<open>current + grow\<close> stays below \<open>2 ^ 64\<close> when a tenth of the maximum can still be added to
  it, which holds for every maximum up to about \<open>1.6 * 10 ^ 19\<close>.
\<close>

definition growth_ok :: "u64 \<Rightarrow> bool" where
  "growth_ok mx \<longleftrightarrow> unat mx + unat mx div 10 < 2 ^ 64"

lemma OnSuccess_current:
  assumes "growth_ok (ch_max c)"
  shows "unat (ch_current (OnSuccess c)) =
     (if unat (ch_max c) \<le> unat (ch_current c) then unat (ch_current c)
      else min (unat (ch_max c)) (unat (ch_current c) + unat (ch_current c) div 10 + 1))"
proof (cases "unat (ch_max c) \<le> unat (ch_current c)")
  case True
  then show ?thesis by (simp add: chunker_defs u64_arith)
next
  case False
  let ?n = "unat (ch_current c)"
  from False have lt: "?n < unat (ch_max c)" by simp
  then have dv: "?n div 10 \<le> unat (ch_max c) div 10" by (simp add: div_le_mono)
  have sum: "?n + (?n div 10 + 1) < 2 ^ 64"
    using assms lt dv unfolding growth_ok_def by linarith
  then have g: "unat (ch_current c div 10 + 1) = ?n div 10 + 1"
    by (subst unat_plus_ok) (simp_all add: u64_arith)
  with sum have "unat (ch_current c + (ch_current c div 10 + 1)) = ?n + (?n div 10 + 1)"
    by (subst unat_plus_ok) simp_all
  with False show ?thesis by (auto simp: chunker_defs u64_arith min_def)
qed

lemma OnSuccess_ok: "chunker_ok c \<Longrightarrow> growth_ok (ch_max c) \<Longrightarrow> chunker_ok (OnSuccess c)"
  by (auto simp: chunker_ok_def u64_arith OnSuccess_bounds OnSuccess_current)

section \<open>Any number of operations\<close>

datatype chunk_op = Refused | Stored

fun chunk_run :: "chunk_op list \<Rightarrow> Chunker \<Rightarrow> Chunker" where
  "chunk_run [] c = c"
| "chunk_run (Refused # ops) c = chunk_run ops (OnError c)"
| "chunk_run (Stored # ops) c = chunk_run ops (OnSuccess c)"

lemma chunk_run_ok:
  "chunker_ok c \<Longrightarrow> growth_ok (ch_max c) \<Longrightarrow>
   chunker_ok (chunk_run ops c) \<and> ch_min (chunk_run ops c) = ch_min c \<and> ch_max (chunk_run ops c) = ch_max c"
  by (induction ops c rule: chunk_run.induct) (auto simp: OnError_ok OnSuccess_ok frame)

text \<open>
  The size stays between its bounds.  From any configured sizes, after any sequence of
  refused and stored ranges, the chunk size is at least the (positive) minimum and at most the
  maximum, and the bounds themselves never change.
\<close>

theorem chunker_stays:
  assumes "growth_ok (ch_max (NewChunker mn mx start))"
  shows "chunker_ok (chunk_run ops (NewChunker mn mx start))
    \<and> ch_min (chunk_run ops (NewChunker mn mx start)) = ch_min (NewChunker mn mx start)
    \<and> ch_max (chunk_run ops (NewChunker mn mx start)) = ch_max (NewChunker mn mx start)"
  using chunk_run_ok [OF NewChunker_ok assms] .

theorem chunker_stays_witness:
  "chunker_ok (chunk_run [Stored, Refused, Refused, Stored] (NewChunker 50 500 200))"
  using chunker_stays [of 50 500 200 "[Stored, Refused, Refused, Stored]"]
  by (simp add: NewChunker_def growth_ok_def)

text \<open>
  Refusals shrink the size exponentially: after \<open>n\<close> refusals in a row it is the original
  size divided by \<open>2 ^ n\<close>, or the minimum if that is larger.
\<close>

theorem refusals_halve:
  assumes "chunker_ok c"
  shows "unat (Current ((OnError ^^ n) c)) = max (unat (ch_min c)) (unat (Current c) div 2 ^ n)"
proof (induction n)
  case 0
  with assms show ?case by (simp add: chunker_ok_def Current_def u64_arith max_def)
next
  case (Suc n)
  have mn: "ch_min ((OnError ^^ n) c) = ch_min c" by (induction n) (simp_all add: OnError_bounds)
  have "unat (Current c) div 2 ^ n div 2 = unat (Current c) div 2 ^ Suc n"
    by (simp only: div_mult2_eq [symmetric] power_Suc2)
  with Suc show ?case
    by (auto simp: OnError_current mn Current_def max_def)
qed

theorem refusals_halve_witness:
  "unat (Current ((OnError ^^ 2) (NewChunker 10 500 300))) = 75"
  using refusals_halve [of "NewChunker 10 500 300" 2] NewChunker_ok [of 10 500 300]
  by (simp add: NewChunker_def Current_def)

text \<open>
  Very large maxima break the bound.  \<open>current + grow\<close> is not checked for wrap-around, so
  with a maximum near \<open>2 ^ 64\<close> a success can take the size below the minimum.
\<close>

theorem growth_wraps: "\<exists>c. chunker_ok c \<and> Current (OnSuccess c) < ch_min c"
proof -
  let ?c = "\<lparr>ch_min = 10000000000000000000, ch_max = maxU64, ch_current = 18446744073709551614\<rparr>"
  have "chunker_ok ?c \<and> Current (OnSuccess ?c) < ch_min ?c"
    by (simp add: chunker_ok_def chunker_defs maxU64_def)
  then show ?thesis by blast
qed

end
