(* ===== verification/Ethereum.thy ===== *)
theory Ethereum
  imports Prelude
begin

text \<open>
  The types of go-ethereum the program handles (20-byte addresses, 32-byte hashes, logs, ABI
  events and methods), and the functions of go-ethereum it calls, as a record of parameters:
  that code is not in the repository, so every definition that uses it takes the record as an
  argument and no theorem knows more of it than its named hypotheses say.
\<close>

type_synonym address = "160 word"
type_synonym hash = "256 word"
type_synonym byte = "8 word"

record abi_argument =
  arg_Name :: string
  arg_Type :: string
  arg_Indexed :: bool

record abi_event =
  ev_Name :: string
  ev_ID :: hash
  ev_Inputs :: "abi_argument list"

record abi_method =
  me_Name :: string
  me_ID :: "byte list"
  me_Inputs :: "abi_argument list"

record ABI =
  abi_Events :: "string \<Rightarrow> abi_event option"
  abi_Methods :: "abi_method list"

text \<open>\<open>core/types.Log\<close>.\<close>

record eth_log =
  l_Address :: address
  l_Topics :: "hash list"
  l_Data :: "byte list"
  l_BlockNumber :: u64
  l_TxHash :: hash
  l_BlockHash :: hash
  l_Index :: u64

text \<open>A parsed JSON document, as \<open>encoding/json\<close> delivers it to a decoder.\<close>

datatype json =
    JNull
  | JBool bool
  | JNum int
  | JStr string
  | JArr "json list"
  | JObj "(string \<times> json) list"

text \<open>
  go-ethereum's functions.  \<open>'v\<close> is the type of decoded ABI values (Go's \<open>any\<close>).
  \<open>UnpackIntoMap\<close> and \<open>ParseTopicsIntoMap\<close> add entries to the map they are given;
  \<open>MarshalArgs\<close> is \<open>json.Marshal\<close> on such a map, which calls the values' own methods.
\<close>

record 'v EthLib =
  HexToAddress :: "string \<Rightarrow> address"
  AddressHex :: "address \<Rightarrow> string"
  IsHexAddress :: "string \<Rightarrow> bool"
  HashHex :: "hash \<Rightarrow> string"
  EncodeUint64 :: "u64 \<Rightarrow> string"
  DecodeUint64 :: "string \<Rightarrow> u64 result"
  EncodeBytes :: "byte list \<Rightarrow> string"
  EncodeBig :: "int \<Rightarrow> string"
  UnmarshalUint64 :: "json \<Rightarrow> u64 result"
  UnmarshalBig :: "json \<Rightarrow> int result"
  UnmarshalLog :: "json \<Rightarrow> eth_log result"
  abi_JSON :: "string \<Rightarrow> ABI result"
  MethodById :: "ABI \<Rightarrow> byte list \<Rightarrow> abi_method result"
  UnpackIntoMap :: "(string \<Rightarrow> 'v option) \<Rightarrow> abi_argument list \<Rightarrow> byte list \<Rightarrow>
      (string \<Rightarrow> 'v option) result"
  ParseTopicsIntoMap :: "(string \<Rightarrow> 'v option) \<Rightarrow> abi_argument list \<Rightarrow> hash list \<Rightarrow>
      (string \<Rightarrow> 'v option) result"
  MarshalArgs :: "(string \<Rightarrow> 'v option) \<Rightarrow> string result"
  MarshalInput :: "string \<Rightarrow> (string \<Rightarrow> 'v option) \<Rightarrow> string"

text \<open>
  \<open>json.Unmarshal\<close> into a slice: JSON null is the nil slice, an array is decoded element by
  element and the first failure is the error.
\<close>

fun unmarshal_list :: "(json \<Rightarrow> 'a result) \<Rightarrow> json list \<Rightarrow> 'a list result" where
  "unmarshal_list d [] = Inr []"
| "unmarshal_list d (j # js) =
     (case d j of Inl e \<Rightarrow> Inl e
      | Inr x \<Rightarrow> (case unmarshal_list d js of Inl e \<Rightarrow> Inl e | Inr xs \<Rightarrow> Inr (x # xs)))"

definition unmarshal_slice :: "(json \<Rightarrow> 'a result) \<Rightarrow> json \<Rightarrow> 'a list result" where
  "unmarshal_slice d j = (case j of JNull \<Rightarrow> Inr []
     | JArr js \<Rightarrow> unmarshal_list d js
     | _ \<Rightarrow> Inl (ErrNew ''json: cannot unmarshal into Go value of slice type''))"

text \<open>\<open>json.Unmarshal\<close> into a string: null leaves it empty.\<close>

definition unmarshal_string :: "json \<Rightarrow> string result" where
  "unmarshal_string j = (case j of JNull \<Rightarrow> Inr [] | JStr s \<Rightarrow> Inr s
     | _ \<Rightarrow> Inl (ErrNew ''json: cannot unmarshal into Go value of type string''))"

text \<open>A field of an object: absent and null alike leave the zero value; the last key wins.\<close>

definition json_field :: "string \<Rightarrow> json \<Rightarrow> json" where
  "json_field k j = (case j of JObj kvs \<Rightarrow>
       (case map_of (rev kvs) k of Some v \<Rightarrow> v | None \<Rightarrow> JNull)
     | _ \<Rightarrow> JNull)"

text \<open>A pointer field decoded by \<open>d\<close>: null and absent are \<open>nil\<close>.\<close>

definition unmarshal_ptr :: "(json \<Rightarrow> 'a result) \<Rightarrow> json \<Rightarrow> 'a option result" where
  "unmarshal_ptr d j = (if j = JNull then Inr None
     else case d j of Inl e \<Rightarrow> Inl e | Inr x \<Rightarrow> Inr (Some x))"

definition is_object :: "json \<Rightarrow> bool" where
  "is_object j = (case j of JNull \<Rightarrow> True | JObj kvs \<Rightarrow> True | _ \<Rightarrow> False)"

end
