(* ===== verification/Decode.thy ===== *)
theory Decode
  imports Ethereum
begin

text \<open>
  \<open>internal/decode\<close>: the registry of contracts and events that \<open>LoadRegistry\<close> builds from
  the configuration, and the decoding of logs and of transaction inputs against it.  ABI
  parsing and unpacking are go-ethereum's (parameters of \<open>EthLib\<close>); what is modelled is which
  event specification a log is decoded with, which arguments are read from where, and when
  decoding fails.
\<close>

section \<open>The registry\<close>

record ContractSpec =
  cs_Name :: string
  cs_Address :: string
  cs_ABIPath :: string
  cs_Events :: "string list"

record EventSpec =
  es_ContractAddress :: address
  es_EventName :: string
  es_Event :: abi_event

record Registry =
  byTopicAddress :: "string \<Rightarrow> EventSpec option"
  byTopic :: "hash \<Rightarrow> EventSpec option"
  addresses :: "address list"
  topic0s :: "hash list"
  abiByAddress :: "string \<Rightarrow> ABI option"

record 'v DecodedLog =
  dl_EventName :: string
  dl_Args :: "string \<Rightarrow> 'v option"

definition empty_registry :: Registry where
  "empty_registry = \<lparr>byTopicAddress = Map.empty, byTopic = Map.empty, addresses = [],
     topic0s = [], abiByAddress = Map.empty\<rparr>"

definition topicAddressKey :: "'v EthLib \<Rightarrow> hash \<Rightarrow> address \<Rightarrow> string" where
  "topicAddressKey lib topic addr = to_lower (HashHex lib topic @ ''|'' @ AddressHex lib addr)"

text \<open>The inner loop of \<open>LoadRegistry\<close>: one event of a contract after the other.\<close>

fun load_events :: "'v EthLib \<Rightarrow> ABI \<Rightarrow> string \<Rightarrow> address \<Rightarrow> string list \<Rightarrow> Registry \<Rightarrow>
    Registry result" where
  "load_events lib parsed path addr [] reg = Inr reg"
| "load_events lib parsed path addr (evtName # rest) reg =
     (case abi_Events parsed evtName of
        None \<Rightarrow> Inl (ErrNew (''event '' @ evtName @ '' not found in '' @ path))
      | Some evt \<Rightarrow>
          (let spec = \<lparr>es_ContractAddress = addr, es_EventName = ev_Name evt, es_Event = evt\<rparr>;
               key = topicAddressKey lib (ev_ID evt) addr
           in load_events lib parsed path addr rest
                (reg\<lparr>byTopicAddress := (byTopicAddress reg)(key \<mapsto> spec),
                     byTopic := (byTopic reg)(ev_ID evt \<mapsto> spec),
                     topic0s := topic0s reg @ [ev_ID evt]\<rparr>)))"

text \<open>The outer loop; \<open>readFile\<close> is \<open>os.ReadFile\<close>.\<close>

fun load_contracts :: "'v EthLib \<Rightarrow> (string \<Rightarrow> string result) \<Rightarrow> ContractSpec list \<Rightarrow> Registry \<Rightarrow>
    Registry result" where
  "load_contracts lib readFile [] reg = Inr reg"
| "load_contracts lib readFile (c # cs) reg =
     (let addr = HexToAddress lib (cs_Address c) in
      and_then (wrap_err (''read abi '' @ cs_ABIPath c) (readFile (cs_ABIPath c))) (\<lambda>b.
      and_then (wrap_err (''parse abi '' @ cs_ABIPath c) (abi_JSON lib b)) (\<lambda>parsed.
      and_then (load_events lib parsed (cs_ABIPath c) addr (cs_Events c)
          (reg\<lparr>abiByAddress := (abiByAddress reg)(to_lower (AddressHex lib addr) \<mapsto> parsed)\<rparr>)) (\<lambda>reg'.
        load_contracts lib readFile cs (reg'\<lparr>addresses := addresses reg' @ [addr]\<rparr>)))))"

definition LoadRegistry :: "'v EthLib \<Rightarrow> (string \<Rightarrow> string result) \<Rightarrow> ContractSpec list \<Rightarrow>
    Registry result" where
  "LoadRegistry lib readFile contracts = load_contracts lib readFile contracts empty_registry"

section \<open>Decoding logs\<close>

fun splitArgs :: "abi_argument list \<Rightarrow> abi_argument list \<times> abi_argument list" where
  "splitArgs [] = ([], [])"
| "splitArgs (a # as) = (let (indexed, nonIndexed) = splitArgs as in
     if arg_Indexed a then (a # indexed, nonIndexed) else (indexed, a # nonIndexed))"

text \<open>The lookup of \<open>DecodeLog\<close>: topic and address first, then the topic alone.\<close>

definition find_spec :: "'v EthLib \<Rightarrow> Registry \<Rightarrow> hash \<Rightarrow> address \<Rightarrow> EventSpec option" where
  "find_spec lib r topic0 addr =
     (case byTopicAddress r (topicAddressKey lib topic0 addr) of
        Some spec \<Rightarrow> Some spec
      | None \<Rightarrow> byTopic r topic0)"

definition DecodeLog :: "'v EthLib \<Rightarrow> Registry \<Rightarrow> eth_log \<Rightarrow> 'v DecodedLog result" where
  "DecodeLog lib r log =
     (case l_Topics log of
        [] \<Rightarrow> Inl (ErrNew ''log has no topics'')
      | topic0 # rest \<Rightarrow>
          (case find_spec lib r topic0 (l_Address log) of
             None \<Rightarrow> Inl (ErrNew (''unknown event topic '' @ HashHex lib topic0))
           | Some spec \<Rightarrow>
               (let (indexed, nonIndexed) = splitArgs (ev_Inputs (es_Event spec)) in
                and_then (wrap_err ''unpack data'' (UnpackIntoMap lib Map.empty nonIndexed (l_Data log))) (\<lambda>args.
                and_then (wrap_err ''parse topics'' (ParseTopicsIntoMap lib args indexed rest)) (\<lambda>args'.
                  Inr \<lparr>dl_EventName = es_EventName spec, dl_Args = args'\<rparr>)))))"

definition ArgsJSON :: "'v EthLib \<Rightarrow> 'v DecodedLog \<Rightarrow> string result" where
  "ArgsJSON lib d = MarshalArgs lib (dl_Args d)"

definition TopicsToHex :: "'v EthLib \<Rightarrow> hash list \<Rightarrow> string list" where
  "TopicsToHex lib topics = map (HashHex lib) topics"

definition FilterAddresses :: "'v EthLib \<Rightarrow> Registry \<Rightarrow> string list" where
  "FilterAddresses lib r = map (AddressHex lib) (addresses r)"

definition FilterTopics :: "'v EthLib \<Rightarrow> Registry \<Rightarrow> string list" where
  "FilterTopics lib r = TopicsToHex lib (topic0s r)"

section \<open>Decoding transaction inputs\<close>

record 'v InputDecoded =
  in_Method :: string
  in_Args :: "string \<Rightarrow> 'v option"

definition hex_value :: "char \<Rightarrow> nat option" where
  "hex_value c = (let n = of_char c :: nat in
     if 48 \<le> n \<and> n \<le> 57 then Some (n - 48)
     else if 97 \<le> n \<and> n \<le> 102 then Some (n - 97 + 10)
     else if 65 \<le> n \<and> n \<le> 70 then Some (n - 65 + 10)
     else None)"

text \<open>\<open>hex.DecodeString\<close> of \<open>encoding/hex\<close>: pairs of digits; an odd length is an error.\<close>

fun hex_DecodeString :: "string \<Rightarrow> byte list result" where
  "hex_DecodeString [] = Inr []"
| "hex_DecodeString [c] = (case hex_value c of
     None \<Rightarrow> Inl (ErrNew ''encoding/hex: invalid byte'')
   | Some _ \<Rightarrow> Inl (ErrNew ''encoding/hex: odd length hex string''))"
| "hex_DecodeString (c # d # s) = (case (hex_value c, hex_value d) of
     (Some h, Some l) \<Rightarrow> and_then (hex_DecodeString s) (\<lambda>bs. Inr (of_nat (16 * h + l) # bs))
   | _ \<Rightarrow> Inl (ErrNew ''encoding/hex: invalid byte''))"

definition DecodeInput :: "'v EthLib \<Rightarrow> Registry \<Rightarrow> string \<Rightarrow> string \<Rightarrow> 'v InputDecoded option result" where
  "DecodeInput lib r address inputHex =
     (if inputHex = '''' \<or> inputHex = ''0x'' then Inr None
      else (case abiByAddress r (to_lower (AddressHex lib (HexToAddress lib address))) of
         None \<Rightarrow> Inl (ErrNew (''no ABI for address '' @ address))
       | Some parsed \<Rightarrow>
           (let inputHex = trim_prefix inputHex ''0x'' in
            if length inputHex < 8 then Inl (ErrNew ''input too short'')
            else and_then (wrap_err ''decode input'' (hex_DecodeString inputHex)) (\<lambda>data.
                 and_then (MethodById lib parsed (take 4 data)) (\<lambda>m.
                 and_then (UnpackIntoMap lib Map.empty (me_Inputs m) (drop 4 data)) (\<lambda>args.
                   Inr (Some \<lparr>in_Method = me_Name m, in_Args = args\<rparr>)))))))"

text \<open>
  \<open>FormatDecodedInput\<close> followed by \<open>json.Marshal\<close>, as the fetcher uses it: nothing for
  \<open>nil\<close>, otherwise the object with \<open>method\<close> and \<open>args\<close>.
\<close>

definition FormatDecodedInput :: "'v InputDecoded option \<Rightarrow> (string \<times> (string \<Rightarrow> 'v option)) option" where
  "FormatDecodedInput d = (case d of None \<Rightarrow> None | Some x \<Rightarrow> Some (in_Method x, in_Args x))"

section \<open>Lemmas\<close>

lemma splitArgs_filter: "splitArgs as = (filter arg_Indexed as, filter (\<lambda>a. \<not> arg_Indexed a) as)"
  by (induction as) simp_all

text \<open>
  The registry invariant: the filter asks the node only for topics that have a specification,
  and every specification is filed under the topic and the address it says it has.
\<close>

definition registry_ok :: "'v EthLib \<Rightarrow> Registry \<Rightarrow> bool" where
  "registry_ok lib r \<longleftrightarrow>
     (\<forall>t \<in> set (topic0s r). byTopic r t \<noteq> None)
     \<and> (\<forall>t spec. byTopic r t = Some spec \<longrightarrow> ev_ID (es_Event spec) = t \<and> t \<in> set (topic0s r))
     \<and> (\<forall>k spec. byTopicAddress r k = Some spec \<longrightarrow>
          k = topicAddressKey lib (ev_ID (es_Event spec)) (es_ContractAddress spec)
          \<and> ev_ID (es_Event spec) \<in> set (topic0s r))"

lemma registry_ok_empty: "registry_ok lib empty_registry"
  by (simp add: registry_ok_def empty_registry_def)

lemma load_events_ok:
  "load_events lib p path addr es reg = Inr reg' \<Longrightarrow> registry_ok lib reg \<Longrightarrow>
   registry_ok lib reg' \<and> addresses reg' = addresses reg \<and> abiByAddress reg' = abiByAddress reg"
proof (induction es arbitrary: reg)
  case Nil
  then show ?case by simp
next
  case (Cons e es)
  then obtain evt where evt: "abi_Events p e = Some evt"
    by (auto split: option.splits)
  let ?spec = "\<lparr>es_ContractAddress = addr, es_EventName = ev_Name evt, es_Event = evt\<rparr>"
  let ?reg = "reg\<lparr>byTopicAddress := (byTopicAddress reg)(topicAddressKey lib (ev_ID evt) addr \<mapsto> ?spec),
     byTopic := (byTopic reg)(ev_ID evt \<mapsto> ?spec), topic0s := topic0s reg @ [ev_ID evt]\<rparr>"
  from Cons.prems(1) evt have "load_events lib p path addr es ?reg = Inr reg'"
    by (simp add: Let_def)
  moreover have "registry_ok lib ?reg"
    using Cons.prems(2) by (auto simp: registry_ok_def split: if_splits)
  ultimately show ?case using Cons.IH [of ?reg] by simp
qed

lemma load_contracts_ok:
  "load_contracts lib rf cs reg = Inr reg' \<Longrightarrow> registry_ok lib reg \<Longrightarrow>
   registry_ok lib reg'
   \<and> addresses reg' = addresses reg @ map (\<lambda>c. HexToAddress lib (cs_Address c)) cs"
proof (induction cs arbitrary: reg)
  case Nil
  then show ?case by simp
next
  case (Cons c cs)
  let ?addr = "HexToAddress lib (cs_Address c)"
  from Cons.prems(1) obtain p reg1 where
    ev: "load_events lib p (cs_ABIPath c) ?addr (cs_Events c)
        (reg\<lparr>abiByAddress := (abiByAddress reg)(to_lower (AddressHex lib ?addr) \<mapsto> p)\<rparr>) = Inr reg1"
    and rest: "load_contracts lib rf cs (reg1\<lparr>addresses := addresses reg1 @ [?addr]\<rparr>) = Inr reg'"
    by (auto simp: Let_def and_then_Inr)
  from Cons.prems(2) have "registry_ok lib
      (reg\<lparr>abiByAddress := (abiByAddress reg)(to_lower (AddressHex lib ?addr) \<mapsto> p)\<rparr>)"
    by (simp add: registry_ok_def)
  from load_events_ok [OF ev this] have ok: "registry_ok lib reg1"
    and ad: "addresses reg1 = addresses reg" by auto
  from ok have "registry_ok lib (reg1\<lparr>addresses := addresses reg1 @ [?addr]\<rparr>)"
    by (simp add: registry_ok_def)
  from Cons.IH [OF rest this] ad show ?case by simp
qed

lemma find_spec_topic:
  assumes "registry_ok lib r" and "topic \<in> set (topic0s r)"
  shows "find_spec lib r topic addr \<noteq> None"
  using assms by (auto simp: find_spec_def registry_ok_def split: option.splits)

end
