(* ===== verification/Store.thy ===== *)
theory Store
  imports Prelude
begin

text \<open>
  \<open>internal/store/store.go\<close>: the records the program stores, the \<open>Store\<close> interface as a
  record of operations, and its contract as two locales, one for the log index and its
  checkpoints and one for the mempool table.  \<open>Store_SQLite\<close> and \<open>Store_Postgres\<close> implement
  the interface and interpret the locales.

  Every operation takes a \<open>faults\<close> function: \<open>f i\<close> is the error the database reports on the
  \<open>i\<close>-th call the operation makes to it, so \<open>\<lambda>_. None\<close> is a database that never fails.
\<close>

section \<open>Records\<close>

record LogRecord =
  lr_ChainID :: u64
  lr_ContractAddress :: string
  lr_EventName :: string
  lr_BlockNumber :: u64
  lr_BlockHash :: string
  lr_TxHash :: string
  lr_LogIndex :: u64
  lr_Timestamp :: time
  lr_ArgsJSON :: string
  lr_TopicsJSON :: string
  lr_DataHex :: string
  lr_InsertedAt :: time

record Checkpoint =
  cp_ID :: int
  cp_StartBlock :: u64
  cp_EndBlock :: u64
  cp_BlockHash :: string
  cp_InsertedAt :: time

record MempoolTx =
  mt_ChainID :: u64
  mt_Hash :: string
  mt_From :: string
  mt_To :: string
  mt_Nonce :: u64
  mt_Value :: string
  mt_Gas :: u64
  mt_GasPrice :: string
  mt_MaxFeePerGas :: string
  mt_MaxPriorityFeePerGas :: string
  mt_TxType :: u64
  mt_Input :: string
  mt_Status :: string
  mt_FirstSeenAt :: time
  mt_LastSeenAt :: time
  mt_MinedBlockNumber :: u64
  mt_MinedBlockHash :: string
  mt_MinedTxIndex :: u64
  mt_ReplacedByTxHash :: string
  mt_InsertedAt :: time
  mt_DecodedInputJSON :: string

record MinedInfo =
  mi_BlockNumber :: u64
  mi_BlockHash :: string
  mi_TxIndex :: u64

section \<open>The interface\<close>

type_synonym faults = "nat \<Rightarrow> go_error option"

record 's Store =
  st_Migrate :: "faults \<Rightarrow> 's \<Rightarrow> go_error option \<times> 's"
  st_InsertLogs :: "faults \<Rightarrow> LogRecord list \<Rightarrow> 's \<Rightarrow> go_error option \<times> 's"
  st_SaveRangeCheckpoint :: "faults \<Rightarrow> Checkpoint \<Rightarrow> 's \<Rightarrow> go_error option \<times> 's"
  st_LastCheckpoint :: "faults \<Rightarrow> 's \<Rightarrow> Checkpoint option result"
  st_CheckpointBefore :: "faults \<Rightarrow> u64 \<Rightarrow> 's \<Rightarrow> Checkpoint option result"
  st_RollbackFrom :: "faults \<Rightarrow> u64 \<Rightarrow> 's \<Rightarrow> go_error option \<times> 's"
  st_UpsertMempoolTx :: "faults \<Rightarrow> MempoolTx \<Rightarrow> 's \<Rightarrow> go_error option \<times> 's"
  st_MarkMempoolMined :: "faults \<Rightarrow> time \<Rightarrow> string \<Rightarrow> MinedInfo \<Rightarrow> 's \<Rightarrow> go_error option \<times> 's"
  st_MarkMempoolReplaced :: "faults \<Rightarrow> time \<Rightarrow> string \<Rightarrow> string \<Rightarrow> 's \<Rightarrow> go_error option \<times> 's"
  st_MarkMempoolDropped :: "faults \<Rightarrow> time \<Rightarrow> string \<Rightarrow> 's \<Rightarrow> go_error option \<times> 's"
  st_ListMempool :: "faults \<Rightarrow> string \<Rightarrow> int \<Rightarrow> 's \<Rightarrow> MempoolTx list result"
  st_ListLogs :: "faults \<Rightarrow> int \<Rightarrow> 's \<Rightarrow> LogRecord list result"

definition no_faults :: faults where
  "no_faults = (\<lambda>_. None)"

section \<open>The contract of the log index\<close>

text \<open>The primary key of the table of logs.\<close>

type_synonym log_key = "u64 \<times> string \<times> u64"

definition log_key :: "LogRecord \<Rightarrow> log_key" where
  "log_key l = (lr_ChainID l, lr_TxHash l, lr_LogIndex l)"

text \<open>Times are kept to the second (\<open>Time.Unix\<close> on the way in, \<open>time.Unix\<close> on the way out).\<close>

definition stored_log :: "LogRecord \<Rightarrow> LogRecord" where
  "stored_log l = l\<lparr>lr_Timestamp := time_Unix (Unix (lr_Timestamp l)),
                    lr_InsertedAt := time_Unix (Unix (lr_InsertedAt l))\<rparr>"

text \<open>What the index holds under each key after a batch: the first record stored wins.\<close>

definition insert_spec ::
    "LogRecord list \<Rightarrow> (log_key \<Rightarrow> LogRecord option) \<Rightarrow> log_key \<Rightarrow> LogRecord option" where
  "insert_spec ls m k =
     (case m k of Some r \<Rightarrow> Some r
      | None \<Rightarrow> map_option stored_log (List.find (\<lambda>l. log_key l = k) ls))"

definition rollback_spec ::
    "u64 \<Rightarrow> (log_key \<Rightarrow> LogRecord option) \<Rightarrow> log_key \<Rightarrow> LogRecord option" where
  "rollback_spec b m k =
     (case m k of Some r \<Rightarrow> if lr_BlockNumber r < b then Some r else None | None \<Rightarrow> None)"

definition same_range :: "Checkpoint \<Rightarrow> Checkpoint \<Rightarrow> bool" where
  "same_range c d \<longleftrightarrow> cp_StartBlock c = cp_StartBlock d \<and> cp_EndBlock c = cp_EndBlock d
     \<and> cp_BlockHash c = cp_BlockHash d"

text \<open>The checkpoint \<open>c\<close> has the largest end block among \<open>cs\<close> (none if there is none).\<close>

definition last_of :: "Checkpoint list \<Rightarrow> Checkpoint option \<Rightarrow> bool" where
  "last_of cs r \<longleftrightarrow> (case r of None \<Rightarrow> cs = []
     | Some c \<Rightarrow> c \<in> set cs \<and> (\<forall>c' \<in> set cs. cp_EndBlock c' \<le> cp_EndBlock c))"

lemma stored_log_key [simp]: "log_key (stored_log l) = log_key l"
  by (simp add: stored_log_def log_key_def)

lemma stored_log_block [simp]: "lr_BlockNumber (stored_log l) = lr_BlockNumber l"
  by (simp add: stored_log_def)

locale log_store =
  fixes S :: "'s Store"
    and inv :: "'s \<Rightarrow> bool"
    and logv :: "'s \<Rightarrow> log_key \<Rightarrow> LogRecord option"
    and cpv :: "'s \<Rightarrow> Checkpoint list"
  assumes insert_ok: "inv s \<Longrightarrow> st_InsertLogs S f ls s = (None, s') \<Longrightarrow>
      inv s' \<and> logv s' = insert_spec ls (logv s) \<and> cpv s' = cpv s"
    and insert_err: "inv s \<Longrightarrow> st_InsertLogs S f ls s = (Some e, s') \<Longrightarrow> s' = s"
    and save_ok: "inv s \<Longrightarrow> st_SaveRangeCheckpoint S f c s = (None, s') \<Longrightarrow>
      inv s' \<and> logv s' = logv s \<and> (\<exists>c'. same_range c' c \<and> cpv s' = cpv s @ [c'])"
    and save_err: "inv s \<Longrightarrow> st_SaveRangeCheckpoint S f c s = (Some e, s') \<Longrightarrow> s' = s"
    and last_ok: "inv s \<Longrightarrow> st_LastCheckpoint S f s = Inr r \<Longrightarrow> last_of (cpv s) r"
    and before_ok: "inv s \<Longrightarrow> st_CheckpointBefore S f b s = Inr r \<Longrightarrow>
      last_of (filter (\<lambda>c. cp_EndBlock c < b) (cpv s)) r"
    and rollback_ok: "inv s \<Longrightarrow> st_RollbackFrom S f b s = (None, s') \<Longrightarrow>
      inv s' \<and> logv s' = rollback_spec b (logv s)
      \<and> cpv s' = filter (\<lambda>c. cp_StartBlock c < b) (cpv s)"
    and rollback_err: "inv s \<Longrightarrow> st_RollbackFrom S f b s = (Some e, s') \<Longrightarrow>
      inv s' \<and> cpv s' = cpv s \<and> (logv s' = logv s \<or> logv s' = rollback_spec b (logv s))"
begin

text \<open>Facts every client of the index uses.\<close>

lemma insert_inv: "inv s \<Longrightarrow> st_InsertLogs S f ls s = (r, s') \<Longrightarrow> inv s' \<and> cpv s' = cpv s"
  using insert_ok insert_err by (cases r) blast+

lemma save_inv: "inv s \<Longrightarrow> st_SaveRangeCheckpoint S f c s = (r, s') \<Longrightarrow> inv s' \<and> logv s' = logv s"
  using save_ok save_err by (cases r) blast+

lemma rollback_inv: "inv s \<Longrightarrow> st_RollbackFrom S f b s = (r, s') \<Longrightarrow> inv s'"
  using rollback_ok rollback_err by (cases r) blast+

text \<open>A record once stored is not overwritten, and a stored batch can be found.\<close>

lemma insert_keeps:
  "inv s \<Longrightarrow> st_InsertLogs S f ls s = (r, s') \<Longrightarrow> logv s k = Some l \<Longrightarrow> logv s' k = Some l"
  using insert_ok insert_err by (cases r) (force simp: insert_spec_def)+

lemma insert_found:
  assumes "inv s" and "st_InsertLogs S f ls s = (None, s')" and "l \<in> set ls"
  shows "logv s' (log_key l) \<noteq> None"
proof -
  from assms(3) have "List.find (\<lambda>x. log_key x = log_key l) ls \<noteq> None"
    by (auto simp: find_None_iff)
  with insert_ok [OF assms(1,2)] show ?thesis
    by (auto simp: insert_spec_def split: option.splits)
qed

text \<open>Storing the same batch again changes nothing.\<close>

lemma insert_twice:
  assumes "inv s" and "st_InsertLogs S f ls s = (None, s')"
    and "st_InsertLogs S g ls s' = (None, s'')"
  shows "logv s'' = logv s' \<and> cpv s'' = cpv s'"
proof -
  from insert_ok [OF assms(1,2)] have i: "inv s'" and v: "logv s' = insert_spec ls (logv s)" by auto
  from insert_ok [OF i assms(3)] have "logv s'' = insert_spec ls (insert_spec ls (logv s))"
    and "cpv s'' = cpv s'" by (auto simp: v)
  moreover have "insert_spec ls (insert_spec ls (logv s)) = insert_spec ls (logv s)"
    by (rule ext) (simp add: insert_spec_def split: option.splits)
  ultimately show ?thesis by (simp add: v)
qed

end

section \<open>The contract of the mempool table\<close>

definition known_status :: "string \<Rightarrow> bool" where
  "known_status s \<longleftrightarrow> s \<in> {''pending'', ''mined'', ''replaced'', ''dropped''}"

definition set_status :: "string \<Rightarrow> string \<Rightarrow> (string \<Rightarrow> string option) \<Rightarrow> string \<Rightarrow> string option" where
  "set_status h st m = (if m h = None then m else m(h \<mapsto> st))"

locale mempool_store =
  fixes S :: "'s Store"
    and minv :: "'s \<Rightarrow> bool"
    and statusv :: "'s \<Rightarrow> string \<Rightarrow> string option"
    and replv :: "'s \<Rightarrow> string \<Rightarrow> string option"
  assumes status_known: "minv s \<Longrightarrow> statusv s h = Some st \<Longrightarrow> known_status st"
    and upsert_ok: "minv s \<Longrightarrow> st_UpsertMempoolTx S f tx s = (None, s') \<Longrightarrow>
      minv s' \<and> statusv s' = (statusv s)(mt_Hash tx \<mapsto> mt_Status tx)"
    and upsert_replv: "minv s \<Longrightarrow> st_UpsertMempoolTx S f tx s = (None, s') \<Longrightarrow>
      statusv s h \<noteq> None \<Longrightarrow> replv s' h = replv s h"
    and upsert_err: "minv s \<Longrightarrow> st_UpsertMempoolTx S f tx s = (Some e, s') \<Longrightarrow> s' = s"
    and mined_ok: "minv s \<Longrightarrow> st_MarkMempoolMined S f now h mi s = (None, s') \<Longrightarrow>
      minv s' \<and> statusv s' = set_status h ''mined'' (statusv s)"
    and mined_err: "minv s \<Longrightarrow> st_MarkMempoolMined S f now h mi s = (Some e, s') \<Longrightarrow> s' = s"
    and replaced_ok: "minv s \<Longrightarrow> st_MarkMempoolReplaced S f now h by_h s = (None, s') \<Longrightarrow>
      minv s' \<and> statusv s' = set_status h ''replaced'' (statusv s)
      \<and> (statusv s h \<noteq> None \<longrightarrow> replv s' h = Some by_h)"
    and replaced_err: "minv s \<Longrightarrow> st_MarkMempoolReplaced S f now h by_h s = (Some e, s') \<Longrightarrow> s' = s"
    and dropped_ok: "minv s \<Longrightarrow> st_MarkMempoolDropped S f now h s = (None, s') \<Longrightarrow>
      minv s' \<and> statusv s' = set_status h ''dropped'' (statusv s)"
    and dropped_err: "minv s \<Longrightarrow> st_MarkMempoolDropped S f now h s = (Some e, s') \<Longrightarrow> s' = s"
begin

lemma upsert_minv: "minv s \<Longrightarrow> st_UpsertMempoolTx S f tx s = (r, s') \<Longrightarrow> minv s'"
  using upsert_ok upsert_err by (cases r) blast+

lemma mined_minv: "minv s \<Longrightarrow> st_MarkMempoolMined S f now h mi s = (r, s') \<Longrightarrow> minv s'"
  using mined_ok mined_err by (cases r) blast+

lemma replaced_minv: "minv s \<Longrightarrow> st_MarkMempoolReplaced S f now h b s = (r, s') \<Longrightarrow> minv s'"
  using replaced_ok replaced_err by (cases r) blast+

lemma dropped_minv: "minv s \<Longrightarrow> st_MarkMempoolDropped S f now h s = (r, s') \<Longrightarrow> minv s'"
  using dropped_ok dropped_err by (cases r) blast+

lemmas minv_kept = upsert_minv mined_minv replaced_minv dropped_minv

text \<open>No operation of the tracker makes a row disappear.\<close>

lemma set_status_dom: "dom (set_status h st m) = dom m"
  by (auto simp: set_status_def)

lemma mined_keeps_rows: "minv s \<Longrightarrow> st_MarkMempoolMined S f now h mi s = (r, s') \<Longrightarrow>
    dom (statusv s') = dom (statusv s)"
  using mined_ok mined_err set_status_dom by (cases r) metis+

lemma replaced_keeps_rows: "minv s \<Longrightarrow> st_MarkMempoolReplaced S f now h b s = (r, s') \<Longrightarrow>
    dom (statusv s') = dom (statusv s)"
  using replaced_ok replaced_err set_status_dom by (cases r) metis+

lemma dropped_keeps_rows: "minv s \<Longrightarrow> st_MarkMempoolDropped S f now h s = (r, s') \<Longrightarrow>
    dom (statusv s') = dom (statusv s)"
  using dropped_ok dropped_err set_status_dom by (cases r) metis+

end

end
