(* ===== verification/Rpc.thy ===== *)
theory Rpc
  imports Complex_Main Ethereum
begin

text \<open>
  \<open>internal/rpc/client.go\<close>: the JSON-RPC client.  \<open>Call\<close> is a loop of attempts; what the
  rate limiter, the HTTP client and the node do on attempt \<open>i\<close> is \<open>net i\<close>, an argument.
  The model returns the result together with the trace of what the call did (slot taken and
  given back, request posted, backoff slept), which the lemmas on retries read.
\<close>

section \<open>JSON-RPC structures\<close>

record rpcError =
  re_Code :: int
  re_Message :: string

record rpcResponse =
  rr_Result :: "json option"
  rr_Error :: "rpcError option"

record LogFilter =
  lf_FromBlock :: string
  lf_ToBlock :: string
  lf_Address :: "string list"
  lf_Topics :: "string list list"

record blockResponse =
  br_Number :: string
  br_Hash :: string
  br_Timestamp :: string

record RPCTransaction =
  tx_Hash :: string
  tx_From :: string
  tx_To :: "string option"
  tx_Nonce :: u64
  tx_Value :: "int option"
  tx_Gas :: u64
  tx_GasPrice :: "int option"
  tx_MaxFeePerGas :: "int option"
  tx_MaxPriorityFeePerGas :: "int option"
  tx_TxType :: "u64 option"
  tx_Input :: string

record RPCReceipt =
  rc_TransactionHash :: string
  rc_BlockHash :: string
  rc_BlockNumber :: "u64 option"
  rc_TransactionIndex :: "u64 option"
  rc_Status :: "u64 option"

record BlockHeader =
  bh_Number :: u64
  bh_Hash :: string
  bh_Timestamp :: time

section \<open>The client\<close>

definition defaultRetries :: nat where "defaultRetries = 5"

text \<open>Durations are nanoseconds.\<close>

definition defaultBackoff :: int where "defaultBackoff = 200000000"

definition maxBackoff :: int where "maxBackoff = 5000000000"

text \<open>\<open>cl_limit = None\<close> is \<open>rate.Inf\<close>; \<open>cl_sem\<close> is the capacity of the semaphore channel.\<close>

record Client =
  cl_url :: string
  cl_limit :: "rat option"
  cl_burst :: int
  cl_sem :: int
  cl_retries :: nat
  cl_backoff :: int

definition NewClient :: "string \<Rightarrow> int \<Rightarrow> rat \<Rightarrow> Client" where
  "NewClient url concurrency rateLimit =
     (let concurrency = (if concurrency \<le> 0 then 4 else concurrency);
          lim = (if rateLimit > 0 then Some rateLimit else None)
      in \<lparr>cl_url = url, cl_limit = lim, cl_burst = concurrency, cl_sem = concurrency,
          cl_retries = defaultRetries, cl_backoff = defaultBackoff\<rparr>)"

definition shouldRetry :: "go_error \<Rightarrow> bool" where
  "shouldRetry err = (if errors_is err ErrCanceled \<or> errors_is err ErrDeadlineExceeded
                      then False else True)"

definition isRetryableRPCError :: "rpcError option \<Rightarrow> bool" where
  "isRetryableRPCError err = (case err of None \<Rightarrow> False
     | Some e \<Rightarrow> if re_Code e = - 32005 then True
                 else str_contains (to_lower (re_Message e)) ''timeout'')"

definition isTooManyResults :: "string \<Rightarrow> bool" where
  "isTooManyResults msg = (let m = to_lower msg in
     str_contains m ''too many results'' \<or> str_contains m ''more than''
     \<or> str_contains m ''query returned'')"

text \<open>
  The backoff before the jitter, and after it: \<open>r\<close> is the random number of \<open>rand.Float64\<close>
  (\<open>0 \<le> r < 1\<close>).  The base is exact in a \<open>float64\<close>; the jittered wait is the exact product,
  without the rounding of the floating-point multiplication.
\<close>

definition backoff_base :: "Client \<Rightarrow> nat \<Rightarrow> int" where
  "backoff_base c attempt =
     (let exp = cl_backoff c * 2 ^ attempt in if exp > maxBackoff then maxBackoff else exp)"

definition sleepBackoff :: "Client \<Rightarrow> rat \<Rightarrow> nat \<Rightarrow> int" where
  "sleepBackoff c r attempt =
     (let jitter = r * (1 / 5) + 9 / 10 in \<lfloor>of_int (backoff_base c attempt) * jitter\<rfloor>)"

section \<open>One attempt, and the loop\<close>

text \<open>
  What happens to one attempt outside the program: the rate limiter may refuse, building the
  request may fail, the HTTP client may fail, the body may not be readable, and the body is a
  JSON-RPC response or no JSON.
\<close>

record http_response =
  hr_StatusCode :: int
  hr_Read :: "go_error option"
  hr_Body :: "rpcResponse result"

record attempt =
  at_wait :: "go_error option"
  at_build :: "go_error option"
  at_do :: "http_response result"

datatype rpc_event = Acquire | Release | Post | Backoff nat

datatype 'a verdict = Stop "'a result" | Retry

definition show_int :: "int \<Rightarrow> string" where
  "show_int i = (if i < 0 then CHR ''-'' # show_nat (nat (- i)) else show_nat (nat i))"

definition decode_result :: "(json \<Rightarrow> 'a result) \<Rightarrow> json option \<Rightarrow> 'a result" where
  "decode_result dec raw = wrap_err ''unmarshal result''
     (case raw of None \<Rightarrow> Inl (ErrNew ''unexpected end of JSON input'') | Some j \<Rightarrow> dec j)"

text \<open>What the code does with a response whose body it could read.\<close>

definition on_response :: "bool \<Rightarrow> (json \<Rightarrow> 'a result) \<Rightarrow> http_response \<Rightarrow> 'a verdict" where
  "on_response again dec resp =
     (if hr_StatusCode resp \<ge> 500 \<or> hr_StatusCode resp = 429
      then if again then Retry
           else Stop (Inl (ErrNew (''rpc http status '' @ show_int (hr_StatusCode resp))))
      else case hr_Body resp of
        Inl e \<Rightarrow> Stop (Inl (ErrWrap ''unmarshal response'' e))
      | Inr rr \<Rightarrow> (case rr_Error rr of
          Some er \<Rightarrow>
            if isTooManyResults (re_Message er) then Stop (Inl ErrTooManyResults)
            else if again \<and> isRetryableRPCError (Some er) then Retry
            else Stop (Inl (ErrNew (''rpc error '' @ show_int (re_Code er) @ '': '' @ re_Message er)))
        | None \<Rightarrow> Stop (decode_result dec (rr_Result rr))))"

definition try_once :: "bool \<Rightarrow> (json \<Rightarrow> 'a result) \<Rightarrow> attempt \<Rightarrow> 'a verdict \<times> rpc_event list" where
  "try_once again dec a =
     (case at_wait a of
        Some e \<Rightarrow> (Stop (Inl (ErrWrap ''rate limit wait'' e)), [])
      | None \<Rightarrow> (case at_build a of
          Some e \<Rightarrow> (Stop (Inl (ErrWrap ''build request'' e)), [Acquire, Release])
        | None \<Rightarrow> (case at_do a of
            Inl e \<Rightarrow> (if shouldRetry e \<and> again then Retry
                      else Stop (Inl (ErrWrap ''rpc post'' e)), [Acquire, Post, Release])
          | Inr resp \<Rightarrow> (case hr_Read resp of
              Some e \<Rightarrow> (Stop (Inl (ErrWrap ''read response'' e)), [Acquire, Post, Release])
            | None \<Rightarrow> (on_response again dec resp, [Acquire, Post, Release])))))"

text \<open>The loop \<open>for attempt := 0; attempt <= c.retries; attempt++\<close>.\<close>

function call_loop :: "nat \<Rightarrow> (nat \<Rightarrow> attempt) \<Rightarrow> (json \<Rightarrow> 'a result) \<Rightarrow> nat \<Rightarrow>
    'a result \<times> rpc_event list" where
  "call_loop retries net dec attempt =
     (if attempt \<le> retries then
        (case try_once (attempt < retries) dec (net attempt) of
           (Stop r, evs) \<Rightarrow> (r, evs)
         | (Retry, evs) \<Rightarrow> (let (r, evs') = call_loop retries net dec (Suc attempt)
                           in (r, evs @ Backoff attempt # evs')))
      else (Inl (ErrNew ''rpc call failed after retries''), []))"
  by pat_completeness auto
termination
  by (relation "measure (\<lambda>(retries, net, dec, attempt). Suc retries - attempt)") auto

declare call_loop.simps [simp del]

text \<open>\<open>marshal\<close> is the error of \<open>json.Marshal\<close> on the request, if any.\<close>

definition Call :: "Client \<Rightarrow> go_error option \<Rightarrow> (nat \<Rightarrow> attempt) \<Rightarrow> (json \<Rightarrow> 'a result) \<Rightarrow>
    'a result \<times> rpc_event list" where
  "Call c marshal net dec = (case marshal of
     Some e \<Rightarrow> (Inl (ErrWrap ''marshal request'' e), [])
   | None \<Rightarrow> call_loop (cl_retries c) net dec 0)"

section \<open>The methods\<close>

definition unmarshal_block :: "json \<Rightarrow> blockResponse result" where
  "unmarshal_block j =
     (if \<not> is_object j then Inl (ErrNew ''json: cannot unmarshal into rpc.blockResponse'')
      else and_then (unmarshal_string (json_field ''number'' j)) (\<lambda>n.
           and_then (unmarshal_string (json_field ''hash'' j)) (\<lambda>h.
           and_then (unmarshal_string (json_field ''timestamp'' j)) (\<lambda>t.
             Inr \<lparr>br_Number = n, br_Hash = h, br_Timestamp = t\<rparr>))))"

definition toHeader :: "'v EthLib \<Rightarrow> blockResponse \<Rightarrow> BlockHeader result" where
  "toHeader lib b =
     (if br_Number b = '''' then Inl (ErrNew ''block not found'')
      else and_then (wrap_err ''decode block number'' (DecodeUint64 lib (br_Number b))) (\<lambda>num.
           and_then (wrap_err ''decode timestamp'' (DecodeUint64 lib (br_Timestamp b))) (\<lambda>ts.
             Inr \<lparr>bh_Number = num, bh_Hash = br_Hash b, bh_Timestamp = time_Unix (sint ts)\<rparr>)))"

text \<open>The network as the client meets it: the attempts of each request.\<close>

type_synonym net = "nat \<Rightarrow> attempt"

definition GetBlockNumber :: "'v EthLib \<Rightarrow> Client \<Rightarrow> net \<Rightarrow> u64 result" where
  "GetBlockNumber lib c net =
     and_then (fst (Call c None net unmarshal_string)) (\<lambda>hexNum. DecodeUint64 lib hexNum)"

definition GetBlockByNumber :: "'v EthLib \<Rightarrow> Client \<Rightarrow> net \<Rightarrow> BlockHeader result" where
  "GetBlockByNumber lib c net =
     and_then (fst (Call c None net unmarshal_block)) (\<lambda>raw. toHeader lib raw)"

definition GetLogs :: "'v EthLib \<Rightarrow> Client \<Rightarrow> net \<Rightarrow> eth_log list result" where
  "GetLogs lib c net = fst (Call c None net (unmarshal_slice (UnmarshalLog lib)))"

definition unmarshal_tx :: "'v EthLib \<Rightarrow> json \<Rightarrow> RPCTransaction result" where
  "unmarshal_tx lib j =
     (if \<not> is_object j then Inl (ErrNew ''json: cannot unmarshal into rpc.RPCTransaction'')
      else let u = UnmarshalUint64 lib; b = UnmarshalBig lib; fld = (\<lambda>k. json_field k j) in
        and_then (unmarshal_string (fld ''hash'')) (\<lambda>h.
        and_then (unmarshal_string (fld ''from'')) (\<lambda>fr.
        and_then (unmarshal_ptr unmarshal_string (fld ''to'')) (\<lambda>to.
        and_then (unmarshal_ptr u (fld ''nonce'')) (\<lambda>no.
        and_then (unmarshal_ptr b (fld ''value'')) (\<lambda>v.
        and_then (unmarshal_ptr u (fld ''gas'')) (\<lambda>g.
        and_then (unmarshal_ptr b (fld ''gasPrice'')) (\<lambda>gp.
        and_then (unmarshal_ptr b (fld ''maxFeePerGas'')) (\<lambda>mf.
        and_then (unmarshal_ptr b (fld ''maxPriorityFeePerGas'')) (\<lambda>mp.
        and_then (unmarshal_ptr u (fld ''type'')) (\<lambda>ty.
        and_then (unmarshal_string (fld ''input'')) (\<lambda>inp.
          Inr \<lparr>tx_Hash = h, tx_From = fr, tx_To = to,
             tx_Nonce = (case no of None \<Rightarrow> 0 | Some x \<Rightarrow> x), tx_Value = v,
             tx_Gas = (case g of None \<Rightarrow> 0 | Some x \<Rightarrow> x), tx_GasPrice = gp,
             tx_MaxFeePerGas = mf, tx_MaxPriorityFeePerGas = mp, tx_TxType = ty,
             tx_Input = inp\<rparr>))))))))))))"

definition unmarshal_receipt :: "'v EthLib \<Rightarrow> json \<Rightarrow> RPCReceipt result" where
  "unmarshal_receipt lib j =
     (if \<not> is_object j then Inl (ErrNew ''json: cannot unmarshal into rpc.RPCReceipt'')
      else let u = UnmarshalUint64 lib; fld = (\<lambda>k. json_field k j) in
        and_then (unmarshal_string (fld ''transactionHash'')) (\<lambda>th.
        and_then (unmarshal_string (fld ''blockHash'')) (\<lambda>bh.
        and_then (unmarshal_ptr u (fld ''blockNumber'')) (\<lambda>bn.
        and_then (unmarshal_ptr u (fld ''transactionIndex'')) (\<lambda>ti.
        and_then (unmarshal_ptr u (fld ''status'')) (\<lambda>st.
          Inr \<lparr>rc_TransactionHash = th, rc_BlockHash = bh, rc_BlockNumber = bn,
             rc_TransactionIndex = ti, rc_Status = st\<rparr>))))))"

text \<open>\<open>json.RawMessage\<close> keeps the document; null means not found.\<close>

definition GetTransactionByHash :: "'v EthLib \<Rightarrow> Client \<Rightarrow> net \<Rightarrow> RPCTransaction option result" where
  "GetTransactionByHash lib c net =
     and_then (fst (Call c None net Inr)) (\<lambda>raw.
       if raw = JNull then Inr None
       else and_then (unmarshal_tx lib raw) (\<lambda>tx. Inr (Some tx)))"

definition GetTransactionReceipt :: "'v EthLib \<Rightarrow> Client \<Rightarrow> net \<Rightarrow> RPCReceipt option result" where
  "GetTransactionReceipt lib c net =
     and_then (fst (Call c None net Inr)) (\<lambda>raw.
       if raw = JNull then Inr None
       else and_then (unmarshal_receipt lib raw) (\<lambda>rc. Inr (Some rc)))"

section \<open>The client as its callers see it\<close>

text \<open>
  The extractor and the mempool service meet the client through these methods.  The first
  argument is the moment of the call (a counter of the calls made so far), so that the node
  may answer the same question differently later.
\<close>

record Rpc =
  rpc_GetBlockNumber :: "nat \<Rightarrow> u64 result"
  rpc_GetBlockByNumber :: "nat \<Rightarrow> u64 \<Rightarrow> BlockHeader result"
  rpc_GetLogs :: "nat \<Rightarrow> LogFilter \<Rightarrow> eth_log list result"
  rpc_GetTransactionByHash :: "nat \<Rightarrow> string \<Rightarrow> RPCTransaction option result"
  rpc_GetTransactionReceipt :: "nat \<Rightarrow> string \<Rightarrow> RPCReceipt option result"

definition GetBlockHashByNumber :: "Rpc \<Rightarrow> nat \<Rightarrow> u64 \<Rightarrow> string result" where
  "GetBlockHashByNumber r t number =
     and_then (rpc_GetBlockByNumber r t number) (\<lambda>h. Inr (bh_Hash h))"

text \<open>The parameters of the request, as the client sends them.\<close>

datatype request =
    eth_blockNumber
  | eth_getBlockByNumber string bool
  | eth_getLogs LogFilter
  | eth_getTransactionByHash string
  | eth_getTransactionReceipt string

definition client_rpc :: "'v EthLib \<Rightarrow> Client \<Rightarrow> (nat \<Rightarrow> request \<Rightarrow> net) \<Rightarrow> Rpc" where
  "client_rpc lib c world = \<lparr>
     rpc_GetBlockNumber = (\<lambda>t. GetBlockNumber lib c (world t eth_blockNumber)),
     rpc_GetBlockByNumber = (\<lambda>t n.
       GetBlockByNumber lib c (world t (eth_getBlockByNumber (EncodeUint64 lib n) False))),
     rpc_GetLogs = (\<lambda>t f. GetLogs lib c (world t (eth_getLogs f))),
     rpc_GetTransactionByHash = (\<lambda>t h.
       GetTransactionByHash lib c (world t (eth_getTransactionByHash h))),
     rpc_GetTransactionReceipt = (\<lambda>t h.
       GetTransactionReceipt lib c (world t (eth_getTransactionReceipt h)))\<rparr>"

end
