(* ===== verification/Reorg.thy ===== *)
theory Reorg
  imports Store Rpc
begin

text \<open>
  \<open>internal/reorg/reorg.go\<close>: compare the hash of the newest checkpoint with the chain, and
  delete what was indexed after the checkpoint before it when they differ.  \<open>df t\<close> are the
  faults of the database at moment \<open>t\<close>; the three calls of \<open>Detect\<close> happen at the moments
  \<open>t\<close>, \<open>t + 1\<close> and \<open>t + 2\<close>.
\<close>

definition Detect :: "Rpc \<Rightarrow> 's Store \<Rightarrow> (nat \<Rightarrow> faults) \<Rightarrow> nat \<Rightarrow> 's \<Rightarrow> (u64 \<times> bool) result" where
  "Detect rpc S df t s =
     (case st_LastCheckpoint S (df t) s of
        Inl e \<Rightarrow> Inl (ErrWrap ''load checkpoint'' e)
      | Inr None \<Rightarrow> Inr (0, False)
      | Inr (Some cp) \<Rightarrow>
          (case GetBlockHashByNumber rpc (t + 1) (cp_EndBlock cp) of
             Inl e \<Rightarrow> Inl (ErrWrap ''fetch block hash'' e)
           | Inr hash \<Rightarrow>
               if hash = cp_BlockHash cp then Inr (0, False)
               else (case st_CheckpointBefore S (df (t + 2)) (cp_StartBlock cp) s of
                  Inl e \<Rightarrow> Inl (ErrWrap ''load previous checkpoint'' e)
                | Inr prev \<Rightarrow>
                    (let rollbackFrom = (case prev of None \<Rightarrow> cp_StartBlock cp
                                         | Some p \<Rightarrow> cp_EndBlock p + 1)
                     in Inr (rollbackFrom, True)))))"

definition Rollback :: "'s Store \<Rightarrow> faults \<Rightarrow> u64 \<Rightarrow> 's \<Rightarrow> go_error option \<times> 's" where
  "Rollback S f fromBlock s = st_RollbackFrom S f fromBlock s"

text \<open>What a positive answer of \<open>Detect\<close> rests on.\<close>

lemma Detect_True:
  assumes "Detect rpc S df t s = Inr (b, True)"
  obtains cp hash prev where
    "st_LastCheckpoint S (df t) s = Inr (Some cp)"
    "GetBlockHashByNumber rpc (t + 1) (cp_EndBlock cp) = Inr hash" "hash \<noteq> cp_BlockHash cp"
    "st_CheckpointBefore S (df (t + 2)) (cp_StartBlock cp) s = Inr prev"
    "b = (case prev of None \<Rightarrow> cp_StartBlock cp | Some p \<Rightarrow> cp_EndBlock p + 1)"
  using assms unfolding Detect_def
  by (auto simp: Let_def split: sum.splits option.splits if_splits)

end
