(* ===== verification/Metrics.thy ===== *)
theory Metrics
  imports Prelude "HOL-Library.Multiset"
begin

text \<open>
  \<open>internal/metrics/metrics.go\<close>: four 64-bit counters.  The atomic additions of the workers
  are the only operations that interleave; they commute, so the totals do not depend on the
  schedule.
\<close>

record Metrics =
  processedBlocks :: u64
  processedLogs :: u64
  rpcErrors :: u64
  lagBlocks :: u64

definition zero_metrics :: Metrics where
  "zero_metrics = \<lparr>processedBlocks = 0, processedLogs = 0, rpcErrors = 0, lagBlocks = 0\<rparr>"

definition AddBlocks :: "u64 \<Rightarrow> Metrics \<Rightarrow> Metrics" where
  "AddBlocks n m = m\<lparr>processedBlocks := processedBlocks m + n\<rparr>"

definition AddLogs :: "u64 \<Rightarrow> Metrics \<Rightarrow> Metrics" where
  "AddLogs n m = m\<lparr>processedLogs := processedLogs m + n\<rparr>"

definition AddRPCErrors :: "u64 \<Rightarrow> Metrics \<Rightarrow> Metrics" where
  "AddRPCErrors n m = m\<lparr>rpcErrors := rpcErrors m + n\<rparr>"

definition SetLag :: "u64 \<Rightarrow> Metrics \<Rightarrow> Metrics" where
  "SetLag n m = m\<lparr>lagBlocks := n\<rparr>"

definition Snapshot :: "Metrics \<Rightarrow> u64 \<times> u64 \<times> u64 \<times> u64" where
  "Snapshot m = (processedBlocks m, processedLogs m, rpcErrors m, lagBlocks m)"

text \<open>
  \<open>StartLogger\<close>: the ticker, which may panic, and the goroutine.  Each time its \<open>select\<close> returns,
  either the ticker has fired, with the counters as they are then, or the context is done
  (\<open>None\<close>); the result is what it logs.
\<close>

definition StartLogger :: "time \<Rightarrow> go_error option" where
  "StartLogger interval = NewTicker interval"

fun metrics_logger :: "Metrics option list \<Rightarrow> (u64 \<times> u64 \<times> u64 \<times> u64) list" where
  "metrics_logger [] = []"
| "metrics_logger (None # evs) = []"
| "metrics_logger (Some m # evs) = Snapshot m # metrics_logger evs"

lemmas metrics_defs = AddBlocks_def AddLogs_def AddRPCErrors_def SetLag_def

lemma AddBlocks_fields [simp]:
  "processedBlocks (AddBlocks n m) = processedBlocks m + n"
  "processedLogs (AddBlocks n m) = processedLogs m"
  "rpcErrors (AddBlocks n m) = rpcErrors m" "lagBlocks (AddBlocks n m) = lagBlocks m"
  by (simp_all add: AddBlocks_def)

lemma AddLogs_fields [simp]:
  "processedBlocks (AddLogs n m) = processedBlocks m"
  "processedLogs (AddLogs n m) = processedLogs m + n"
  "rpcErrors (AddLogs n m) = rpcErrors m" "lagBlocks (AddLogs n m) = lagBlocks m"
  by (simp_all add: AddLogs_def)

lemma AddRPCErrors_fields [simp]:
  "processedBlocks (AddRPCErrors n m) = processedBlocks m"
  "processedLogs (AddRPCErrors n m) = processedLogs m"
  "rpcErrors (AddRPCErrors n m) = rpcErrors m + n" "lagBlocks (AddRPCErrors n m) = lagBlocks m"
  by (simp_all add: AddRPCErrors_def)

lemma SetLag_fields [simp]:
  "processedBlocks (SetLag n m) = processedBlocks m"
  "processedLogs (SetLag n m) = processedLogs m"
  "rpcErrors (SetLag n m) = rpcErrors m" "lagBlocks (SetLag n m) = n"
  by (simp_all add: SetLag_def)

text \<open>One atomic addition of a worker.\<close>

datatype add_op = Blocks u64 | Logs u64 | RPCErrors u64

fun apply_add :: "add_op \<Rightarrow> Metrics \<Rightarrow> Metrics" where
  "apply_add (Blocks n) m = AddBlocks n m"
| "apply_add (Logs n) m = AddLogs n m"
| "apply_add (RPCErrors n) m = AddRPCErrors n m"

lemma apply_add_commute: "apply_add a \<circ> apply_add b = apply_add b \<circ> apply_add a"
  by (cases a; cases b) (auto simp: metrics_defs add_ac fun_eq_iff)

text \<open>What an addition adds to each counter.\<close>

fun adds_blocks :: "add_op \<Rightarrow> u64" where
  "adds_blocks (Blocks n) = n" | "adds_blocks _ = 0"

fun adds_logs :: "add_op \<Rightarrow> u64" where
  "adds_logs (Logs n) = n" | "adds_logs _ = 0"

fun adds_errors :: "add_op \<Rightarrow> u64" where
  "adds_errors (RPCErrors n) = n" | "adds_errors _ = 0"

lemma fold_adds:
  "processedBlocks (fold apply_add ops m) = processedBlocks m + sum_list (map adds_blocks ops)
   \<and> processedLogs (fold apply_add ops m) = processedLogs m + sum_list (map adds_logs ops)
   \<and> rpcErrors (fold apply_add ops m) = rpcErrors m + sum_list (map adds_errors ops)
   \<and> lagBlocks (fold apply_add ops m) = lagBlocks m"
proof (induction ops arbitrary: m)
  case Nil
  then show ?case by simp
next
  case (Cons a ops)
  then show ?case by (cases a) (auto simp: algebra_simps)
qed

text \<open>
  Concurrent counting.  The counters after any set of additions do not depend on the order
  in which the workers perform them: each is its old value plus the sum of what was added to
  it, modulo \<open>2 ^ 64\<close>.
\<close>

theorem totals_any_order:
  assumes "mset ops = mset ops'"
  shows "Snapshot (fold apply_add ops m) = Snapshot (fold apply_add ops' m)
    \<and> Snapshot (fold apply_add ops m) = (processedBlocks m + sum_list (map adds_blocks ops),
         processedLogs m + sum_list (map adds_logs ops), rpcErrors m + sum_list (map adds_errors ops),
         lagBlocks m)"
proof -
  have "fold apply_add ops = fold apply_add ops'"
    using apply_add_commute assms by (rule fold_multiset_equiv)
  then show ?thesis using fold_adds [of ops m] by (simp add: Snapshot_def)
qed

theorem totals_any_order_witness:
  "Snapshot (fold apply_add [Blocks 3, Logs 2, Blocks 4] zero_metrics)
     = Snapshot (fold apply_add [Blocks 4, Blocks 3, Logs 2] zero_metrics)"
  using totals_any_order [of "[Blocks 3, Logs 2, Blocks 4]" "[Blocks 4, Blocks 3, Logs 2]"]
  by (simp add: add_mset_commute)

end
