(* ===== verification/Extract.thy ===== *)
theory Extract
  imports Chunker Decode Reorg Metrics
begin

text \<open>
  \<open>internal/extract/extract.go\<close>: the indexing of one range of blocks.  The state is explicit:
  a \<open>World\<close> holds the store, the metrics and a counter of the calls made to the outside
  (node, database, clock), and an \<open>Env\<close> says what the outside answers at each moment.
\<close>

section \<open>Dependencies and surroundings\<close>

record 's Deps =
  dp_RPC :: Rpc
  dp_Store :: "'s Store"
  dp_Decoder :: Registry
  dp_ChainID :: u64

text \<open>go-ethereum, the faults of the database, the clock and the cancellation of the context.\<close>

record 'v Env =
  en_lib :: "'v EthLib"
  en_faults :: "nat \<Rightarrow> faults"
  en_now :: "nat \<Rightarrow> time"
  en_cancelled :: "nat \<Rightarrow> bool"

record 's World =
  wd_tick :: nat
  wd_store :: 's
  wd_metrics :: Metrics

record Range =
  rg_From :: u64
  rg_To :: u64

section \<open>Block cache\<close>

type_synonym BlockCache = "u64 \<Rightarrow> BlockHeader option"

definition NewBlockCache :: BlockCache where
  "NewBlockCache = Map.empty"

text \<open>\<open>BlockCache.Get\<close>: the header, the cache and the moment after the call.\<close>

definition cache_Get :: "Rpc \<Rightarrow> BlockCache \<Rightarrow> nat \<Rightarrow> u64 \<Rightarrow>
    BlockHeader result \<times> BlockCache \<times> nat" where
  "cache_Get rpc c t number =
     (case c number of
        Some h \<Rightarrow> (Inr h, c, t)
      | None \<Rightarrow> (case rpc_GetBlockByNumber rpc t number of
          Inl e \<Rightarrow> (Inl e, c, Suc t)
        | Inr h \<Rightarrow> (Inr h, c(number \<mapsto> h), Suc t)))"

definition buildFilter :: "'v EthLib \<Rightarrow> u64 \<Rightarrow> u64 \<Rightarrow> Registry \<Rightarrow> LogFilter" where
  "buildFilter lib from to decoder = \<lparr>lf_FromBlock = EncodeUint64 lib from,
     lf_ToBlock = EncodeUint64 lib to, lf_Address = FilterAddresses lib decoder,
     lf_Topics = [FilterTopics lib decoder]\<rparr>"

section \<open>Records of a batch of logs\<close>

text \<open>\<open>json.Marshal\<close> of a list of strings (escapes of quotes and backslashes only).\<close>

definition json_quote :: "string \<Rightarrow> string" where
  "json_quote s = [CHR 0x22] @ concat (map (\<lambda>c.
     if c = CHR 0x22 \<or> c = CHR 0x5C then [CHR 0x5C, c] else [c]) s) @ [CHR 0x22]"

fun json_join :: "string list \<Rightarrow> string" where
  "json_join [] = ''''"
| "json_join [s] = json_quote s"
| "json_join (s # t # ss) = json_quote s @ '','' @ json_join (t # ss)"

definition json_strings :: "string list \<Rightarrow> string" where
  "json_strings ss = ''['' @ json_join ss @ '']''"

definition make_record :: "'v Env \<Rightarrow> 's Deps \<Rightarrow> eth_log \<Rightarrow> 'v DecodedLog \<Rightarrow> string \<Rightarrow>
    BlockHeader \<Rightarrow> time \<Rightarrow> LogRecord" where
  "make_record E D l decoded argsJSON header now =
     (let lib = en_lib E in
      \<lparr>lr_ChainID = dp_ChainID D, lr_ContractAddress = AddressHex lib (l_Address l),
       lr_EventName = dl_EventName decoded, lr_BlockNumber = l_BlockNumber l,
       lr_BlockHash = HashHex lib (l_BlockHash l), lr_TxHash = HashHex lib (l_TxHash l),
       lr_LogIndex = l_Index l, lr_Timestamp = bh_Timestamp header, lr_ArgsJSON = argsJSON,
       lr_TopicsJSON = json_strings (TopicsToHex lib (l_Topics l)),
       lr_DataHex = EncodeBytes lib (l_Data l), lr_InsertedAt = now\<rparr>)"

fun buildRecords :: "'v Env \<Rightarrow> 's Deps \<Rightarrow> BlockCache \<Rightarrow> nat \<Rightarrow> eth_log list \<Rightarrow>
    LogRecord list result \<times> BlockCache \<times> nat" where
  "buildRecords E D c t [] = (Inr [], c, t)"
| "buildRecords E D c t (l # ls) =
     (case DecodeLog (en_lib E) (dp_Decoder D) l of
        Inl e \<Rightarrow> (Inl (ErrWrap ''decode log'' e), c, t)
      | Inr decoded \<Rightarrow> (case ArgsJSON (en_lib E) decoded of
          Inl e \<Rightarrow> (Inl (ErrWrap ''args json'' e), c, t)
        | Inr argsJSON \<Rightarrow> (case cache_Get (dp_RPC D) c t (l_BlockNumber l) of
            (Inl e, c', t') \<Rightarrow> (Inl (ErrWrap ''block header'' e), c', t')
          | (Inr header, c', t') \<Rightarrow>
              (let r = make_record E D l decoded argsJSON header (en_now E t') in
               case buildRecords E D c' (Suc t') ls of
                 (Inl e, c'', t'') \<Rightarrow> (Inl e, c'', t'')
               | (Inr rs, c'', t'') \<Rightarrow> (Inr (r # rs), c'', t'')))))"

section \<open>The adaptive loop over a range\<close>

record 's RangeState =
  rs_current :: u64
  rs_chunker :: Chunker
  rs_cache :: BlockCache
  rs_world :: "'s World"

datatype flow = Next | Fail go_error

text \<open>The range of blocks the next request asks for: \<open>size\<close> and \<open>end\<close> of the source.\<close>

definition chunk_size :: "u64 \<Rightarrow> 's RangeState \<Rightarrow> u64" where
  "chunk_size to st =
     (let size = Current (rs_chunker st); remaining = to - rs_current st + 1
      in if size > remaining then remaining else size)"

definition chunk_end :: "u64 \<Rightarrow> 's RangeState \<Rightarrow> u64" where
  "chunk_end to st = rs_current st + chunk_size to st - 1"

definition chunk_filter :: "'v Env \<Rightarrow> 's Deps \<Rightarrow> u64 \<Rightarrow> 's RangeState \<Rightarrow> LogFilter" where
  "chunk_filter E D to st =
     buildFilter (en_lib E) (rs_current st) (chunk_end to st) (dp_Decoder D)"

text \<open>From the answer of the node to the saved checkpoint: the world, cache and outcome.\<close>

definition store_chunk :: "'v Env \<Rightarrow> 's Deps \<Rightarrow> u64 \<Rightarrow> 's RangeState \<Rightarrow> eth_log list \<Rightarrow>
    's RangeState \<times> flow" where
  "store_chunk E D to st logs =
     (let w = rs_world st; size = chunk_size to st; last = chunk_end to st; S = dp_Store D in
      case buildRecords E D (rs_cache st) (Suc (wd_tick w)) logs of
        (Inl e, c, t) \<Rightarrow> (st\<lparr>rs_cache := c, rs_world := w\<lparr>wd_tick := t\<rparr>\<rparr>, Fail e)
      | (Inr records, c, t) \<Rightarrow>
          (case st_InsertLogs S (en_faults E t) records (wd_store w) of
             (Some e, s1) \<Rightarrow>
               (st\<lparr>rs_cache := c, rs_world := w\<lparr>wd_tick := Suc t, wd_store := s1\<rparr>\<rparr>,
                Fail (ErrWrap ''insert logs'' e))
           | (None, s1) \<Rightarrow>
               (case rpc_GetBlockByNumber (dp_RPC D) (Suc t) last of
                  Inl e \<Rightarrow>
                    (st\<lparr>rs_cache := c, rs_world := w\<lparr>wd_tick := t + 2, wd_store := s1\<rparr>\<rparr>,
                     Fail (ErrWrap ''fetch block hash'' e))
                | Inr header \<Rightarrow>
                    (let cp = \<lparr>cp_ID = 0, cp_StartBlock = rs_current st, cp_EndBlock = last,
                               cp_BlockHash = bh_Hash header, cp_InsertedAt = en_now E (t + 2)\<rparr> in
                     case st_SaveRangeCheckpoint S (en_faults E (t + 3)) cp s1 of
                       (Some e, s2) \<Rightarrow>
                         (st\<lparr>rs_cache := c, rs_world := w\<lparr>wd_tick := t + 4, wd_store := s2\<rparr>\<rparr>,
                          Fail (ErrWrap ''save checkpoint'' e))
                     | (None, s2) \<Rightarrow>
                         (st\<lparr>rs_current := last + 1, rs_chunker := OnSuccess (rs_chunker st),
                             rs_cache := c,
                             rs_world := w\<lparr>wd_tick := t + 4, wd_store := s2,
                               wd_metrics := AddLogs (of_nat (length records))
                                 (AddBlocks size (wd_metrics w))\<rparr>\<rparr>,
                          Next)))))"

text \<open>One pass through the body of \<open>for current <= to\<close>.\<close>

definition range_iter :: "'v Env \<Rightarrow> 's Deps \<Rightarrow> u64 \<Rightarrow> 's RangeState \<Rightarrow> 's RangeState \<times> flow" where
  "range_iter E D to st =
     (let w = rs_world st in
      case rpc_GetLogs (dp_RPC D) (wd_tick w) (chunk_filter E D to st) of
        Inl err \<Rightarrow>
          (let w' = w\<lparr>wd_tick := Suc (wd_tick w), wd_metrics := AddRPCErrors 1 (wd_metrics w)\<rparr> in
           if err = ErrTooManyResults
           then (st\<lparr>rs_chunker := OnError (rs_chunker st), rs_world := w'\<rparr>, Next)
           else (st\<lparr>rs_world := w'\<rparr>,
                 Fail (ErrWrap (''getLogs '' @ show_nat (unat (rs_current st)) @ ''-''
                        @ show_nat (unat (chunk_end to st))) err)))
      | Inr logs \<Rightarrow> store_chunk E D to st logs)"

text \<open>The loop; \<open>None\<close> is a loop that never ends, \<open>Some (st, err)\<close> one that returns.\<close>

partial_function (option) range_loop :: "'v Env \<Rightarrow> 's Deps \<Rightarrow> u64 \<Rightarrow> 's RangeState \<Rightarrow>
    ('s RangeState \<times> go_error option) option" where
  "range_loop E D to st =
     (if rs_current st \<le> to then
        (case range_iter E D to st of
           (st', Next) \<Rightarrow> range_loop E D to st'
         | (st', Fail e) \<Rightarrow> Some (st', Some e))
      else Some (st, None))"

definition range_start :: "Chunker \<Rightarrow> u64 \<Rightarrow> 's World \<Rightarrow> 's RangeState" where
  "range_start chunker from w =
     \<lparr>rs_current = from, rs_chunker = chunker, rs_cache = NewBlockCache, rs_world = w\<rparr>"

definition processRangeAdaptive :: "'v Env \<Rightarrow> 's Deps \<Rightarrow> Chunker \<Rightarrow> u64 \<Rightarrow> u64 \<Rightarrow> 's World \<Rightarrow>
    ('s RangeState \<times> go_error option) option" where
  "processRangeAdaptive E D chunker from to w = range_loop E D to (range_start chunker from w)"

end
