(* ===== verification/Tables.thy ===== *)
theory Tables
  imports Store "HOL-Library.Product_Lexorder"
begin

text \<open>
  The tables the SQL statements of \<open>internal/store\<close> work on, and the meaning of the
  statements both database drivers share: \<open>INSERT \<dots> ON CONFLICT DO NOTHING\<close>,
  \<open>SELECT \<dots> ORDER BY end_block DESC LIMIT 1\<close>, \<open>UPDATE \<dots> WHERE tx_hash = ?\<close> and the
  two \<open>ORDER BY \<dots> LIMIT\<close> listings.  A table is the list of its rows in insertion order.
  An unsigned column holds the value itself, because \<open>database/sql\<close> refuses to bind a
  \<open>uint64\<close> of \<open>2 ^ 63\<close> or more.
\<close>

section \<open>Rows\<close>

record log_row =
  w_chain_id :: u64
  w_contract_address :: string
  w_event_name :: string
  w_block_number :: u64
  w_block_hash :: string
  w_tx_hash :: string
  w_log_index :: u64
  w_timestamp :: int
  w_args_json :: string
  w_topics_json :: string
  w_data_hex :: string
  w_inserted_at :: int

record cp_row =
  w_id :: int
  w_start_block :: u64
  w_end_block :: u64
  w_cp_hash :: string
  w_cp_inserted_at :: int

record mem_row =
  m_chain_id :: u64
  m_tx_hash :: string
  m_from_addr :: string
  m_to_addr :: string
  m_nonce :: u64
  m_value :: string
  m_gas :: u64
  m_gas_price :: "string option"
  m_max_fee_per_gas :: "string option"
  m_max_priority_fee_per_gas :: "string option"
  m_tx_type :: "u64 option"
  m_input :: string
  m_status :: string
  m_first_seen_at :: int
  m_last_seen_at :: int
  m_mined_block_number :: "u64 option"
  m_mined_block_hash :: "string option"
  m_mined_tx_index :: "u64 option"
  m_replaced_by_tx_hash :: "string option"
  m_decoded_input_json :: "string option"
  m_inserted_at :: int

text \<open>\<open>d_seq\<close> is the next value of the auto-increment column \<open>checkpoints.id\<close>.\<close>

record db =
  d_schema :: "string list"
  d_logs :: "log_row list"
  d_cps :: "cp_row list"
  d_seq :: int
  d_mem :: "mem_row list"

definition empty_db :: db where
  "empty_db = \<lparr>d_schema = [], d_logs = [], d_cps = [], d_seq = 1, d_mem = []\<rparr>"

section \<open>Binding and scanning values\<close>

definition fits_int64 :: "u64 \<Rightarrow> bool" where
  "fits_int64 x \<longleftrightarrow> x < 9223372036854775808"

definition high_bit_error :: go_error where
  "high_bit_error = ErrNew ''uint64 values with high bit set are not supported''"

definition bind_u64s :: "u64 list \<Rightarrow> go_error option" where
  "bind_u64s xs = (if list_all fits_int64 xs then None else Some high_bit_error)"

definition nullIfEmpty :: "string \<Rightarrow> string option" where
  "nullIfEmpty v = (if v = [] then None else Some v)"

definition nullIfZero :: "u64 \<Rightarrow> u64 option" where
  "nullIfZero v = (if v = 0 then None else Some v)"

text \<open>What \<open>UpsertMempoolTx\<close> binds as integers, and the CHECK on the status column.\<close>

definition mem_bind :: "MempoolTx \<Rightarrow> go_error option" where
  "mem_bind tx = bind_u64s [mt_ChainID tx, mt_Nonce tx, mt_Gas tx, mt_TxType tx,
     mt_MinedBlockNumber tx, mt_MinedTxIndex tx]"

definition check_status_error :: go_error where
  "check_status_error = ErrNew ''CHECK constraint failed: status''"

text \<open>\<open>sql.NullString.String\<close> and \<open>sql.NullInt64\<close> read NULL as the zero value.\<close>

definition null_string :: "string option \<Rightarrow> string" where
  "null_string v = (case v of None \<Rightarrow> [] | Some s \<Rightarrow> s)"

definition null_u64 :: "u64 option \<Rightarrow> u64" where
  "null_u64 v = (case v of None \<Rightarrow> 0 | Some x \<Rightarrow> x)"

lemma null_string_nullIfEmpty [simp]: "null_string (nullIfEmpty v) = v"
  by (simp add: null_string_def nullIfEmpty_def)

lemma null_u64_nullIfZero [simp]: "null_u64 (nullIfZero v) = v"
  by (simp add: null_u64_def nullIfZero_def)

text \<open>
  \<open>scanCheckpoint\<close>: no row is \<open>nil, nil\<close>; otherwise the columns become the fields and the
  seconds a UTC time.
\<close>

definition cp_of_row :: "cp_row \<Rightarrow> Checkpoint" where
  "cp_of_row r = \<lparr>cp_ID = w_id r, cp_StartBlock = w_start_block r, cp_EndBlock = w_end_block r,
     cp_BlockHash = w_cp_hash r, cp_InsertedAt = time_Unix (w_cp_inserted_at r)\<rparr>"

definition scanCheckpoint :: "cp_row option result \<Rightarrow> Checkpoint option result" where
  "scanCheckpoint row = (case row of Inl e \<Rightarrow> Inl e
     | Inr None \<Rightarrow> Inr None
     | Inr (Some r) \<Rightarrow> Inr (Some (cp_of_row r)))"

definition log_of_row :: "log_row \<Rightarrow> LogRecord" where
  "log_of_row r = \<lparr>lr_ChainID = w_chain_id r, lr_ContractAddress = w_contract_address r,
     lr_EventName = w_event_name r, lr_BlockNumber = w_block_number r,
     lr_BlockHash = w_block_hash r, lr_TxHash = w_tx_hash r, lr_LogIndex = w_log_index r,
     lr_Timestamp = time_Unix (w_timestamp r), lr_ArgsJSON = w_args_json r,
     lr_TopicsJSON = w_topics_json r, lr_DataHex = w_data_hex r,
     lr_InsertedAt = time_Unix (w_inserted_at r)\<rparr>"

text \<open>The arguments of one execution of the prepared \<open>INSERT INTO logs\<close>.\<close>

definition row_of_log :: "LogRecord \<Rightarrow> log_row" where
  "row_of_log l = \<lparr>w_chain_id = lr_ChainID l, w_contract_address = lr_ContractAddress l,
     w_event_name = lr_EventName l, w_block_number = lr_BlockNumber l,
     w_block_hash = lr_BlockHash l, w_tx_hash = lr_TxHash l, w_log_index = lr_LogIndex l,
     w_timestamp = Unix (lr_Timestamp l), w_args_json = lr_ArgsJSON l,
     w_topics_json = lr_TopicsJSON l, w_data_hex = lr_DataHex l,
     w_inserted_at = Unix (lr_InsertedAt l)\<rparr>"

definition row_key :: "log_row \<Rightarrow> log_key" where
  "row_key r = (w_chain_id r, w_tx_hash r, w_log_index r)"

lemma log_of_row_of_log [simp]: "log_of_row (row_of_log l) = stored_log l"
  by (simp add: log_of_row_def row_of_log_def stored_log_def)

lemma row_key_of_log [simp]: "row_key (row_of_log l) = log_key l"
  by (simp add: row_key_def row_of_log_def log_key_def)

lemma log_key_of_row [simp]: "log_key (log_of_row r) = row_key r"
  by (simp add: row_key_def log_of_row_def log_key_def)

section \<open>Statements\<close>

text \<open>\<open>INSERT INTO logs \<dots> ON CONFLICT(chain_id, tx_hash, log_index) DO NOTHING\<close>.\<close>

definition sql_insert_log :: "log_row \<Rightarrow> log_row list \<Rightarrow> log_row list" where
  "sql_insert_log r rows = (if row_key r \<in> set (map row_key rows) then rows else rows @ [r])"

text \<open>\<open>ORDER BY end_block DESC LIMIT 1\<close>; among equal end blocks the newest row is taken.\<close>

fun sql_last_end :: "cp_row list \<Rightarrow> cp_row option" where
  "sql_last_end [] = None"
| "sql_last_end (r # rs) = (case sql_last_end rs of None \<Rightarrow> Some r
     | Some b \<Rightarrow> if w_end_block b < w_end_block r then Some r else Some b)"

text \<open>\<open>UPDATE mempool_txs SET \<dots> WHERE tx_hash = ?\<close>.\<close>

definition sql_update :: "string \<Rightarrow> (mem_row \<Rightarrow> mem_row) \<Rightarrow> mem_row list \<Rightarrow> mem_row list" where
  "sql_update h g rows = map (\<lambda>r. if m_tx_hash r = h then g r else r) rows"

text \<open>\<open>INSERT INTO mempool_txs \<dots> ON CONFLICT(tx_hash) DO UPDATE SET \<dots>\<close>.\<close>

definition sql_upsert :: "mem_row \<Rightarrow> mem_row list \<Rightarrow> mem_row list" where
  "sql_upsert x rows =
     (if m_tx_hash x \<in> set (map m_tx_hash rows)
      then sql_update (m_tx_hash x) (\<lambda>r. r\<lparr>m_last_seen_at := m_last_seen_at x,
             m_status := m_status x, m_gas_price := m_gas_price x,
             m_max_fee_per_gas := m_max_fee_per_gas x,
             m_max_priority_fee_per_gas := m_max_priority_fee_per_gas x,
             m_tx_type := m_tx_type x, m_decoded_input_json := m_decoded_input_json x\<rparr>) rows
      else rows @ [x])"

text \<open>\<open>ORDER BY \<dots> DESC LIMIT n\<close>.\<close>

definition sql_desc :: "('a \<Rightarrow> 'k::linorder) \<Rightarrow> int \<Rightarrow> 'a list \<Rightarrow> 'a list" where
  "sql_desc key n rows = take (nat n) (rev (sort_key key rows))"

text \<open>
  The loop over the batch inside the transaction of \<open>InsertLogs\<close>: the first execution that
  fails (a value that cannot be bound, or an error of the database) ends it.
\<close>

fun exec_inserts :: "(LogRecord \<Rightarrow> go_error option) \<Rightarrow> faults \<Rightarrow> nat \<Rightarrow> LogRecord list \<Rightarrow>
    log_row list \<Rightarrow> log_row list result" where
  "exec_inserts chk f i [] rows = Inr rows"
| "exec_inserts chk f i (l # ls) rows =
     (case f i of Some e \<Rightarrow> Inl e
      | None \<Rightarrow> (case chk l of Some e \<Rightarrow> Inl e
         | None \<Rightarrow> exec_inserts chk f (Suc i) ls (sql_insert_log (row_of_log l) rows)))"

text \<open>The statements of \<open>Migrate\<close>, each creating its object unless it exists.\<close>

fun exec_schema :: "faults \<Rightarrow> nat \<Rightarrow> string list \<Rightarrow> db \<Rightarrow> go_error option \<times> db" where
  "exec_schema f i [] d = (None, d)"
| "exec_schema f i (q # qs) d =
     (case f i of Some e \<Rightarrow> (Some (ErrWrap ''migrate'' e), d)
      | None \<Rightarrow> exec_schema f (Suc i) qs
          (if q \<in> set (d_schema d) then d else d\<lparr>d_schema := d_schema d @ [q]\<rparr>))"

section \<open>Lemmas on the statements\<close>

definition view_logs :: "log_row list \<Rightarrow> log_key \<Rightarrow> LogRecord option" where
  "view_logs rows k = map_option log_of_row (List.find (\<lambda>r. row_key r = k) rows)"

lemma find_append: "List.find P (xs @ ys) =
    (case List.find P xs of Some x \<Rightarrow> Some x | None \<Rightarrow> List.find P ys)"
  by (induction xs) auto

lemma find_map_keys: "List.find (\<lambda>r. f r = k) rows = None \<longleftrightarrow> k \<notin> set (map f rows)"
  by (induction rows) auto

lemma view_insert: "view_logs (sql_insert_log (row_of_log l) rows) = insert_spec [l] (view_logs rows)"
proof (rule ext)
  fix k
  show "view_logs (sql_insert_log (row_of_log l) rows) k = insert_spec [l] (view_logs rows) k"
  proof (cases "log_key l \<in> set (map row_key rows)")
    case True
    then have "view_logs rows (log_key l) \<noteq> None"
      by (simp add: view_logs_def find_map_keys)
    with True show ?thesis
      by (auto simp: sql_insert_log_def insert_spec_def split: option.splits)
  next
    case False
    then show ?thesis
      by (auto simp: sql_insert_log_def insert_spec_def view_logs_def find_append
          split: option.splits)
  qed
qed

lemma distinct_insert: "distinct (map row_key rows) \<Longrightarrow>
    distinct (map row_key (sql_insert_log r rows))"
  by (simp add: sql_insert_log_def)

lemma insert_spec_Nil [simp]: "insert_spec [] m = m"
  by (rule ext) (simp add: insert_spec_def split: option.splits)

lemma insert_spec_Cons: "insert_spec (l # ls) m = insert_spec ls (insert_spec [l] m)"
  by (rule ext) (auto simp: insert_spec_def split: option.splits)

lemma view_rollback:
  "distinct (map row_key rows) \<Longrightarrow>
   view_logs (filter (\<lambda>r. w_block_number r < b) rows) = rollback_spec b (view_logs rows)"
proof (rule ext)
  fix k
  assume "distinct (map row_key rows)"
  then show "view_logs (filter (\<lambda>r. w_block_number r < b) rows) k
      = rollback_spec b (view_logs rows) k"
  proof (induction rows)
    case Nil
    then show ?case by (simp add: view_logs_def rollback_spec_def)
  next
    case (Cons r rows)
    have blk: "lr_BlockNumber (log_of_row r) = w_block_number r" by (simp add: log_of_row_def)
    have out: "row_key r = k \<Longrightarrow> List.find (\<lambda>x. row_key x = k) (filter (\<lambda>r. w_block_number r < b) rows) = None"
      using Cons.prems by (auto simp: find_map_keys)
    show ?case
      using Cons by (auto simp: view_logs_def rollback_spec_def blk out)
  qed
qed

lemma exec_inserts_view:
  "exec_inserts chk f i ls rows = Inr rows' \<Longrightarrow> distinct (map row_key rows) \<Longrightarrow>
   view_logs rows' = insert_spec ls (view_logs rows) \<and> distinct (map row_key rows')"
proof (induction ls arbitrary: i rows)
  case Nil
  then show ?case by simp
next
  case (Cons l ls)
  from Cons.prems(1) have "exec_inserts chk f (Suc i) ls (sql_insert_log (row_of_log l) rows) = Inr rows'"
    by (auto split: option.splits)
  from Cons.IH [OF this distinct_insert [OF Cons.prems(2)]] show ?case
    by (simp add: view_insert insert_spec_Cons [of l ls])
qed

lemma exec_inserts_total:
  "(\<And>i. f i = None) \<Longrightarrow> (\<And>l. l \<in> set ls \<Longrightarrow> chk l = None) \<Longrightarrow>
   \<exists>rows'. exec_inserts chk f i ls rows = Inr rows'"
  by (induction ls arbitrary: i rows) auto

lemma exec_schema_frame:
  "d_logs (snd (exec_schema f i qs d)) = d_logs d" "d_cps (snd (exec_schema f i qs d)) = d_cps d"
  "d_mem (snd (exec_schema f i qs d)) = d_mem d" "d_seq (snd (exec_schema f i qs d)) = d_seq d"
  by (induction qs arbitrary: i d) (auto split: option.splits)

lemma exec_schema_present:
  "set qs \<subseteq> set (d_schema d) \<Longrightarrow> (\<And>i. f i = None) \<Longrightarrow> exec_schema f i qs d = (None, d)"
  by (induction qs arbitrary: i) auto

lemma exec_schema_creates:
  "exec_schema f i qs d = (None, d') \<Longrightarrow>
   set (d_schema d') = set (d_schema d) \<union> set qs"
proof (induction qs arbitrary: i d)
  case Nil
  then show ?case by simp
next
  case (Cons q qs)
  let ?d = "if q \<in> set (d_schema d) then d else d\<lparr>d_schema := d_schema d @ [q]\<rparr>"
  from Cons.prems have "exec_schema f (Suc i) qs ?d = (None, d')"
    by (auto split: option.splits)
  from Cons.IH [OF this] show ?case by (auto split: if_splits)
qed

lemma distinct_filter_keys: "distinct (map f rows) \<Longrightarrow> distinct (map f (filter P rows))"
  by (rule distinct_map_filter)

lemma sql_last_end_last_of: "last_of (map cp_of_row rows) (map_option cp_of_row (sql_last_end rows))"
proof (induction rows)
  case Nil
  then show ?case by (simp add: last_of_def)
next
  case (Cons r rs)
  show ?case
  proof (cases "sql_last_end rs")
    case None
    with Cons show ?thesis by (simp add: last_of_def)
  next
    case (Some b)
    with Cons show ?thesis
      by (auto simp: last_of_def cp_of_row_def not_less intro: order.trans less_imp_le)
  qed
qed

lemma filter_cp_rows: "filter (\<lambda>c. P (cp_StartBlock c) (cp_EndBlock c)) (map cp_of_row rows)
    = map cp_of_row (filter (\<lambda>r. P (w_start_block r) (w_end_block r)) rows)"
  by (induction rows) (auto simp: cp_of_row_def)

subsection \<open>The mempool table\<close>

definition view_status :: "mem_row list \<Rightarrow> string \<Rightarrow> string option" where
  "view_status rows h = map_option m_status (List.find (\<lambda>r. m_tx_hash r = h) rows)"

definition view_replaced :: "mem_row list \<Rightarrow> string \<Rightarrow> string option" where
  "view_replaced rows h =
     (case List.find (\<lambda>r. m_tx_hash r = h) rows of None \<Rightarrow> None | Some r \<Rightarrow> m_replaced_by_tx_hash r)"

text \<open>The rows' statuses satisfy the table's CHECK constraint, and hashes are unique.\<close>

definition mem_ok :: "mem_row list \<Rightarrow> bool" where
  "mem_ok rows \<longleftrightarrow> distinct (map m_tx_hash rows) \<and> (\<forall>r \<in> set rows. known_status (m_status r))"

lemma find_update:
  assumes "\<And>r. m_tx_hash (g r) = m_tx_hash r"
  shows "List.find (\<lambda>r. m_tx_hash r = k) (sql_update h g rows) =
    map_option (\<lambda>r. if m_tx_hash r = h then g r else r) (List.find (\<lambda>r. m_tx_hash r = k) rows)"
  by (induction rows) (auto simp: sql_update_def assms)

lemma find_hash: "List.find (\<lambda>r. m_tx_hash r = k) rows = Some r \<Longrightarrow> m_tx_hash r = k \<and> r \<in> set rows"
  by (induction rows) (auto split: if_splits)

lemma view_status_update:
  assumes "\<And>r. m_tx_hash (g r) = m_tx_hash r" and "\<And>r. m_status (g r) = st"
  shows "view_status (sql_update h g rows) = set_status h st (view_status rows)"
proof (rule ext)
  fix k
  show "view_status (sql_update h g rows) k = set_status h st (view_status rows) k"
  proof (cases "List.find (\<lambda>r. m_tx_hash r = k) rows")
    case None
    then show ?thesis by (auto simp: view_status_def set_status_def find_update [OF assms(1)])
  next
    case (Some r)
    then have "m_tx_hash r = k" by (rule find_hash [THEN conjunct1])
    with Some show ?thesis
      by (auto simp: view_status_def set_status_def find_update [OF assms(1)] assms(2))
  qed
qed

lemma update_hashes:
  assumes "\<And>r. m_tx_hash (g r) = m_tx_hash r"
  shows "map m_tx_hash (sql_update h g rows) = map m_tx_hash rows"
  by (induction rows) (simp_all add: sql_update_def assms)

lemma mem_ok_update:
  assumes "\<And>r. m_tx_hash (g r) = m_tx_hash r" and "\<And>r. m_status (g r) = st"
    and "known_status st" and "mem_ok rows"
  shows "mem_ok (sql_update h g rows)"
  using assms(2-4) by (auto simp: mem_ok_def update_hashes [OF assms(1)]) (auto simp: sql_update_def)

lemma view_status_upsert:
  "view_status (sql_upsert x rows) = (view_status rows)(m_tx_hash x \<mapsto> m_status x)"
proof (cases "m_tx_hash x \<in> set (map m_tx_hash rows)")
  case True
  then have "view_status rows (m_tx_hash x) \<noteq> None"
    by (simp add: view_status_def find_map_keys)
  with True show ?thesis
    by (auto simp: sql_upsert_def view_status_update set_status_def)
next
  case False
  then have "List.find (\<lambda>r. m_tx_hash r = m_tx_hash x) rows = None"
    by (simp add: find_map_keys)
  with False show ?thesis
    by (auto simp: sql_upsert_def view_status_def find_append intro!: ext split: option.splits)
qed

lemma mem_ok_upsert: "mem_ok rows \<Longrightarrow> known_status (m_status x) \<Longrightarrow> mem_ok (sql_upsert x rows)"
proof (cases "m_tx_hash x \<in> set (map m_tx_hash rows)")
  case True
  assume "mem_ok rows" "known_status (m_status x)"
  with True show ?thesis
    by (simp add: sql_upsert_def mem_ok_update)
next
  case False
  assume "mem_ok rows" "known_status (m_status x)"
  with False show ?thesis
    by (auto simp: sql_upsert_def mem_ok_def)
qed

lemma view_status_known: "mem_ok rows \<Longrightarrow> view_status rows h = Some st \<Longrightarrow> known_status st"
  by (auto simp: view_status_def mem_ok_def dest!: find_hash)

lemma view_replaced_update:
  assumes "\<And>r. m_tx_hash (g r) = m_tx_hash r" and "\<And>r. m_replaced_by_tx_hash (g r) = Some b"
    and "view_status rows h \<noteq> None"
  shows "view_replaced (sql_update h g rows) h = Some b"
proof (cases "List.find (\<lambda>r. m_tx_hash r = h) rows")
  case None
  with assms(3) show ?thesis unfolding view_status_def by simp
next
  case (Some r)
  then have "m_tx_hash r = h" by (rule find_hash [THEN conjunct1])
  with Some show ?thesis
    by (simp add: view_replaced_def find_update [OF assms(1)] assms(2))
qed

section \<open>Lemmas on the listings\<close>

lemma length_sql_desc: "length (sql_desc key n rows) = min (length rows) (nat n)"
  by (simp add: sql_desc_def)

lemma sorted_sql_desc: "sorted_wrt (\<lambda>x y. key y \<le> key x) (sql_desc key n rows)"
proof -
  have "sorted (map key (sort_key key rows))" by simp
  then have "sorted_wrt (\<lambda>x y. key x \<le> key y) (sort_key key rows)"
    by (simp add: sorted_wrt_map)
  then have "sorted_wrt (\<lambda>x y. key y \<le> key x) (rev (sort_key key rows))"
    by (simp add: sorted_wrt_rev)
  then show ?thesis by (simp add: sql_desc_def sorted_wrt_take)
qed

lemma set_sql_desc: "set (sql_desc key n rows) \<subseteq> set rows"
proof -
  have "set (sql_desc key n rows) \<subseteq> set (rev (sort_key key rows))"
    unfolding sql_desc_def by (rule set_take_subset)
  then show ?thesis by simp
qed

section \<open>What the tables show\<close>

text \<open>The views of the tables that the contracts of \<open>Store\<close> speak of, for both drivers.\<close>

definition db_inv :: "db \<Rightarrow> bool" where
  "db_inv d \<longleftrightarrow> distinct (map row_key (d_logs d))"

definition db_minv :: "db \<Rightarrow> bool" where
  "db_minv d \<longleftrightarrow> mem_ok (d_mem d)"

definition db_logs :: "db \<Rightarrow> log_key \<Rightarrow> LogRecord option" where
  "db_logs d = view_logs (d_logs d)"

definition db_cps :: "db \<Rightarrow> Checkpoint list" where
  "db_cps d = map cp_of_row (d_cps d)"

definition db_status :: "db \<Rightarrow> string \<Rightarrow> string option" where
  "db_status d = view_status (d_mem d)"

definition db_replaced :: "db \<Rightarrow> string \<Rightarrow> string option" where
  "db_replaced d = view_replaced (d_mem d)"

lemmas db_view_defs = db_inv_def db_minv_def db_logs_def db_cps_def db_status_def db_replaced_def

lemma rollback_rows:
  assumes "db_inv d"
  shows "db_inv (d\<lparr>d_logs := filter (\<lambda>r. \<not> w_block_number r \<ge> b) (d_logs d)\<rparr>)"
    and "db_logs (d\<lparr>d_logs := filter (\<lambda>r. \<not> w_block_number r \<ge> b) (d_logs d)\<rparr>)
      = rollback_spec b (db_logs d)"
    and "map cp_of_row (filter (\<lambda>r. \<not> w_start_block r \<ge> b) (d_cps d))
      = filter (\<lambda>c. cp_StartBlock c < b) (db_cps d)"
proof -
  from assms have dist: "distinct (map row_key (d_logs d))" by (simp add: db_view_defs)
  show "db_inv (d\<lparr>d_logs := filter (\<lambda>r. \<not> w_block_number r \<ge> b) (d_logs d)\<rparr>)"
    using distinct_filter_keys [OF dist] by (simp add: db_view_defs)
  show "db_logs (d\<lparr>d_logs := filter (\<lambda>r. \<not> w_block_number r \<ge> b) (d_logs d)\<rparr>)
      = rollback_spec b (db_logs d)"
    using view_rollback [OF dist, of b] by (simp add: db_view_defs not_le)
  show "map cp_of_row (filter (\<lambda>r. \<not> w_start_block r \<ge> b) (d_cps d))
      = filter (\<lambda>c. cp_StartBlock c < b) (db_cps d)"
    using filter_cp_rows [of "\<lambda>s _. s < b" "d_cps d"] by (simp add: db_view_defs not_le)
qed

text \<open>The effect of the updates of the mempool table on its views.\<close>

lemma known_statuses [simp]:
  "known_status ''pending''" "known_status ''mined''" "known_status ''replaced''"
  "known_status ''dropped''"
  by (simp_all add: known_status_def)

lemma db_update:
  assumes "\<And>r. m_tx_hash (g r) = m_tx_hash r" and "\<And>r. m_status (g r) = st"
    and "known_status st" and "db_minv d"
  shows "db_minv (d\<lparr>d_mem := sql_update h g (d_mem d)\<rparr>)
    \<and> db_status (d\<lparr>d_mem := sql_update h g (d_mem d)\<rparr>) = set_status h st (db_status d)"
  using mem_ok_update [OF assms(1-3)] view_status_update [OF assms(1,2)] assms(4)
  by (simp add: db_view_defs)

lemma db_upsert:
  assumes "m_tx_hash r = h" and "m_status r = st" and "known_status st" and "db_minv d"
  shows "db_minv (d\<lparr>d_mem := sql_upsert r (d_mem d)\<rparr>)
    \<and> db_status (d\<lparr>d_mem := sql_upsert r (d_mem d)\<rparr>) = (db_status d)(h \<mapsto> st)"
  using mem_ok_upsert [of "d_mem d" r] view_status_upsert [of r "d_mem d"] assms
  by (simp add: db_view_defs)

lemma db_update_replaced:
  assumes "\<And>r. m_tx_hash (g r) = m_tx_hash r" and "\<And>r. m_replaced_by_tx_hash (g r) = Some b"
    and "db_status d h \<noteq> None"
  shows "db_replaced (d\<lparr>d_mem := sql_update h g (d_mem d)\<rparr>) h = Some b"
  using view_replaced_update [OF assms(1,2), of "d_mem d" h] assms(3)
  by (simp add: db_view_defs)

lemma db_upsert_replaced:
  assumes "db_status d h \<noteq> None"
  shows "db_replaced (d\<lparr>d_mem := sql_upsert x (d_mem d)\<rparr>) h = db_replaced d h"
proof (cases "m_tx_hash x \<in> set (map m_tx_hash (d_mem d))")
  case True
  then show ?thesis
    by (simp add: db_view_defs view_replaced_def sql_upsert_def find_update split: option.splits)
next
  case False
  have "List.find p (rs @ [x]) = List.find p rs" if "List.find p rs \<noteq> None" for p and rs :: "mem_row list"
    using that by (induction rs) auto
  with False assms show ?thesis
    by (auto simp: db_view_defs view_status_def view_replaced_def sql_upsert_def split: option.splits)
qed

end
