(* ===== verification/Store_SQLite.thy ===== *)
theory Store_SQLite
  imports Tables
begin

text \<open>
  \<open>internal/store/sqlite.go\<close>: the methods of \<open>SQLiteStore\<close>, in the order of the file, on
  the tables of \<open>Tables\<close>.  The \<open>DATETIME\<close> columns of the mempool table hold Unix seconds.
  The store interprets both contracts of \<open>Store\<close>.
\<close>

section \<open>Operations\<close>

definition sqlite_schema :: "string list" where
  "sqlite_schema = [''logs'', ''idx_logs_block_number'', ''checkpoints'',
     ''idx_checkpoints_end_block'', ''mempool_txs'', ''idx_mempool_from_nonce'',
     ''idx_mempool_status'', ''idx_mempool_first_seen'']"

definition sqlite_Migrate :: "faults \<Rightarrow> db \<Rightarrow> go_error option \<times> db" where
  "sqlite_Migrate f d = exec_schema f 0 sqlite_schema d"

text \<open>
  Database calls of \<open>InsertLogs\<close>: 0 begins the transaction, 1 prepares the statement, the
  next ones execute it for each record, the last commits.  Every failure rolls back.
\<close>

definition sqlite_log_args :: "LogRecord \<Rightarrow> go_error option" where
  "sqlite_log_args l = bind_u64s [lr_ChainID l, lr_BlockNumber l]"

definition sqlite_InsertLogs :: "faults \<Rightarrow> LogRecord list \<Rightarrow> db \<Rightarrow> go_error option \<times> db" where
  "sqlite_InsertLogs f ls d =
     (if ls = [] then (None, d)
      else case f 0 of Some e \<Rightarrow> (Some e, d)
      | None \<Rightarrow> (case f 1 of Some e \<Rightarrow> (Some e, d)
      | None \<Rightarrow> (case exec_inserts sqlite_log_args f 2 ls (d_logs d) of
          Inl e \<Rightarrow> (Some e, d)
        | Inr rows \<Rightarrow> (case f (2 + length ls) of Some e \<Rightarrow> (Some e, d)
          | None \<Rightarrow> (None, d\<lparr>d_logs := rows\<rparr>)))))"

definition sqlite_SaveRangeCheckpoint :: "faults \<Rightarrow> Checkpoint \<Rightarrow> db \<Rightarrow> go_error option \<times> db" where
  "sqlite_SaveRangeCheckpoint f cp d =
     (case f 0 of Some e \<Rightarrow> (Some e, d)
      | None \<Rightarrow> (case bind_u64s [cp_StartBlock cp, cp_EndBlock cp] of Some e \<Rightarrow> (Some e, d)
      | None \<Rightarrow> (None, d\<lparr>d_cps := d_cps d @
          [\<lparr>w_id = d_seq d, w_start_block = cp_StartBlock cp, w_end_block = cp_EndBlock cp,
            w_cp_hash = cp_BlockHash cp, w_cp_inserted_at = Unix (cp_InsertedAt cp)\<rparr>],
          d_seq := d_seq d + 1\<rparr>)))"

definition sqlite_LastCheckpoint :: "faults \<Rightarrow> db \<Rightarrow> Checkpoint option result" where
  "sqlite_LastCheckpoint f d =
     scanCheckpoint (case f 0 of Some e \<Rightarrow> Inl e | None \<Rightarrow> Inr (sql_last_end (d_cps d)))"

definition sqlite_CheckpointBefore :: "faults \<Rightarrow> u64 \<Rightarrow> db \<Rightarrow> Checkpoint option result" where
  "sqlite_CheckpointBefore f block d =
     scanCheckpoint (case f 0 of Some e \<Rightarrow> Inl e
       | None \<Rightarrow> (case bind_u64s [block] of Some e \<Rightarrow> Inl e
         | None \<Rightarrow> Inr (sql_last_end (filter (\<lambda>r. w_end_block r < block) (d_cps d)))))"

text \<open>Two deletions, not in a transaction: the second may fail after the first has worked.\<close>

definition sqlite_RollbackFrom :: "faults \<Rightarrow> u64 \<Rightarrow> db \<Rightarrow> go_error option \<times> db" where
  "sqlite_RollbackFrom f fromBlock d =
     (case f 0 of Some e \<Rightarrow> (Some e, d)
      | None \<Rightarrow> (case bind_u64s [fromBlock] of Some e \<Rightarrow> (Some e, d)
      | None \<Rightarrow> (let d' = d\<lparr>d_logs := filter (\<lambda>r. \<not> w_block_number r \<ge> fromBlock) (d_logs d)\<rparr> in
         case f 1 of Some e \<Rightarrow> (Some e, d')
         | None \<Rightarrow> (None, d'\<lparr>d_cps := filter (\<lambda>r. \<not> w_start_block r \<ge> fromBlock) (d_cps d')\<rparr>))))"

definition sqlite_mem_row :: "MempoolTx \<Rightarrow> mem_row" where
  "sqlite_mem_row tx = \<lparr>m_chain_id = mt_ChainID tx, m_tx_hash = mt_Hash tx,
     m_from_addr = mt_From tx, m_to_addr = mt_To tx, m_nonce = mt_Nonce tx,
     m_value = mt_Value tx, m_gas = mt_Gas tx, m_gas_price = nullIfEmpty (mt_GasPrice tx),
     m_max_fee_per_gas = nullIfEmpty (mt_MaxFeePerGas tx),
     m_max_priority_fee_per_gas = nullIfEmpty (mt_MaxPriorityFeePerGas tx),
     m_tx_type = nullIfZero (mt_TxType tx), m_input = mt_Input tx, m_status = mt_Status tx,
     m_first_seen_at = Unix (mt_FirstSeenAt tx), m_last_seen_at = Unix (mt_LastSeenAt tx),
     m_mined_block_number = nullIfZero (mt_MinedBlockNumber tx),
     m_mined_block_hash = nullIfEmpty (mt_MinedBlockHash tx),
     m_mined_tx_index = nullIfZero (mt_MinedTxIndex tx),
     m_replaced_by_tx_hash = nullIfEmpty (mt_ReplacedByTxHash tx),
     m_decoded_input_json = nullIfEmpty (mt_DecodedInputJSON tx),
     m_inserted_at = Unix (mt_InsertedAt tx)\<rparr>"

definition sqlite_UpsertMempoolTx :: "faults \<Rightarrow> MempoolTx \<Rightarrow> db \<Rightarrow> go_error option \<times> db" where
  "sqlite_UpsertMempoolTx f tx d =
     (case f 0 of Some e \<Rightarrow> (Some e, d)
      | None \<Rightarrow> (case mem_bind tx of Some e \<Rightarrow> (Some e, d)
      | None \<Rightarrow> (if \<not> known_status (mt_Status tx) then (Some check_status_error, d)
                 else (None, d\<lparr>d_mem := sql_upsert (sqlite_mem_row tx) (d_mem d)\<rparr>))))"

definition sqlite_MarkMempoolMined ::
    "faults \<Rightarrow> time \<Rightarrow> string \<Rightarrow> MinedInfo \<Rightarrow> db \<Rightarrow> go_error option \<times> db" where
  "sqlite_MarkMempoolMined f now hash mined d =
     (case f 0 of Some e \<Rightarrow> (Some e, d)
      | None \<Rightarrow> (case bind_u64s [mi_BlockNumber mined, mi_TxIndex mined] of Some e \<Rightarrow> (Some e, d)
      | None \<Rightarrow> (None, d\<lparr>d_mem := sql_update hash
          (\<lambda>r. r\<lparr>m_status := ''mined'', m_mined_block_number := Some (mi_BlockNumber mined),
                m_mined_block_hash := Some (mi_BlockHash mined),
                m_mined_tx_index := Some (mi_TxIndex mined), m_last_seen_at := Unix now\<rparr>)
          (d_mem d)\<rparr>)))"

definition sqlite_MarkMempoolReplaced ::
    "faults \<Rightarrow> time \<Rightarrow> string \<Rightarrow> string \<Rightarrow> db \<Rightarrow> go_error option \<times> db" where
  "sqlite_MarkMempoolReplaced f now hash replacedBy d =
     (case f 0 of Some e \<Rightarrow> (Some e, d)
      | None \<Rightarrow> (None, d\<lparr>d_mem := sql_update hash
          (\<lambda>r. r\<lparr>m_status := ''replaced'', m_replaced_by_tx_hash := Some replacedBy,
                m_last_seen_at := Unix now\<rparr>) (d_mem d)\<rparr>))"

definition sqlite_MarkMempoolDropped :: "faults \<Rightarrow> time \<Rightarrow> string \<Rightarrow> db \<Rightarrow> go_error option \<times> db" where
  "sqlite_MarkMempoolDropped f now hash d =
     (case f 0 of Some e \<Rightarrow> (Some e, d)
      | None \<Rightarrow> (None, d\<lparr>d_mem := sql_update hash
          (\<lambda>r. r\<lparr>m_status := ''dropped'', m_last_seen_at := Unix now\<rparr>) (d_mem d)\<rparr>))"

definition sqlite_mem_tx :: "mem_row \<Rightarrow> MempoolTx" where
  "sqlite_mem_tx r = \<lparr>mt_ChainID = m_chain_id r, mt_Hash = m_tx_hash r, mt_From = m_from_addr r,
     mt_To = m_to_addr r, mt_Nonce = m_nonce r, mt_Value = m_value r, mt_Gas = m_gas r,
     mt_GasPrice = null_string (m_gas_price r),
     mt_MaxFeePerGas = null_string (m_max_fee_per_gas r),
     mt_MaxPriorityFeePerGas = null_string (m_max_priority_fee_per_gas r),
     mt_TxType = null_u64 (m_tx_type r), mt_Input = m_input r, mt_Status = m_status r,
     mt_FirstSeenAt = time_Unix (m_first_seen_at r), mt_LastSeenAt = time_Unix (m_last_seen_at r),
     mt_MinedBlockNumber = null_u64 (m_mined_block_number r),
     mt_MinedBlockHash = null_string (m_mined_block_hash r),
     mt_MinedTxIndex = null_u64 (m_mined_tx_index r),
     mt_ReplacedByTxHash = null_string (m_replaced_by_tx_hash r),
     mt_InsertedAt = time_Unix (m_inserted_at r),
     mt_DecodedInputJSON = null_string (m_decoded_input_json r)\<rparr>"

definition sqlite_ListMempool :: "faults \<Rightarrow> string \<Rightarrow> int \<Rightarrow> db \<Rightarrow> MempoolTx list result" where
  "sqlite_ListMempool f status limit d =
     (let limit = (if limit \<le> 0 then 100 else limit);
          rows = (if status \<noteq> '''' \<and> status \<noteq> ''all''
                  then filter (\<lambda>r. m_status r = status) (d_mem d) else d_mem d)
      in case f 0 of Some e \<Rightarrow> Inl e
         | None \<Rightarrow> Inr (map sqlite_mem_tx (sql_desc m_last_seen_at limit rows)))"

text \<open>
  A \<open>uint\<close> is bound as the signed 64-bit integer with the same bits, so \<open>log_index\<close> is
  ordered as a signed number and a negative one cannot be scanned back.
\<close>

definition sqlite_ListLogs :: "faults \<Rightarrow> int \<Rightarrow> db \<Rightarrow> LogRecord list result" where
  "sqlite_ListLogs f limit d =
     (let limit = (if limit \<le> 0 then 100 else limit)
      in case f 0 of Some e \<Rightarrow> Inl e
         | None \<Rightarrow> (let rows = sql_desc (\<lambda>r. (w_block_number r, sint (w_log_index r))) limit (d_logs d)
            in if list_all (\<lambda>r. fits_int64 (w_log_index r)) rows then Inr (map log_of_row rows)
               else Inl (ErrNew ''converting driver.Value type int64 to a uint'')))"

definition sqlite_store :: "db Store" where
  "sqlite_store = \<lparr>st_Migrate = sqlite_Migrate, st_InsertLogs = sqlite_InsertLogs,
     st_SaveRangeCheckpoint = sqlite_SaveRangeCheckpoint,
     st_LastCheckpoint = sqlite_LastCheckpoint, st_CheckpointBefore = sqlite_CheckpointBefore,
     st_RollbackFrom = sqlite_RollbackFrom, st_UpsertMempoolTx = sqlite_UpsertMempoolTx,
     st_MarkMempoolMined = sqlite_MarkMempoolMined,
     st_MarkMempoolReplaced = sqlite_MarkMempoolReplaced,
     st_MarkMempoolDropped = sqlite_MarkMempoolDropped,
     st_ListMempool = sqlite_ListMempool, st_ListLogs = sqlite_ListLogs\<rparr>"

section \<open>The contracts hold\<close>

lemma sqlite_insert_ok:
  assumes "db_inv d" and "sqlite_InsertLogs f ls d = (None, d')"
  shows "db_inv d' \<and> db_logs d' = insert_spec ls (db_logs d) \<and> db_cps d' = db_cps d"
proof (cases "ls = []")
  case True
  with assms show ?thesis by (simp add: sqlite_InsertLogs_def)
next
  case False
  with assms(2) obtain rows where ex: "exec_inserts sqlite_log_args f 2 ls (d_logs d) = Inr rows"
    and d': "d' = d\<lparr>d_logs := rows\<rparr>"
    by (auto simp: sqlite_InsertLogs_def split: option.splits sum.splits)
  from exec_inserts_view [OF ex] assms(1) d' show ?thesis by (simp add: db_view_defs)
qed

lemma sqlite_insert_err: "sqlite_InsertLogs f ls d = (Some e, d') \<Longrightarrow> d' = d"
  by (auto simp: sqlite_InsertLogs_def split: if_splits option.splits sum.splits)

lemma sqlite_last_ok: "sqlite_LastCheckpoint f d = Inr r \<Longrightarrow> last_of (db_cps d) r"
  using sql_last_end_last_of [of "d_cps d"]
  by (auto simp: sqlite_LastCheckpoint_def scanCheckpoint_def db_cps_def split: option.splits)

lemma sqlite_before_ok:
  "sqlite_CheckpointBefore f b d = Inr r \<Longrightarrow> last_of (filter (\<lambda>c. cp_EndBlock c < b) (db_cps d)) r"
  using sql_last_end_last_of [of "filter (\<lambda>r. w_end_block r < b) (d_cps d)"]
    filter_cp_rows [of "\<lambda>_ e. e < b" "d_cps d"]
  by (auto simp: sqlite_CheckpointBefore_def scanCheckpoint_def db_cps_def split: option.splits)

interpretation sqlite: log_store sqlite_store db_inv db_logs db_cps
proof unfold_locales
  fix f and s s' :: db and e and ls c b r
  note op = sqlite_store_def
  show "db_inv s \<Longrightarrow> st_InsertLogs sqlite_store f ls s = (None, s') \<Longrightarrow>
      db_inv s' \<and> db_logs s' = insert_spec ls (db_logs s) \<and> db_cps s' = db_cps s"
    by (simp add: op sqlite_insert_ok)
  show "db_inv s \<Longrightarrow> st_InsertLogs sqlite_store f ls s = (Some e, s') \<Longrightarrow> s' = s"
    using sqlite_insert_err by (simp add: op)
  show "db_inv s \<Longrightarrow> st_SaveRangeCheckpoint sqlite_store f c s = (None, s') \<Longrightarrow>
      db_inv s' \<and> db_logs s' = db_logs s
      \<and> (\<exists>c'. same_range c' c \<and> db_cps s' = db_cps s @ [c'])"
    by (auto simp: op sqlite_SaveRangeCheckpoint_def db_view_defs same_range_def cp_of_row_def
        split: option.splits)
  show "db_inv s \<Longrightarrow> st_SaveRangeCheckpoint sqlite_store f c s = (Some e, s') \<Longrightarrow> s' = s"
    by (auto simp: op sqlite_SaveRangeCheckpoint_def split: option.splits)
  show "db_inv s \<Longrightarrow> st_LastCheckpoint sqlite_store f s = Inr r \<Longrightarrow> last_of (db_cps s) r"
    using sqlite_last_ok by (simp add: op)
  show "db_inv s \<Longrightarrow> st_CheckpointBefore sqlite_store f b s = Inr r \<Longrightarrow>
      last_of (filter (\<lambda>c. cp_EndBlock c < b) (db_cps s)) r"
    using sqlite_before_ok by (simp add: op)
  show "db_inv s \<Longrightarrow> st_RollbackFrom sqlite_store f b s = (None, s') \<Longrightarrow>
      db_inv s' \<and> db_logs s' = rollback_spec b (db_logs s)
      \<and> db_cps s' = filter (\<lambda>c. cp_StartBlock c < b) (db_cps s)"
    using rollback_rows [of s b]
    by (auto simp: op sqlite_RollbackFrom_def db_view_defs Let_def split: option.splits)
  show "db_inv s \<Longrightarrow> st_RollbackFrom sqlite_store f b s = (Some e, s') \<Longrightarrow>
      db_inv s' \<and> db_cps s' = db_cps s
      \<and> (db_logs s' = db_logs s \<or> db_logs s' = rollback_spec b (db_logs s))"
    using rollback_rows [of s b]
    by (auto simp: op sqlite_RollbackFrom_def db_view_defs Let_def split: option.splits)
qed

interpretation sqlite_mem: mempool_store sqlite_store db_minv db_status db_replaced
proof unfold_locales
  fix f now and s s' :: db and e and h by_h st and tx and mi :: MinedInfo
  note op = sqlite_store_def
  show "db_minv s \<Longrightarrow> db_status s h = Some st \<Longrightarrow> known_status st"
    using view_status_known by (simp add: db_view_defs)
  show "db_minv s \<Longrightarrow> st_UpsertMempoolTx sqlite_store f tx s = (None, s') \<Longrightarrow>
      db_minv s' \<and> db_status s' = (db_status s)(mt_Hash tx \<mapsto> mt_Status tx)"
    using db_upsert [of "sqlite_mem_row tx" "mt_Hash tx" "mt_Status tx" s]
    by (auto simp: op sqlite_UpsertMempoolTx_def sqlite_mem_row_def split: option.splits if_splits)
  show "db_minv s \<Longrightarrow> st_UpsertMempoolTx sqlite_store f tx s = (None, s') \<Longrightarrow>
      db_status s h \<noteq> None \<Longrightarrow> db_replaced s' h = db_replaced s h"
    using db_upsert_replaced
    by (auto simp: op sqlite_UpsertMempoolTx_def split: option.splits if_splits)
  show "db_minv s \<Longrightarrow> st_UpsertMempoolTx sqlite_store f tx s = (Some e, s') \<Longrightarrow> s' = s"
    by (auto simp: op sqlite_UpsertMempoolTx_def split: option.splits if_splits)
  show "db_minv s \<Longrightarrow> st_MarkMempoolMined sqlite_store f now h mi s = (None, s') \<Longrightarrow>
      db_minv s' \<and> db_status s' = set_status h ''mined'' (db_status s)"
    by (auto simp: op sqlite_MarkMempoolMined_def db_update split: option.splits)
  show "db_minv s \<Longrightarrow> st_MarkMempoolMined sqlite_store f now h mi s = (Some e, s') \<Longrightarrow> s' = s"
    by (auto simp: op sqlite_MarkMempoolMined_def split: option.splits)
  show "db_minv s \<Longrightarrow> st_MarkMempoolReplaced sqlite_store f now h by_h s = (None, s') \<Longrightarrow>
      db_minv s' \<and> db_status s' = set_status h ''replaced'' (db_status s)
      \<and> (db_status s h \<noteq> None \<longrightarrow> db_replaced s' h = Some by_h)"
    by (auto simp: op sqlite_MarkMempoolReplaced_def db_update db_update_replaced split: option.splits)
  show "db_minv s \<Longrightarrow> st_MarkMempoolReplaced sqlite_store f now h by_h s = (Some e, s') \<Longrightarrow> s' = s"
    by (auto simp: op sqlite_MarkMempoolReplaced_def split: option.splits)
  show "db_minv s \<Longrightarrow> st_MarkMempoolDropped sqlite_store f now h s = (None, s') \<Longrightarrow>
      db_minv s' \<and> db_status s' = set_status h ''dropped'' (db_status s)"
    by (auto simp: op sqlite_MarkMempoolDropped_def db_update split: option.splits)
  show "db_minv s \<Longrightarrow> st_MarkMempoolDropped sqlite_store f now h s = (Some e, s') \<Longrightarrow> s' = s"
    by (auto simp: op sqlite_MarkMempoolDropped_def split: option.splits)
qed

end
