(* ===== verification/Demo.thy ===== *)
theory Demo
  imports Extract Store_SQLite
begin

text \<open>
  A small concrete chain, node and configuration, on which the theorems of the development are
  applied.  The go-ethereum parameters are simple injective encodings (a number is written in
  unary); the node has one \<open>Transfer\<close> log in each even block.
\<close>

definition demo_event :: abi_event where
  "demo_event = \<lparr>ev_Name = ''Transfer'', ev_ID = 7, ev_Inputs =
     [\<lparr>arg_Name = ''from'', arg_Type = ''address'', arg_Indexed = True\<rparr>,
      \<lparr>arg_Name = ''value'', arg_Type = ''uint256'', arg_Indexed = False\<rparr>]\<rparr>"

definition demo_abi :: ABI where
  "demo_abi = \<lparr>abi_Events = [''Transfer'' \<mapsto> demo_event], abi_Methods = []\<rparr>"

definition unary :: "nat \<Rightarrow> string" where
  "unary n = replicate n (CHR ''1'')"

definition demo_lib :: "string EthLib" where
  "demo_lib = \<lparr>HexToAddress = (\<lambda>s. of_nat (length s)), AddressHex = (\<lambda>a. unary (unat a)),
     IsHexAddress = (\<lambda>s. s \<noteq> []), HashHex = (\<lambda>h. unary (unat h)),
     EncodeUint64 = (\<lambda>n. unary (unat n)), DecodeUint64 = (\<lambda>s. Inr (of_nat (length s))),
     EncodeBytes = (\<lambda>b. ''0x''), EncodeBig = (\<lambda>i. unary (nat i)),
     UnmarshalUint64 = (\<lambda>j. Inr 0), UnmarshalBig = (\<lambda>j. Inr 0),
     UnmarshalLog = (\<lambda>j. Inl (ErrNew ''not a log'')),
     abi_JSON = (\<lambda>s. Inr demo_abi),
     MethodById = (\<lambda>a b. Inl (ErrNew ''no method'')),
     UnpackIntoMap = (\<lambda>m as d. Inr m), ParseTopicsIntoMap = (\<lambda>m as d. Inr m),
     MarshalArgs = (\<lambda>m. Inr ''{}''), MarshalInput = (\<lambda>s m. ''{}'')\<rparr>"

definition demo_contract :: ContractSpec where
  "demo_contract = \<lparr>cs_Name = ''Token'', cs_Address = ''111111111'', cs_ABIPath = ''erc20.json'',
     cs_Events = [''Transfer'']\<rparr>"

definition demo_registry :: Registry where
  "demo_registry = (case LoadRegistry demo_lib (\<lambda>p. Inr ''[]'') [demo_contract] of
     Inr r \<Rightarrow> r | Inl e \<Rightarrow> empty_registry)"

text \<open>The log of block \<open>n\<close>, and the logs of a range given by its filter.\<close>

definition demo_log :: "u64 \<Rightarrow> eth_log" where
  "demo_log n = \<lparr>l_Address = 9, l_Topics = [7], l_Data = [], l_BlockNumber = n,
     l_TxHash = ucast n, l_BlockHash = ucast n, l_Index = 0\<rparr>"

definition demo_logs :: "nat \<Rightarrow> nat \<Rightarrow> eth_log list" where
  "demo_logs a b = map (\<lambda>n. demo_log (of_nat n)) (filter even [a ..< Suc b])"

text \<open>A node that refuses ranges of more than \<open>cap\<close> blocks and never fails otherwise.\<close>

definition demo_rpc :: "nat \<Rightarrow> u64 \<Rightarrow> Rpc" where
  "demo_rpc cap head = \<lparr>rpc_GetBlockNumber = (\<lambda>t. Inr head),
     rpc_GetBlockByNumber = (\<lambda>t n. Inr \<lparr>bh_Number = n, bh_Hash = unary (unat n), bh_Timestamp = 0\<rparr>),
     rpc_GetLogs = (\<lambda>t f. let a = length (lf_FromBlock f); b = length (lf_ToBlock f) in
        if cap \<le> b - a then Inl ErrTooManyResults else Inr (demo_logs a b)),
     rpc_GetTransactionByHash = (\<lambda>t h. Inr None),
     rpc_GetTransactionReceipt = (\<lambda>t h. Inr None)\<rparr>"

definition demo_deps :: "nat \<Rightarrow> u64 \<Rightarrow> db Deps" where
  "demo_deps cap head = \<lparr>dp_RPC = demo_rpc cap head, dp_Store = sqlite_store,
     dp_Decoder = demo_registry, dp_ChainID = 1\<rparr>"

definition demo_env :: "string Env" where
  "demo_env = \<lparr>en_lib = demo_lib, en_faults = (\<lambda>t. no_faults), en_now = (\<lambda>t. 0),
     en_cancelled = (\<lambda>t. False)\<rparr>"

definition demo_world :: "db World" where
  "demo_world = \<lparr>wd_tick = 0, wd_store = empty_db, wd_metrics = zero_metrics\<rparr>"

text \<open>The same on a database whose schema has been created by the statements \<open>q\<close>.\<close>

definition schema_world :: "string list \<Rightarrow> db World" where
  "schema_world q = \<lparr>wd_tick = 0, wd_store = empty_db\<lparr>d_schema := q\<rparr>,
     wd_metrics = zero_metrics\<rparr>"

text \<open>The simplifier evaluates runs of the program on these with the rules below.\<close>

lemma length_unary [simp]: "length (unary n) = n"
  by (simp add: unary_def)

lemma unary_inject [simp]: "unary m = unary n \<longleftrightarrow> m = n"
  by (metis length_unary)

lemma unary_not_stale [simp]: "unary n \<noteq> ''stale''" "''stale'' \<noteq> unary n"
proof -
  have "CHR ''s'' \<in> set ''stale''" "CHR ''s'' \<notin> set (unary n)" by (simp_all add: unary_def)
  then show "unary n \<noteq> ''stale''" "''stale'' \<noteq> unary n" by metis+
qed

lemma demo_lib_simps [simp]:
  "HexToAddress demo_lib s = of_nat (length s)" "AddressHex demo_lib a = unary (unat a)"
  "HashHex demo_lib h = unary (unat h)" "EncodeUint64 demo_lib n = unary (unat n)"
  "EncodeBytes demo_lib bs = ''0x''" "abi_JSON demo_lib s = Inr demo_abi"
  "UnpackIntoMap demo_lib m as d = Inr m" "ParseTopicsIntoMap demo_lib m as ts = Inr m"
  "MarshalArgs demo_lib m = Inr ''{}''"
  by (simp_all add: demo_lib_def)

lemma demo_load: "LoadRegistry demo_lib (\<lambda>p. Inr ''[]'') [demo_contract] = Inr demo_registry"
  by (simp add: demo_registry_def LoadRegistry_def demo_contract_def demo_abi_def Let_def)

lemma demo_find: "find_spec demo_lib demo_registry 7 9 =
    Some \<lparr>es_ContractAddress = 9, es_EventName = ''Transfer'', es_Event = demo_event\<rparr>"
  by (simp add: demo_registry_def LoadRegistry_def demo_contract_def demo_abi_def Let_def find_spec_def
      demo_event_def)

lemma demo_decode: "DecodeLog demo_lib demo_registry (demo_log n) =
    Inr \<lparr>dl_EventName = ''Transfer'', dl_Args = Map.empty\<rparr>"
  by (simp add: DecodeLog_def demo_log_def demo_find demo_event_def)

lemma demo_log_simps [simp]:
  "l_BlockNumber (demo_log n) = n" "l_TxHash (demo_log n) = ucast n" "l_Index (demo_log n) = 0"
  by (simp_all add: demo_log_def)

lemma demo_rpc_simps [simp]:
  "rpc_GetBlockNumber (demo_rpc cap head) t = Inr head"
  "rpc_GetBlockByNumber (demo_rpc cap head) t n =
     Inr \<lparr>bh_Number = n, bh_Hash = unary (unat n), bh_Timestamp = 0\<rparr>"
  "rpc_GetLogs (demo_rpc cap head) t f =
     (let a = length (lf_FromBlock f); b = length (lf_ToBlock f)
      in if cap \<le> b - a then Inl ErrTooManyResults else Inr (demo_logs a b))"
  by (simp_all add: demo_rpc_def)

lemma demo_deps_simps [simp]:
  "dp_RPC (demo_deps cap head) = demo_rpc cap head" "dp_Store (demo_deps cap head) = sqlite_store"
  "dp_Decoder (demo_deps cap head) = demo_registry" "dp_ChainID (demo_deps cap head) = 1"
  by (simp_all add: demo_deps_def)

lemma demo_env_simps [simp]:
  "en_lib demo_env = demo_lib" "en_faults demo_env t = no_faults" "en_now demo_env t = 0"
  "en_cancelled demo_env t = False"
  by (simp_all add: demo_env_def)

lemmas demo_run = demo_world_def empty_db_def zero_metrics_def no_faults_def
  range_start_def NewChunker_def NewBlockCache_def range_iter_def store_chunk_def chunk_filter_def
  chunk_size_def chunk_end_def buildFilter_def Current_def OnError_def OnSuccess_def Let_def
  demo_logs_def demo_decode ArgsJSON_def cache_Get_def make_record_def
  sqlite_store_def sqlite_InsertLogs_def sqlite_log_args_def bind_u64s_def fits_int64_def
  sqlite_SaveRangeCheckpoint_def db_cps_def cp_of_row_def
  sql_insert_log_def row_of_log_def row_key_def Unix_def

text \<open>The pass that indexes block 6, and the range that consists of it.\<close>

definition demo_after :: "db RangeState \<times> flow" where
  "demo_after = range_iter demo_env (demo_deps 2 20) 6 (range_start (NewChunker 1 4 4) 6 demo_world)"

lemma demo_iter: "snd demo_after = Next" "rs_current (fst demo_after) = 7"
  by (simp_all add: demo_after_def demo_run)

lemma demo_range:
  "processRangeAdaptive demo_env (demo_deps 2 20) (NewChunker 1 4 4) 6 6 demo_world
     = Some (fst demo_after, None)"
proof -
  have "rs_current (range_start (NewChunker 1 4 4) 6 demo_world) = 6"
    by (simp add: range_start_def)
  moreover have "range_iter demo_env (demo_deps 2 20) 6 (range_start (NewChunker 1 4 4) 6 demo_world)
      = (fst demo_after, Next)"
    using demo_iter(1) by (simp add: demo_after_def prod_eq_iff)
  moreover have "range_loop demo_env (demo_deps 2 20) 6 (fst demo_after) = Some (fst demo_after, None)"
    by (subst range_loop.simps) (simp add: demo_iter)
  ultimately show ?thesis
    unfolding processRangeAdaptive_def by (subst range_loop.simps) simp
qed

lemma demo_saved:
  "map (\<lambda>c. (cp_StartBlock c, cp_EndBlock c)) (db_cps (wd_store (rs_world (fst demo_after)))) = [(6, 6)]"
  by (simp add: demo_after_def demo_run)

end
