(* ===== verification/Decode_Correct.thy ===== *)
theory Decode_Correct
  imports Demo
begin

text \<open>
  What a loaded registry guarantees: each configured event is found under its own contract,
  and a log that matches the filter of the requests is decoded with an event of its topic.
\<close>

section \<open>Keys\<close>

text \<open>
  \<open>Hash.Hex\<close> and \<open>Address.Hex\<close> of go-ethereum write hexadecimal digits, so up to case they
  determine the value and contain no separator.
\<close>

definition hex_lib :: "'v EthLib \<Rightarrow> bool" where
  "hex_lib lib \<longleftrightarrow> (\<forall>h. CHR ''|'' \<notin> set (to_lower (HashHex lib h)))
     \<and> (\<forall>h h'. to_lower (HashHex lib h) = to_lower (HashHex lib h') \<longrightarrow> h = h')
     \<and> (\<forall>a a'. to_lower (AddressHex lib a) = to_lower (AddressHex lib a') \<longrightarrow> a = a')"

lemma sep_lower: "to_lower (CHR ''|'' # s) = CHR ''|'' # to_lower s"
  by (simp add: to_lower_def char_lower_def)

lemma key_inject:
  assumes "hex_lib lib"
  shows "topicAddressKey lib t a = topicAddressKey lib t' a' \<longleftrightarrow> t = t' \<and> a = a'"
proof
  assume "topicAddressKey lib t a = topicAddressKey lib t' a'"
  then have "to_lower (HashHex lib t) @ CHR ''|'' # to_lower (AddressHex lib a)
      = to_lower (HashHex lib t') @ CHR ''|'' # to_lower (AddressHex lib a')"
    by (simp add: topicAddressKey_def sep_lower)
  with assms have "to_lower (HashHex lib t) = to_lower (HashHex lib t')
      \<and> to_lower (AddressHex lib a) = to_lower (AddressHex lib a')"
    by (subst (asm) split_at_sep) (auto simp: hex_lib_def)
  with assms show "t = t' \<and> a = a'" by (simp add: hex_lib_def)
qed simp

section \<open>What loading adds\<close>

definition knows :: "'v EthLib \<Rightarrow> Registry \<Rightarrow> hash \<Rightarrow> address \<Rightarrow> bool" where
  "knows lib r t a \<longleftrightarrow> byTopicAddress r (topicAddressKey lib t a) \<noteq> None"

lemma load_events_knows:
  "load_events lib p path addr es reg = Inr reg' \<Longrightarrow>
   (\<forall>t a. knows lib reg t a \<longrightarrow> knows lib reg' t a) \<and> set (topic0s reg) \<subseteq> set (topic0s reg')
   \<and> (\<forall>e \<in> set es. \<exists>evt. abi_Events p e = Some evt \<and> knows lib reg' (ev_ID evt) addr
        \<and> ev_ID evt \<in> set (topic0s reg'))"
proof (induction es arbitrary: reg)
  case Nil
  then show ?case by simp
next
  case (Cons e es)
  then obtain evt where evt: "abi_Events p e = Some evt" by (auto split: option.splits)
  let ?spec = "\<lparr>es_ContractAddress = addr, es_EventName = ev_Name evt, es_Event = evt\<rparr>"
  let ?reg = "reg\<lparr>byTopicAddress := (byTopicAddress reg)(topicAddressKey lib (ev_ID evt) addr \<mapsto> ?spec),
     byTopic := (byTopic reg)(ev_ID evt \<mapsto> ?spec), topic0s := topic0s reg @ [ev_ID evt]\<rparr>"
  from Cons.prems evt have "load_events lib p path addr es ?reg = Inr reg'" by (simp add: Let_def)
  note IH = Cons.IH [OF this]
  have "\<And>t a. knows lib reg t a \<Longrightarrow> knows lib ?reg t a" and "knows lib ?reg (ev_ID evt) addr"
    by (simp_all add: knows_def)
  with IH evt show ?case by auto
qed

lemma load_contracts_knows:
  "load_contracts lib rf cs reg = Inr reg' \<Longrightarrow>
   (\<forall>t a. knows lib reg t a \<longrightarrow> knows lib reg' t a) \<and> set (topic0s reg) \<subseteq> set (topic0s reg')
   \<and> (\<forall>c \<in> set cs. \<forall>e \<in> set (cs_Events c). \<exists>b p evt. rf (cs_ABIPath c) = Inr b \<and> abi_JSON lib b = Inr p
        \<and> abi_Events p e = Some evt \<and> knows lib reg' (ev_ID evt) (HexToAddress lib (cs_Address c))
        \<and> ev_ID evt \<in> set (topic0s reg'))"
proof (induction cs arbitrary: reg)
  case Nil
  then show ?case by simp
next
  case (Cons c cs)
  let ?addr = "HexToAddress lib (cs_Address c)"
  from Cons.prems obtain b p reg1 where b: "rf (cs_ABIPath c) = Inr b" and p: "abi_JSON lib b = Inr p"
    and ev: "load_events lib p (cs_ABIPath c) ?addr (cs_Events c)
        (reg\<lparr>abiByAddress := (abiByAddress reg)(to_lower (AddressHex lib ?addr) \<mapsto> p)\<rparr>) = Inr reg1"
    and rest: "load_contracts lib rf cs (reg1\<lparr>addresses := addresses reg1 @ [?addr]\<rparr>) = Inr reg'"
    by (auto simp: Let_def and_then_Inr)
  note E = load_events_knows [OF ev] and R = Cons.IH [OF rest]
  have same: "knows lib (r\<lparr>addresses := as\<rparr>) t a = knows lib r t a"
    "knows lib (r\<lparr>abiByAddress := m\<rparr>) t a = knows lib r t a" for r as m t a
    by (simp_all add: knows_def)
  from E R have "\<forall>e \<in> set (cs_Events c). \<exists>evt. abi_Events p e = Some evt \<and> knows lib reg' (ev_ID evt) ?addr
      \<and> ev_ID evt \<in> set (topic0s reg')"
    by (fastforce simp: same)
  with E R b p show ?case by (auto simp: same)
qed

section \<open>The properties\<close>


lemma to_lower_unary: "to_lower (unary n) = unary n"
  by (simp add: to_lower_def unary_def char_lower_def)

lemma demo_hex_lib: "hex_lib demo_lib"
  by (simp add: hex_lib_def to_lower_unary) (auto simp: unary_def word_unat_eq_iff)


text \<open>
  The filter lets through only what can be decoded.  A log whose first topic is one the
  requests ask for is decoded with an event of exactly that topic, whatever contract emitted
  it: \<open>DecodeLog\<close> does not fail on it for an unknown topic.
\<close>

theorem filter_decodable:
  assumes "hex_lib lib" and "LoadRegistry lib readFile cs = Inr r"
    and "l_Topics l = t # ts" and "HashHex lib t \<in> set (FilterTopics lib r)"
  shows "\<exists>spec. find_spec lib r t (l_Address l) = Some spec \<and> ev_ID (es_Event spec) = t
    \<and> DecodeLog lib r l \<noteq> Inl (ErrNew (''unknown event topic '' @ HashHex lib t))"
proof -
  from load_contracts_ok [OF assms(2) [unfolded LoadRegistry_def] registry_ok_empty]
  have ok: "registry_ok lib r" by simp
  from assms(4) obtain t' where "t' \<in> set (topic0s r)" "HashHex lib t = HashHex lib t'"
    by (auto simp: FilterTopics_def TopicsToHex_def)
  with assms(1) have "t \<in> set (topic0s r)" unfolding hex_lib_def by metis
  with find_spec_topic [OF ok] obtain spec where s: "find_spec lib r t (l_Address l) = Some spec" by blast
  have "ev_ID (es_Event spec) = t"
  proof (cases "byTopicAddress r (topicAddressKey lib t (l_Address l))")
    case None
    with s ok show ?thesis by (auto simp: find_spec_def registry_ok_def)
  next
    case (Some spec')
    with s have "spec' = spec" by (simp add: find_spec_def)
    with Some ok have "topicAddressKey lib t (l_Address l)
        = topicAddressKey lib (ev_ID (es_Event spec)) (es_ContractAddress spec)"
      unfolding registry_ok_def by blast
    with key_inject [OF assms(1)] show ?thesis by auto
  qed
  moreover have "DecodeLog lib r l \<noteq> Inl (ErrNew (''unknown event topic '' @ HashHex lib t))"
    using assms(3) s by (auto simp: DecodeLog_def splitArgs_filter and_then_def wrap_err_def split: sum.splits)
  ultimately show ?thesis using s by blast
qed

theorem filter_decodable_witness:
  "\<exists>spec. find_spec demo_lib demo_registry 7 9 = Some spec \<and> ev_ID (es_Event spec) = 7"
proof -
  have "unary (unat (7 :: hash)) \<in> set (FilterTopics demo_lib demo_registry)"
    by (simp add: demo_registry_def LoadRegistry_def demo_contract_def demo_abi_def Let_def
        FilterTopics_def TopicsToHex_def empty_registry_def demo_event_def)
  with filter_decodable [OF demo_hex_lib demo_load, of "demo_log 6" 7 "[]"] show ?thesis
    by (auto simp: demo_log_def)
qed

section \<open>Inputs\<close>

lemma hex_Decode_length: "hex_DecodeString s = Inr bs \<Longrightarrow> length s = 2 * length bs"
  by (induction s arbitrary: bs rule: hex_DecodeString.induct)
     (auto simp: and_then_Inr split: option.splits)

definition hex_digit :: "nat \<Rightarrow> char" where
  "hex_digit n = char_of (if n < 10 then 48 + n else 87 + n)"

definition hex_encode :: "byte list \<Rightarrow> string" where
  "hex_encode bs = concat (map (\<lambda>b. [hex_digit (unat b div 16), hex_digit (unat b mod 16)]) bs)"

lemma hex_value_digit: "n < 16 \<Longrightarrow> hex_value (hex_digit n) = Some n"
  by (auto simp: hex_value_def hex_digit_def Let_def take_bit_eq_mod)

text \<open>
  Inputs.  \<open>hex.DecodeString\<close> inverts the hexadecimal encoding, and an input of at least
  eight digits that it accepts has at least the four bytes of a method selector, so the
  slices \<open>data[:4]\<close> and \<open>data[4:]\<close> of \<open>DecodeInput\<close> never panic.
\<close>

theorem input_decoding:
  "hex_DecodeString (hex_encode bs) = Inr bs
   \<and> (\<forall>data. hex_DecodeString s = Inr data \<and> \<not> length s < 8 \<longrightarrow> 4 \<le> length data)"
proof
  show "hex_DecodeString (hex_encode bs) = Inr bs"
  proof (induction bs)
    case Nil
    then show ?case by (simp add: hex_encode_def)
  next
    case (Cons b bs)
    have "unat b < 256" using unsigned_less [of b] by simp
    then have "unat b div 16 < 16" by simp
    moreover have "of_nat (16 * (unat b div 16) + unat b mod 16) = b" by simp
    ultimately show ?case
      using Cons by (simp add: hex_encode_def hex_value_digit)
  qed
  show "\<forall>data. hex_DecodeString s = Inr data \<and> \<not> length s < 8 \<longrightarrow> 4 \<le> length data"
    using hex_Decode_length by fastforce
qed

theorem input_decoding_witness:
  "hex_DecodeString (hex_encode [169, 5]) = Inr [169, 5]"
  using input_decoding [of "[169, 5]" "''''"] by simp

end
