(* ===== verification/Rpc_Correct.thy ===== *)
theory Rpc_Correct
  imports Rpc
begin

text \<open>
  What \<open>Call\<close> does over its attempts: how often it posts, when it retries, that it gives its
  slot of the semaphore back before it sleeps, and how long it sleeps.
\<close>

section \<open>One attempt\<close>

text \<open>The slot is taken and given back within the attempt, and posting happens while it is held.\<close>

fun slots_ok :: "nat \<Rightarrow> rpc_event list \<Rightarrow> bool" where
  "slots_ok h [] = (h = 0)"
| "slots_ok h (Acquire # evs) = (h = 0 \<and> slots_ok 1 evs)"
| "slots_ok h (Post # evs) = (h = 1 \<and> slots_ok h evs)"
| "slots_ok h (Release # evs) = (h = 1 \<and> slots_ok 0 evs)"
| "slots_ok h (Backoff n # evs) = (h = 0 \<and> slots_ok h evs)"

definition posts :: "rpc_event list \<Rightarrow> nat" where
  "posts evs = length (filter (\<lambda>e. e = Post) evs)"

definition sleeps :: "rpc_event list \<Rightarrow> nat list" where
  "sleeps evs = List.map_filter (\<lambda>e. case e of Backoff n \<Rightarrow> Some n | _ \<Rightarrow> None) evs"

lemma posts_simps [simp]:
  "posts [] = 0" "posts (Post # evs) = Suc (posts evs)" "posts (Acquire # evs) = posts evs"
  "posts (Release # evs) = posts evs" "posts (Backoff n # evs) = posts evs"
  "posts (evs @ evs') = posts evs + posts evs'"
  by (simp_all add: posts_def)

lemma sleeps_simps [simp]:
  "sleeps [] = []" "sleeps (Backoff n # evs) = n # sleeps evs" "sleeps (Post # evs) = sleeps evs"
  "sleeps (Acquire # evs) = sleeps evs" "sleeps (Release # evs) = sleeps evs"
  by (simp_all add: sleeps_def map_filter_simps)

text \<open>The three traces of an attempt.\<close>

lemma try_once_trace:
  assumes "try_once again dec a = (v, evs)"
  obtains "evs = []" "v \<noteq> Retry" | "evs = [Acquire, Release]" "v \<noteq> Retry" | "evs = [Acquire, Post, Release]"
  using assms by (auto simp: try_once_def split: option.splits sum.splits if_splits)

lemma try_once_last: "try_once False dec a \<noteq> (Retry, evs)"
  by (auto simp: try_once_def on_response_def split: option.splits sum.splits)

text \<open>The loop, unfolded once.\<close>

lemma call_loop_Stop:
  "attempt \<le> retries \<Longrightarrow> try_once (attempt < retries) dec (net attempt) = (Stop r, evs) \<Longrightarrow>
   call_loop retries net dec attempt = (r, evs)"
  by (subst call_loop.simps) simp

lemma call_loop_Retry:
  "attempt \<le> retries \<Longrightarrow> try_once (attempt < retries) dec (net attempt) = (Retry, evs) \<Longrightarrow>
   call_loop retries net dec (Suc attempt) = (r, evs') \<Longrightarrow>
   call_loop retries net dec attempt = (r, evs @ Backoff attempt # evs')"
  by (subst call_loop.simps) simp

section \<open>The loop\<close>

text \<open>A property of the result of the loop, from the last attempt back to the first.\<close>

lemma call_loop_rule [consumes 2, case_names stop retry]:
  assumes "call_loop retries net dec attempt = (r, evs)" and "attempt \<le> retries"
    and stop: "\<And>k r evs. k \<le> retries \<Longrightarrow> try_once (k < retries) dec (net k) = (Stop r, evs) \<Longrightarrow> P k r evs"
    and retry: "\<And>k r evs. k < retries \<Longrightarrow> P (Suc k) r evs \<Longrightarrow> P k r ([Acquire, Post, Release] @ Backoff k # evs)"
  shows "P attempt r evs"
  using assms(1,2)
proof (induction "retries - attempt" arbitrary: attempt r evs)
  case 0
  then have l: "attempt = retries" by simp
  obtain v e where t: "try_once (attempt < retries) dec (net attempt) = (v, e)" by force
  with l try_once_last [of dec "net attempt"] obtain r' where "v = Stop r'" by (cases v) auto
  with call_loop_Stop [of attempt retries dec net r' e] t l "0.prems"(1) stop [of attempt] show ?case by auto
next
  case (Suc n)
  obtain v e where t: "try_once (attempt < retries) dec (net attempt) = (v, e)" by force
  show ?case
  proof (cases v)
    case (Stop r')
    with call_loop_Stop [of attempt retries dec net r' e] t Suc.prems stop [of attempt] show ?thesis by auto
  next
    case Retry
    obtain r1 e1 where l: "call_loop retries net dec (Suc attempt) = (r1, e1)" by force
    with call_loop_Retry [of attempt retries dec net e r1 e1] t Retry Suc.prems
    have r: "r = r1" "evs = e @ Backoff attempt # e1" by auto
    have "e = [Acquire, Post, Release]" using Retry by (cases rule: try_once_trace [OF t]) auto
    with r Suc(1) [of "Suc attempt" r1 e1] Suc(2) l retry [of attempt r1 e1] show ?thesis by simp
  qed
qed

lemma call_loop_summary:
  assumes "call_loop retries net dec attempt = (r, evs)" and "attempt \<le> retries"
  shows "posts evs \<le> Suc (retries - attempt) \<and> slots_ok 0 evs
    \<and> sleeps evs = [attempt ..< attempt + length (sleeps evs)] \<and> length (sleeps evs) \<le> retries - attempt
    \<and> (\<exists>k evs'. attempt \<le> k \<and> k \<le> retries \<and> try_once (k < retries) dec (net k) = (Stop r, evs'))"
  using assms
proof (induction rule: call_loop_rule)
  case (stop k r evs)
  then show ?case by (cases rule: try_once_trace [OF stop(2)]) (auto intro!: exI [of _ k])
next
  case (retry k r evs)
  then have "[k ..< k + Suc (length (sleeps evs))] = k # [Suc k ..< Suc k + length (sleeps evs)]"
    by (subst upt_conv_Cons) simp_all
  moreover from retry obtain m evs' where "Suc k \<le> m" "m \<le> retries" "try_once (m < retries) dec (net m) = (Stop r, evs')"
    by blast
  then have "\<exists>m evs'. k \<le> m \<and> m \<le> retries \<and> try_once (m < retries) dec (net m) = (Stop r, evs')"
    using Suc_leD by blast
  moreover from retry have "Suc (length (sleeps evs)) \<le> retries - k" by linarith
  ultimately show ?case using retry by (simp add: Suc_diff_Suc)
qed

section \<open>The properties\<close>


text \<open>A network on which every post fails, and one that recovers after two attempts.\<close>

definition down :: attempt where
  "down = \<lparr>at_wait = None, at_build = None, at_do = Inl (ErrNew ''connection refused'')\<rparr>"

definition answers :: "json \<Rightarrow> attempt" where
  "answers j = \<lparr>at_wait = None, at_build = None, at_do = Inr \<lparr>hr_StatusCode = 200, hr_Read = None,
     hr_Body = Inr \<lparr>rr_Result = Some j, rr_Error = None\<rparr>\<rparr>\<rparr>"


text \<open>A failure that is worth another attempt.\<close>

definition transient :: "attempt \<Rightarrow> bool" where
  "transient a \<longleftrightarrow> at_wait a = None \<and> at_build a = None \<and> (case at_do a of
     Inl e \<Rightarrow> \<not> errors_is e ErrCanceled \<and> \<not> errors_is e ErrDeadlineExceeded
   | Inr resp \<Rightarrow> hr_Read resp = None \<and>
       (hr_StatusCode resp \<ge> 500 \<or> hr_StatusCode resp = 429
        \<or> (\<exists>rr er. hr_Body resp = Inr rr \<and> rr_Error rr = Some er \<and> isRetryableRPCError (Some er)
             \<and> \<not> isTooManyResults (re_Message er))))"

lemma transient_retries: "transient a \<longleftrightarrow> fst (try_once True dec a) = Retry"
  by (auto simp: transient_def try_once_def on_response_def shouldRetry_def
      split: option.splits sum.splits)

lemma call_loop_skips:
  assumes "\<And>i. i < k \<Longrightarrow> transient (net (attempt + i))" and "attempt + k \<le> retries"
  shows "fst (call_loop retries net dec attempt) = fst (call_loop retries net dec (attempt + k))"
  using assms
proof (induction k arbitrary: attempt)
  case 0
  then show ?case by simp
next
  case (Suc k)
  from Suc.prems(1) [of 0] have "fst (try_once True dec (net attempt)) = Retry"
    by (simp add: transient_retries [of _ dec])
  then obtain evs where t: "try_once (attempt < retries) dec (net attempt) = (Retry, evs)"
    using Suc.prems(2) by (cases "try_once True dec (net attempt)") simp
  obtain r evs' where l: "call_loop retries net dec (Suc attempt) = (r, evs')" by (metis surj_pair)
  from call_loop_Retry [OF _ t l] Suc.prems(2) have "fst (call_loop retries net dec attempt) = r" by simp
  moreover have "fst (call_loop retries net dec (Suc attempt)) = fst (call_loop retries net dec (Suc attempt + k))"
    using Suc.prems(1) [of "Suc i" for i] Suc.prems(2) by (intro Suc.IH) simp_all
  ultimately show ?case by (simp add: l)
qed

text \<open>
  Transient failures are survived.  If at most \<open>retries\<close> attempts in a row fail in a
  transient way (a network error other than cancellation, status 429 or 5xx, a retryable
  JSON-RPC error) and the next one does not, the call returns what that one gives.
\<close>

theorem call_recovers:
  assumes "\<And>i. i < k \<Longrightarrow> transient (net i)" and "k \<le> cl_retries c"
    and "fst (try_once (k < cl_retries c) dec (net k)) = Stop r"
  shows "fst (Call c None net dec) = r"
proof -
  obtain evs where "try_once (k < cl_retries c) dec (net k) = (Stop r, evs)"
    using assms(3) by (cases "try_once (k < cl_retries c) dec (net k)") simp
  from call_loop_Stop [of k "cl_retries c" dec net r evs] assms(2) this have "fst (call_loop (cl_retries c) net dec k) = r" by simp
  with call_loop_skips [of k net 0 "cl_retries c" dec] assms(1,2) show ?thesis by (simp add: Call_def)
qed

theorem call_recovers_witness:
  "fst (Call (NewClient ''u'' 0 0) None (\<lambda>i. if i < 2 then down else answers (JStr ''0x1'')) unmarshal_string)
     = Inr ''0x1''"
proof (rule call_recovers [where k = 2])
  show "transient (if i < 2 then down else answers (JStr ''0x1''))" if "i < 2" for i :: nat
    using that by (simp add: transient_def down_def)
qed (simp_all add: NewClient_def defaultRetries_def try_once_def answers_def on_response_def
    decode_result_def unmarshal_string_def)

text \<open>
  "Too many results" reaches the caller at once.  When the node answers a request with an
  error message that means too many results, \<open>Call\<close> returns \<open>ErrTooManyResults\<close> after that
  one request, without a retry or a sleep, even if its code is one that is retried.
\<close>

theorem too_many_at_once:
  assumes "at_wait (net 0) = None" and "at_build (net 0) = None"
    and "at_do (net 0) = Inr resp" and "hr_Read resp = None"
    and "hr_StatusCode resp < 500" and "hr_StatusCode resp \<noteq> 429"
    and "hr_Body resp = Inr rr" and "rr_Error rr = Some er" and "isTooManyResults (re_Message er)"
  shows "Call c None net dec = (Inl ErrTooManyResults, [Acquire, Post, Release])"
proof -
  have "try_once (0 < cl_retries c) dec (net 0) = (Stop (Inl ErrTooManyResults), [Acquire, Post, Release])"
    using assms by (simp add: try_once_def on_response_def)
  from call_loop_Stop [of 0 "cl_retries c" dec net, OF _ this] show ?thesis by (simp add: Call_def)
qed

definition refusal :: http_response where
  "refusal = \<lparr>hr_StatusCode = 200, hr_Read = None, hr_Body = Inr \<lparr>rr_Result = None,
     rr_Error = Some \<lparr>re_Code = -32005, re_Message = ''query returned more than 10000 results''\<rparr>\<rparr>\<rparr>"

theorem too_many_at_once_witness:
  "Call (NewClient ''u'' 0 0) None (\<lambda>i. \<lparr>at_wait = None, at_build = None, at_do = Inr refusal\<rparr>) unmarshal_string
    = (Inl ErrTooManyResults, [Acquire, Post, Release])"
  by (rule too_many_at_once [where resp = refusal and
      rr = "\<lparr>rr_Result = None, rr_Error = Some \<lparr>re_Code = -32005, re_Message = ''query returned more than 10000 results''\<rparr>\<rparr>" and er = "\<lparr>re_Code = -32005, re_Message = ''query returned more than 10000 results''\<rparr>"])
    (simp_all add: refusal_def isTooManyResults_def to_lower_def char_lower_def Let_def)

text \<open>
  Backoff.  The wait before attempt \<open>n + 1\<close> is between nine and eleven tenths of
  \<open>200ms * 2 ^ n\<close>, capped at five seconds; so it is never below 180 ms nor above 5.5 s, and
  after five failures the waits are at the cap.
\<close>

theorem backoff_bounds:
  assumes "0 \<le> r" and "r < 1"
  shows "9 * backoff_base (NewClient u k l) n \<le> 10 * sleepBackoff (NewClient u k l) r n + 9
    \<and> 10 * sleepBackoff (NewClient u k l) r n \<le> 11 * backoff_base (NewClient u k l) n
    \<and> backoff_base (NewClient u k l) n = min 5000000000 (200000000 * 2 ^ n)"
proof -
  let ?c = "NewClient u k l"
  let ?b = "backoff_base ?c n" and ?j = "r * (1 / 5) + 9 / 10"
  have b: "?b = min 5000000000 (200000000 * 2 ^ n)"
    by (simp add: backoff_base_def NewClient_def defaultBackoff_def maxBackoff_def Let_def min_def)
  then have pos: "0 \<le> ?b" by simp
  have j: "9 / 10 \<le> ?j" "?j \<le> 11 / 10" using assms by simp_all
  have lo: "of_int ?b * (9 / 10) \<le> of_int ?b * ?j" and hi: "of_int ?b * ?j \<le> of_int ?b * (11 / 10)"
    using j pos by (intro mult_left_mono; simp)+
  define x where "x = of_int ?b * ?j"
  define w where "w = sleepBackoff ?c r n"
  have w: "w = \<lfloor>x\<rfloor>" by (simp add: w_def x_def sleepBackoff_def Let_def)
  have f: "of_int w \<le> x" "x < of_int w + 1" unfolding w by linarith+
  have "9 * of_int ?b < 10 * of_int w + (10 :: rat)" "10 * of_int w \<le> 11 * (of_int ?b :: rat)"
    using f lo hi unfolding x_def [symmetric] by linarith+
  then have "(of_int (9 * ?b) :: rat) < of_int (10 * w + 10)" "(of_int (10 * w) :: rat) \<le> of_int (11 * ?b)"
    by simp_all
  then have "9 * ?b < 10 * w + 10" and "10 * w \<le> 11 * ?b"
    by (simp_all only: of_int_less_iff of_int_le_iff)
  then show ?thesis using b by (simp add: w_def)
qed

theorem backoff_bounds_witness:
  "10 * sleepBackoff (NewClient ''u'' 4 0) (1 / 2) 7 \<le> 55000000000"
  using backoff_bounds [of "1 / 2" "''u''" 4 0 7] by simp

end
