(* ===== verification/Config.thy ===== *)
theory Config
  imports Complex_Main Chunker
begin

text \<open>
  \<open>internal/config/config.go\<close>: the configuration, and \<open>Validate\<close>, which resolves the network,
  fills in defaults and clamps the chunk sizes.  The YAML parser is a parameter of \<open>Load\<close>.
\<close>

record ChainConfig =
  cc_RPCURL :: string
  cc_ChainID :: u64

record IndexerConfig =
  ix_StartBlock :: u64
  ix_Confirmations :: u64
  ix_ChunkSize :: u64
  ix_MinChunkSize :: u64
  ix_MaxChunkSize :: u64
  ix_Concurrency :: int
  ix_RateLimitPerSecond :: rat
  ix_PollIntervalSeconds :: int
  ix_MetricsIntervalSeconds :: int

record DatabaseConfig =
  dc_Driver :: string
  dc_DSN :: string

record ContractConfig =
  ct_Name :: string
  ct_Address :: string
  ct_ABIPath :: string
  ct_Events :: "string list"

record MempoolConfig =
  mc_WSURL :: string
  mc_HTTPURL :: string
  mc_PendingWorkers :: int
  mc_ReceiptWorkers :: int
  mc_DroppedTTL :: int
  mc_DecodeInput :: bool
  mc_TrackLifecycle :: bool
  mc_MaxInflightHashes :: int

record UIConfig =
  ui_ListenAddr :: string
  ui_DefaultFeed :: string
  ui_PollIntervalSeconds :: int
  ui_DefaultFrom :: string

text \<open>The map \<open>networks\<close> of the file is the list of its entries.\<close>

record Config =
  cf_Network :: string
  cf_Networks :: "(string \<times> ChainConfig) list"
  cf_Chain :: ChainConfig
  cf_Indexer :: IndexerConfig
  cf_Database :: DatabaseConfig
  cf_Mempool :: MempoolConfig
  cf_UI :: UIConfig
  cf_Contracts :: "ContractConfig list"

definition resolveNetwork :: "Config \<Rightarrow> Config result" where
  "resolveNetwork c =
     and_then (if cf_Network c \<noteq> '''' then
         (if cf_Networks c = [] then Inl (ErrNew ''networks map is required when network is set'')
          else case map_of (cf_Networks c) (cf_Network c) of
            None \<Rightarrow> Inl (ErrNew (''network '' @ cf_Network c @ '' not found in networks''))
          | Some chain \<Rightarrow> Inr (c\<lparr>cf_Chain := chain\<rparr>))
       else Inr c)
     (\<lambda>c. if cc_RPCURL (cf_Chain c) = '''' then Inl (ErrNew ''chain.rpc_url is required'')
          else if cc_ChainID (cf_Chain c) = 0 then Inl (ErrNew ''chain.chain_id is required'')
          else Inr c)"

text \<open>The part of \<open>Validate\<close> on the indexer: defaults, then clamps, in the order of the code.\<close>

definition indexer_defaults :: "IndexerConfig \<Rightarrow> IndexerConfig" where
  "indexer_defaults x =
     (let x = (if ix_MinChunkSize x = 0 then x\<lparr>ix_MinChunkSize := 10\<rparr> else x);
          x = (if ix_MaxChunkSize x = 0 then x\<lparr>ix_MaxChunkSize := ix_ChunkSize x\<rparr> else x);
          x = (if ix_MaxChunkSize x < ix_MinChunkSize x
               then x\<lparr>ix_MaxChunkSize := ix_MinChunkSize x\<rparr> else x);
          x = (if ix_ChunkSize x < ix_MinChunkSize x
               then x\<lparr>ix_ChunkSize := ix_MinChunkSize x\<rparr> else x);
          x = (if ix_ChunkSize x > ix_MaxChunkSize x
               then x\<lparr>ix_ChunkSize := ix_MaxChunkSize x\<rparr> else x);
          x = (if ix_Concurrency x \<le> 0 then x\<lparr>ix_Concurrency := 4\<rparr> else x);
          x = (if ix_PollIntervalSeconds x \<le> 0 then x\<lparr>ix_PollIntervalSeconds := 10\<rparr> else x);
          x = (if ix_MetricsIntervalSeconds x \<le> 0 then x\<lparr>ix_MetricsIntervalSeconds := 30\<rparr> else x)
      in x)"

definition deriveWSURL :: "string \<Rightarrow> string" where
  "deriveWSURL httpURL =
     (if has_prefix httpURL ''https://'' then ''wss://'' @ trim_prefix httpURL ''https://''
      else if has_prefix httpURL ''http://'' then ''ws://'' @ trim_prefix httpURL ''http://''
      else httpURL)"

definition tenMinutes :: int where
  "tenMinutes = 600000000000"

definition applyMempoolDefaults :: "Config \<Rightarrow> Config" where
  "applyMempoolDefaults c =
     (let url = cc_RPCURL (cf_Chain c); m = cf_Mempool c;
          m = (if mc_HTTPURL m = '''' then m\<lparr>mc_HTTPURL := url\<rparr> else m);
          m = (if mc_WSURL m = '''' \<and> url \<noteq> '''' then m\<lparr>mc_WSURL := deriveWSURL url\<rparr> else m);
          m = (if mc_PendingWorkers m \<le> 0 then m\<lparr>mc_PendingWorkers := 32\<rparr> else m);
          m = (if mc_ReceiptWorkers m \<le> 0 then m\<lparr>mc_ReceiptWorkers := 16\<rparr> else m);
          m = (if mc_DroppedTTL m \<le> 0 then m\<lparr>mc_DroppedTTL := tenMinutes\<rparr> else m);
          m = (if mc_MaxInflightHashes m \<le> 0 then m\<lparr>mc_MaxInflightHashes := 50000\<rparr> else m)
      in c\<lparr>cf_Mempool := m\<rparr>)"

definition applyUIDefaults :: "Config \<Rightarrow> Config" where
  "applyUIDefaults c =
     (let u = cf_UI c;
          u = (if ui_ListenAddr u = '''' then u\<lparr>ui_ListenAddr := '':8080''\<rparr> else u);
          u = (if ui_DefaultFeed u = '''' then u\<lparr>ui_DefaultFeed := ''mempool''\<rparr> else u);
          u = (if ui_PollIntervalSeconds u \<le> 0 then u\<lparr>ui_PollIntervalSeconds := 2\<rparr> else u)
      in c\<lparr>cf_UI := u\<rparr>)"

text \<open>The loop over the contracts; \<open>i\<close> is the index of the first one of the list.\<close>

fun check_contracts :: "nat \<Rightarrow> ContractConfig list \<Rightarrow> go_error option" where
  "check_contracts i [] = None"
| "check_contracts i (ctr # cs) =
     (let missing = (\<lambda>f. Some (ErrNew (''contracts['' @ show_nat i @ ''].'' @ f @ '' is required''))) in
      if ct_Address ctr = '''' then missing ''address''
      else if ct_ABIPath ctr = '''' then missing ''abi_path''
      else if ct_Events ctr = [] then missing ''events''
      else check_contracts (Suc i) cs)"

definition Validate :: "Config \<Rightarrow> Config result" where
  "Validate c =
     and_then (resolveNetwork c) (\<lambda>c.
       if ix_ChunkSize (cf_Indexer c) = 0 then Inl (ErrNew ''indexer.chunk_size is required'')
       else let c = c\<lparr>cf_Indexer := indexer_defaults (cf_Indexer c)\<rparr>;
                c = (if dc_Driver (cf_Database c) = ''''
                     then c\<lparr>cf_Database := (cf_Database c)\<lparr>dc_Driver := ''sqlite''\<rparr>\<rparr> else c)
            in if dc_DSN (cf_Database c) = '''' then Inl (ErrNew ''database.dsn is required'')
               else let c = applyUIDefaults (applyMempoolDefaults c)
                    in if cf_Contracts c = [] then Inl (ErrNew ''contracts list is required'')
                       else (case check_contracts 0 (cf_Contracts c) of
                          Some e \<Rightarrow> Inl e | None \<Rightarrow> Inr c))"

text \<open>\<open>Load\<close>; reading the file and the YAML parser are parameters.\<close>

definition Load :: "(string \<Rightarrow> string result) \<Rightarrow> (string \<Rightarrow> Config result) \<Rightarrow> string \<Rightarrow> Config result" where
  "Load readFile unmarshal path =
     and_then (wrap_err ''read config'' (readFile path)) (\<lambda>data.
     and_then (wrap_err ''parse yaml'' (unmarshal data)) Validate)"

section \<open>What a validated configuration guarantees\<close>

definition indexer_ok :: "IndexerConfig \<Rightarrow> bool" where
  "indexer_ok x \<longleftrightarrow> 1 \<le> ix_MinChunkSize x \<and> ix_MinChunkSize x \<le> ix_ChunkSize x
     \<and> ix_ChunkSize x \<le> ix_MaxChunkSize x \<and> 0 < ix_Concurrency x
     \<and> 0 < ix_PollIntervalSeconds x \<and> 0 < ix_MetricsIntervalSeconds x"

definition mempool_cfg_ok :: "MempoolConfig \<Rightarrow> bool" where
  "mempool_cfg_ok m \<longleftrightarrow> mc_HTTPURL m \<noteq> '''' \<and> mc_WSURL m \<noteq> '''' \<and> 0 < mc_PendingWorkers m
     \<and> 0 < mc_ReceiptWorkers m \<and> 0 < mc_DroppedTTL m \<and> 0 < mc_MaxInflightHashes m"

definition ui_ok :: "UIConfig \<Rightarrow> bool" where
  "ui_ok u \<longleftrightarrow> ui_ListenAddr u \<noteq> '''' \<and> ui_DefaultFeed u \<noteq> '''' \<and> 0 < ui_PollIntervalSeconds u"

definition contract_ok :: "ContractConfig \<Rightarrow> bool" where
  "contract_ok c \<longleftrightarrow> ct_Address c \<noteq> '''' \<and> ct_ABIPath c \<noteq> '''' \<and> ct_Events c \<noteq> []"

definition config_ok :: "Config \<Rightarrow> bool" where
  "config_ok c \<longleftrightarrow> indexer_ok (cf_Indexer c) \<and> mempool_cfg_ok (cf_Mempool c) \<and> ui_ok (cf_UI c)
     \<and> cc_RPCURL (cf_Chain c) \<noteq> '''' \<and> cc_ChainID (cf_Chain c) \<noteq> 0
     \<and> dc_Driver (cf_Database c) \<noteq> '''' \<and> dc_DSN (cf_Database c) \<noteq> ''''
     \<and> cf_Contracts c \<noteq> [] \<and> list_all contract_ok (cf_Contracts c)
     \<and> (cf_Network c \<noteq> '''' \<longrightarrow> map_of (cf_Networks c) (cf_Network c) = Some (cf_Chain c))"

lemma deriveWSURL_nonempty: "url \<noteq> '''' \<Longrightarrow> deriveWSURL url \<noteq> ''''"
  by (simp add: deriveWSURL_def)

lemma check_contracts_None: "check_contracts i cs = None \<longleftrightarrow> list_all contract_ok cs"
  by (induction cs arbitrary: i) (auto simp: contract_ok_def Let_def)

lemma indexer_defaults_ok: "ix_ChunkSize x \<noteq> 0 \<Longrightarrow> indexer_ok (indexer_defaults x)"
  by (auto simp: indexer_ok_def indexer_defaults_def Let_def u64_arith)

lemma mempool_defaults_ok:
  "cc_RPCURL (cf_Chain c) \<noteq> '''' \<Longrightarrow> mempool_cfg_ok (cf_Mempool (applyMempoolDefaults c))"
  using deriveWSURL_nonempty [of "cc_RPCURL (cf_Chain c)"]
  by (auto simp: mempool_cfg_ok_def applyMempoolDefaults_def Let_def tenMinutes_def)

lemma ui_defaults_ok: "ui_ok (cf_UI (applyUIDefaults c))"
  by (auto simp: ui_ok_def applyUIDefaults_def Let_def)

lemma defaults_frame [simp]:
  "cf_Network (applyMempoolDefaults c) = cf_Network c"
  "cf_Networks (applyMempoolDefaults c) = cf_Networks c"
  "cf_Chain (applyMempoolDefaults c) = cf_Chain c"
  "cf_Indexer (applyMempoolDefaults c) = cf_Indexer c"
  "cf_Database (applyMempoolDefaults c) = cf_Database c"
  "cf_Contracts (applyMempoolDefaults c) = cf_Contracts c"
  "cf_Network (applyUIDefaults c) = cf_Network c"
  "cf_Networks (applyUIDefaults c) = cf_Networks c"
  "cf_Chain (applyUIDefaults c) = cf_Chain c"
  "cf_Indexer (applyUIDefaults c) = cf_Indexer c"
  "cf_Database (applyUIDefaults c) = cf_Database c"
  "cf_Mempool (applyUIDefaults c) = cf_Mempool c"
  "cf_Contracts (applyUIDefaults c) = cf_Contracts c"
  by (simp_all add: applyMempoolDefaults_def applyUIDefaults_def Let_def)

lemma resolveNetwork_ok:
  assumes "resolveNetwork c = Inr c'"
  obtains ch where "c' = c\<lparr>cf_Chain := ch\<rparr>" "cc_RPCURL ch \<noteq> ''''" "cc_ChainID ch \<noteq> 0"
    "cf_Network c \<noteq> '''' \<longrightarrow> map_of (cf_Networks c) (cf_Network c) = Some ch"
proof -
  from assms have "c' = c\<lparr>cf_Chain := cf_Chain c'\<rparr> \<and> cc_RPCURL (cf_Chain c') \<noteq> ''''
      \<and> cc_ChainID (cf_Chain c') \<noteq> 0
      \<and> (cf_Network c \<noteq> '''' \<longrightarrow> map_of (cf_Networks c) (cf_Network c) = Some (cf_Chain c'))"
    by (auto simp: resolveNetwork_def and_then_Inr split: if_splits option.splits)
  then show ?thesis using that by blast
qed

text \<open>What the defaults leave alone is already as they would make it.\<close>

lemma indexer_defaults_id: "indexer_ok x \<Longrightarrow> indexer_defaults x = x"
  by (auto simp: indexer_ok_def indexer_defaults_def Let_def u64_arith)

lemma mempool_defaults_id: "mempool_cfg_ok (cf_Mempool c) \<Longrightarrow> applyMempoolDefaults c = c"
  by (auto simp: mempool_cfg_ok_def applyMempoolDefaults_def Let_def)

lemma ui_defaults_id: "ui_ok (cf_UI c) \<Longrightarrow> applyUIDefaults c = c"
  by (auto simp: ui_ok_def applyUIDefaults_def Let_def)

lemma resolveNetwork_id: "config_ok c \<Longrightarrow> resolveNetwork c = Inr c"
  by (cases "cf_Networks c = []") (auto simp: config_ok_def resolveNetwork_def)

lemma Validate_config_ok: "Validate c = Inr c' \<Longrightarrow> config_ok c'"
  unfolding Validate_def and_then_Inr
  by (elim exE conjE, erule resolveNetwork_ok)
     (auto simp: config_ok_def Let_def check_contracts_None indexer_defaults_ok
        mempool_defaults_ok ui_defaults_ok split: if_splits option.splits)

section \<open>The chunker of a configuration\<close>

text \<open>How \<open>Follow\<close> and each worker of \<open>Backfill\<close> create their chunker.\<close>

definition cfg_chunker :: "Config \<Rightarrow> Chunker" where
  "cfg_chunker cfg = NewChunker (ix_MinChunkSize (cf_Indexer cfg)) (ix_MaxChunkSize (cf_Indexer cfg))
     (ix_ChunkSize (cf_Indexer cfg))"

lemma cfg_chunker_ok: "chunker_ok (cfg_chunker cfg)"
  by (simp add: cfg_chunker_def NewChunker_ok)

text \<open>A validated configuration gives the chunker exactly the configured sizes.\<close>

lemma cfg_chunker_validated:
  "config_ok cfg \<Longrightarrow> ch_min (cfg_chunker cfg) = ix_MinChunkSize (cf_Indexer cfg)
    \<and> ch_max (cfg_chunker cfg) = ix_MaxChunkSize (cf_Indexer cfg)
    \<and> ch_current (cfg_chunker cfg) = ix_ChunkSize (cf_Indexer cfg)"
  by (auto simp: config_ok_def indexer_ok_def cfg_chunker_def NewChunker_def Let_def u64_arith)


definition sample_config :: Config where
  "sample_config = \<lparr>cf_Network = ''local'',
     cf_Networks = [(''local'', \<lparr>cc_RPCURL = ''http://h'', cc_ChainID = 1\<rparr>)],
     cf_Chain = \<lparr>cc_RPCURL = '''', cc_ChainID = 0\<rparr>,
     cf_Indexer = \<lparr>ix_StartBlock = 6, ix_Confirmations = 0, ix_ChunkSize = 200,
       ix_MinChunkSize = 50, ix_MaxChunkSize = 500, ix_Concurrency = 1,
       ix_RateLimitPerSecond = 0, ix_PollIntervalSeconds = 10, ix_MetricsIntervalSeconds = 30\<rparr>,
     cf_Database = \<lparr>dc_Driver = '''', dc_DSN = ''f''\<rparr>,
     cf_Mempool = \<lparr>mc_WSURL = '''', mc_HTTPURL = '''', mc_PendingWorkers = 0,
       mc_ReceiptWorkers = 0, mc_DroppedTTL = 0, mc_DecodeInput = False,
       mc_TrackLifecycle = True, mc_MaxInflightHashes = 0\<rparr>,
     cf_UI = \<lparr>ui_ListenAddr = '''', ui_DefaultFeed = '''', ui_PollIntervalSeconds = 0,
       ui_DefaultFrom = ''''\<rparr>,
     cf_Contracts = [\<lparr>ct_Name = ''Token'', ct_Address = ''111111111'', ct_ABIPath = ''erc20.json'',
       ct_Events = [''Transfer'']\<rparr>]\<rparr>"

definition sample_validated :: Config where
  "sample_validated = (case Validate sample_config of Inr c \<Rightarrow> c | Inl e \<Rightarrow> sample_config)"

lemma sample_validates: "Validate sample_config = Inr sample_validated"
  by (simp add: sample_validated_def Validate_def sample_config_def resolveNetwork_def
      applyMempoolDefaults_def applyUIDefaults_def Let_def)

lemma sample_simps:
  "ix_StartBlock (cf_Indexer sample_validated) = 6" "ix_Confirmations (cf_Indexer sample_validated) = 0"
  "ix_MinChunkSize (cf_Indexer sample_validated) = 50" "ix_MaxChunkSize (cf_Indexer sample_validated) = 500"
  "ix_ChunkSize (cf_Indexer sample_validated) = 200" "ix_Concurrency (cf_Indexer sample_validated) = 1"
  by (simp_all add: sample_validated_def sample_config_def Validate_def resolveNetwork_def
      applyMempoolDefaults_def applyUIDefaults_def indexer_defaults_def Let_def)

lemma cfg_chunker_sample: "cfg_chunker sample_validated = NewChunker 50 500 200"
  by (simp add: cfg_chunker_def sample_simps)


text \<open>
  Validation is idempotent: validating a validated configuration changes nothing, so
  loading a configuration that was written back is stable.
\<close>

theorem validate_idempotent:
  assumes "Validate c = Inr c'"
  shows "Validate c' = Inr c'"
proof -
  have ok: "config_ok c'" using Validate_config_ok [OF assms] .
  then have parts: "indexer_defaults (cf_Indexer c') = cf_Indexer c'"
    "applyMempoolDefaults c' = c'" "applyUIDefaults c' = c'" "ix_ChunkSize (cf_Indexer c') \<noteq> 0"
    by (auto simp: config_ok_def indexer_defaults_id mempool_defaults_id ui_defaults_id
        indexer_ok_def u64_arith)
  from ok have "check_contracts 0 (cf_Contracts c') = None"
    by (simp add: check_contracts_None config_ok_def)
  with ok parts show ?thesis
    by (simp add: Validate_def resolveNetwork_id Let_def config_ok_def)
qed

theorem validate_idempotent_witness: "Validate sample_validated = Inr sample_validated"
  by (rule validate_idempotent [OF sample_validates])

end
