(* ===== verification/Tracker.thy ===== *)
theory Tracker
  imports Extract
begin

text \<open>
  \<open>internal/mempool/tracker.go\<close> and \<open>types.go\<close>: the lifecycle of the pending transactions.
  Each function is split where the code gives up its mutex: a definition per critical section,
  and the handlers composed of them and of the calls to the store and the node in the order of
  the code.  Go visits a map in an unspecified order: the definitions that do so take the order
  of the keys as an argument.
\<close>

section \<open>State\<close>

record trackedTx =
  tt_Hash :: string
  tt_From :: string
  tt_Nonce :: u64
  tt_FirstSeen :: time
  tt_LastSeen :: time
  tt_Status :: string

text \<open>\<open>tk_receiptC\<close> is the content of the buffered channel, of capacity \<open>tk_maxInflight\<close>.\<close>

record Tracker =
  tk_droppedTTL :: int
  tk_receiptWorkers :: int
  tk_maxInflight :: int
  tk_txs :: "string \<Rightarrow> trackedTx option"
  tk_fromNonce :: "string \<Rightarrow> string option"
  tk_inflight :: "string set"
  tk_receiptC :: "string list"

record Head =
  hd_Number :: u64

definition NewTracker :: "int \<Rightarrow> int \<Rightarrow> int \<Rightarrow> Tracker" where
  "NewTracker droppedTTL receiptWorkers maxInflight =
     (let droppedTTL = (if droppedTTL \<le> 0 then 600000000000 else droppedTTL);
          receiptWorkers = (if receiptWorkers \<le> 0 then 4 else receiptWorkers);
          maxInflight = (if maxInflight \<le> 0 then 10000 else maxInflight)
      in \<lparr>tk_droppedTTL = droppedTTL, tk_receiptWorkers = receiptWorkers,
          tk_maxInflight = maxInflight, tk_txs = Map.empty, tk_fromNonce = Map.empty,
          tk_inflight = {}, tk_receiptC = []\<rparr>)"

section \<open>Keys\<close>

text \<open>
  \<open>fmtUint64\<close>: the digits from the least significant one, then reversed in place by swapping
  the ends until the indices meet.
\<close>

function digits_loop :: "u64 \<Rightarrow> string \<Rightarrow> string" where
  "digits_loop v buf =
     (if v > 0 then digits_loop (v div 10) (buf @ [digit_char (unat (v mod 10))]) else buf)"
  by pat_completeness auto
termination
proof (relation "measure (\<lambda>(v, buf). unat v)")
  fix v :: u64 and buf :: string
  assume "v > 0"
  then have "0 < unat v" by (simp add: word_less_nat_alt)
  then show "((v div 10, buf @ [digit_char (unat (v mod 10))]), (v, buf)) \<in> measure (\<lambda>(v, buf). unat v)"
    by (simp add: unat_div)
qed simp

declare digits_loop.simps [simp del]

function swap_loop :: "nat \<Rightarrow> nat \<Rightarrow> string \<Rightarrow> string" where
  "swap_loop i j buf =
     (if i < j then swap_loop (i + 1) (j - 1) (buf[i := buf ! j, j := buf ! i]) else buf)"
  by pat_completeness auto
termination by (relation "measure (\<lambda>(i, j, buf). j - i)") auto

declare swap_loop.simps [simp del]

definition fmtUint64 :: "u64 \<Rightarrow> string" where
  "fmtUint64 v = (if v = 0 then ''0''
     else let buf = digits_loop v [] in swap_loop 0 (length buf - 1) buf)"

definition fromNonceKey :: "string \<Rightarrow> u64 \<Rightarrow> string" where
  "fromNonceKey from nonce = from @ '':'' @ fmtUint64 nonce"

section \<open>Receipts in flight\<close>

text \<open>
  \<open>enqueueReceipt\<close>: under the mutex the hash is reserved, unless it is in flight already or
  too many are; then it is offered to the channel, and the reservation undone if that is full.
\<close>

definition reserve :: "string \<Rightarrow> Tracker \<Rightarrow> bool \<times> Tracker" where
  "reserve hash T =
     (if hash \<in> tk_inflight T then (False, T)
      else if int (card (tk_inflight T)) \<ge> tk_maxInflight T then (False, T)
      else (True, T\<lparr>tk_inflight := insert hash (tk_inflight T)\<rparr>))"

definition offer :: "string \<Rightarrow> Tracker \<Rightarrow> Tracker" where
  "offer hash T =
     (if int (length (tk_receiptC T)) < tk_maxInflight T
      then T\<lparr>tk_receiptC := tk_receiptC T @ [hash]\<rparr>
      else T\<lparr>tk_inflight := tk_inflight T - {hash}\<rparr>)"

definition enqueueReceipt :: "string \<Rightarrow> Tracker \<Rightarrow> Tracker" where
  "enqueueReceipt hash T = (case reserve hash T of (True, T') \<Rightarrow> offer hash T' | (False, T') \<Rightarrow> T')"

definition is_status :: "string \<Rightarrow> Tracker \<Rightarrow> string \<Rightarrow> bool" where
  "is_status st T h = (case tk_txs T h of Some tx \<Rightarrow> tt_Status tx = st | None \<Rightarrow> False)"

definition pending_hashes :: "string list \<Rightarrow> Tracker \<Rightarrow> string list" where
  "pending_hashes keys T = filter (is_status ''pending'' T) keys"

definition scheduleReceipts :: "string list \<Rightarrow> Tracker \<Rightarrow> Tracker" where
  "scheduleReceipts keys T = fold enqueueReceipt (pending_hashes keys T) T"

definition OnHead :: "string list \<Rightarrow> Head \<Rightarrow> Tracker \<Rightarrow> Tracker" where
  "OnHead keys head T = scheduleReceipts keys T"

definition release :: "string \<Rightarrow> Tracker \<Rightarrow> Tracker" where
  "release hash T = T\<lparr>tk_inflight := tk_inflight T - {hash}\<rparr>"

section \<open>The handlers\<close>

text \<open>The zero \<open>time.Time\<close>, the first of January of the year 1.\<close>

definition zero_time :: time where
  "zero_time = - 62135596800000000000"

text \<open>The times and the status that \<open>HandleTx\<close> fills in.\<close>

definition stamp :: "time \<Rightarrow> MempoolTx \<Rightarrow> MempoolTx" where
  "stamp now tx =
     (let tx = (if mt_FirstSeenAt tx = zero_time then tx\<lparr>mt_FirstSeenAt := now\<rparr> else tx);
          tx = tx\<lparr>mt_LastSeenAt := now\<rparr>;
          tx = (if mt_InsertedAt tx = zero_time then tx\<lparr>mt_InsertedAt := now\<rparr> else tx)
      in tx\<lparr>mt_Status := ''pending''\<rparr>)"

text \<open>The first critical section: the hash that loses its nonce (empty if none).\<close>

definition track_seen :: "time \<Rightarrow> MempoolTx \<Rightarrow> Tracker \<Rightarrow> string \<times> Tracker" where
  "track_seen now tx T =
     (let key = fromNonceKey (mt_From tx) (mt_Nonce tx); h = mt_Hash tx;
          replaced = (case tk_fromNonce T key of
              Some existing \<Rightarrow> if existing \<noteq> h then existing else ''''
            | None \<Rightarrow> '''');
          entry = (case tk_txs T h of
              Some current \<Rightarrow> current\<lparr>tt_LastSeen := now\<rparr>
            | None \<Rightarrow> \<lparr>tt_Hash = h, tt_From = mt_From tx, tt_Nonce = mt_Nonce tx,
                       tt_FirstSeen = mt_FirstSeenAt tx, tt_LastSeen = now, tt_Status = ''pending''\<rparr>)
      in (replaced, T\<lparr>tk_fromNonce := (tk_fromNonce T)(key \<mapsto> h), tk_txs := (tk_txs T)(h \<mapsto> entry)\<rparr>))"

definition set_tracked :: "string \<Rightarrow> string \<Rightarrow> Tracker \<Rightarrow> Tracker" where
  "set_tracked hash st T = (case tk_txs T hash of
     Some prev \<Rightarrow> T\<lparr>tk_txs := (tk_txs T)(hash \<mapsto> prev\<lparr>tt_Status := st\<rparr>)\<rparr>
   | None \<Rightarrow> T)"

record 's MemWorld =
  mw_tick :: nat
  mw_tracker :: Tracker
  mw_store :: 's

definition HandleTx :: "'v Env \<Rightarrow> 's Deps \<Rightarrow> MempoolTx \<Rightarrow> 's MemWorld \<Rightarrow>
    go_error option \<times> 's MemWorld" where
  "HandleTx E D tx0 w =
     (let t = mw_tick w; S = dp_Store D; tx = stamp (en_now E t) tx0; h = mt_Hash tx;
          (replaced, T1) = track_seen (en_now E t) tx (mw_tracker w);
          (s1, T2) = (if replaced \<noteq> ''''
             then (snd (st_MarkMempoolReplaced S (en_faults E (t + 1)) (en_now E (t + 1)) replaced h
                     (mw_store w)), set_tracked replaced ''replaced'' T1)
             else (mw_store w, T1))
      in case st_UpsertMempoolTx S (en_faults E (t + 2)) tx s1 of
           (Some e, s2) \<Rightarrow> (Some e, \<lparr>mw_tick = t + 3, mw_tracker = T2, mw_store = s2\<rparr>)
         | (None, s2) \<Rightarrow> (None, \<lparr>mw_tick = t + 3, mw_tracker = enqueueReceipt h T2, mw_store = s2\<rparr>))"

text \<open>The last critical section of \<open>handleReceipt\<close>.\<close>

definition forget :: "string \<Rightarrow> Tracker \<Rightarrow> Tracker" where
  "forget hash T = (case tk_txs T hash of
     None \<Rightarrow> T
   | Some tracked \<Rightarrow>
       (let key = fromNonceKey (tt_From tracked) (tt_Nonce tracked);
            T' = T\<lparr>tk_txs := (tk_txs T)(hash := None)\<rparr>
        in if tk_fromNonce T key = Some hash
           then T'\<lparr>tk_fromNonce := (tk_fromNonce T)(key := None)\<rparr> else T'))"

text \<open>What the receipt says, if the transaction has been mined.\<close>

definition mined_info :: "RPCReceipt option result \<Rightarrow> MinedInfo option" where
  "mined_info r = (case r of
     Inr (Some receipt) \<Rightarrow> (case (rc_BlockNumber receipt, rc_TransactionIndex receipt) of
         (Some bn, Some ti) \<Rightarrow>
           Some \<lparr>mi_BlockNumber = bn, mi_BlockHash = rc_BlockHash receipt, mi_TxIndex = ti\<rparr>
       | _ \<Rightarrow> None)
   | _ \<Rightarrow> None)"

definition handleReceipt :: "'v Env \<Rightarrow> 's Deps \<Rightarrow> string \<Rightarrow> 's MemWorld \<Rightarrow> 's MemWorld" where
  "handleReceipt E D hash w =
     (let t = mw_tick w; S = dp_Store D in
      case mined_info (rpc_GetTransactionReceipt (dp_RPC D) t hash) of
        None \<Rightarrow> w\<lparr>mw_tick := t + 1, mw_tracker := release hash (mw_tracker w)\<rparr>
      | Some mined \<Rightarrow>
          (case st_MarkMempoolMined S (en_faults E (t + 1)) (en_now E (t + 1)) hash mined (mw_store w) of
             (Some e, s1) \<Rightarrow>
               \<lparr>mw_tick = t + 2, mw_tracker = release hash (mw_tracker w), mw_store = s1\<rparr>
           | (None, s1) \<Rightarrow>
               \<lparr>mw_tick = t + 2, mw_tracker = release hash (forget hash (mw_tracker w)), mw_store = s1\<rparr>))"

text \<open>\<open>receiptWorker\<close>: take the next hash from the channel and handle it.\<close>

definition receiptWorker :: "'v Env \<Rightarrow> 's Deps \<Rightarrow> 's MemWorld \<Rightarrow> 's MemWorld" where
  "receiptWorker E D w = (case tk_receiptC (mw_tracker w) of
     [] \<Rightarrow> w
   | hash # rest \<Rightarrow> handleReceipt E D hash
       (w\<lparr>mw_tracker := (mw_tracker w)\<lparr>tk_receiptC := rest\<rparr>\<rparr>))"

text \<open>The critical section of \<open>dropExpired\<close>, then the calls to the store, errors ignored.\<close>

definition expired :: "int \<Rightarrow> string list \<Rightarrow> Tracker \<Rightarrow> string list" where
  "expired cutoff keys T = filter (\<lambda>h. case tk_txs T h of
     Some tx \<Rightarrow> tt_Status tx = ''pending'' \<and> tt_FirstSeen tx < cutoff | None \<Rightarrow> False) keys"

fun drop_rows :: "'v Env \<Rightarrow> 's Deps \<Rightarrow> string list \<Rightarrow> nat \<Rightarrow> 's \<Rightarrow> nat \<times> 's" where
  "drop_rows E D [] t s = (t, s)"
| "drop_rows E D (h # hs) t s =
     drop_rows E D hs (t + 1)
       (snd (st_MarkMempoolDropped (dp_Store D) (en_faults E t) (en_now E t) h s))"

definition dropExpired :: "'v Env \<Rightarrow> 's Deps \<Rightarrow> string list \<Rightarrow> 's MemWorld \<Rightarrow> 's MemWorld" where
  "dropExpired E D keys w =
     (let t = mw_tick w; T = mw_tracker w;
          cutoff = en_now E t - tk_droppedTTL T;
          dropped = expired cutoff keys T;
          T' = fold (\<lambda>h. set_tracked h ''dropped'') dropped T;
          (t', s') = drop_rows E D dropped (t + 1) (mw_store w)
      in \<lparr>mw_tick = t', mw_tracker = T', mw_store = s'\<rparr>)"

end
