(* ===== verification/Store_Correct.thy ===== *)
theory Store_Correct
  imports Store_SQLite Store_Postgres Config
begin

text \<open>
  The two stores side by side: how \<open>store.New\<close> chooses one, and what both guarantee.  The
  build tag \<open>postgres\<close> and \<open>sql.Open\<close> are parameters.
\<close>

section \<open>Opening a store\<close>

type_synonym sql_open = "string \<Rightarrow> string \<Rightarrow> go_error option"

definition NewSQLite :: "sql_open \<Rightarrow> string \<Rightarrow> db Store result" where
  "NewSQLite openDB dsn = (case openDB ''sqlite'' dsn of
     Some e \<Rightarrow> Inl (ErrWrap ''open sqlite'' e) | None \<Rightarrow> Inr sqlite_store)"

definition NewPostgres :: "sql_open \<Rightarrow> string \<Rightarrow> db Store result" where
  "NewPostgres openDB dsn = (case openDB ''pgx'' dsn of
     Some e \<Rightarrow> Inl (ErrWrap ''open postgres'' e) | None \<Rightarrow> Inr pg_store)"

text \<open>The variant of a build without the tag.\<close>

definition stub_NewPostgres :: "string \<Rightarrow> db Store result" where
  "stub_NewPostgres dsn = Inl (ErrNew ''postgres support not enabled (build with -tags=postgres)'')"

definition store_New :: "bool \<Rightarrow> sql_open \<Rightarrow> DatabaseConfig \<Rightarrow> db Store result" where
  "store_New tag openDB cfg =
     (if dc_Driver cfg = ''sqlite'' then NewSQLite openDB (dc_DSN cfg)
      else if dc_Driver cfg = ''postgres'' then
        (if tag then NewPostgres openDB (dc_DSN cfg) else stub_NewPostgres (dc_DSN cfg))
      else Inl (ErrNew (''unsupported database driver '' @ dc_Driver cfg)))"

definition a_store :: "db Store \<Rightarrow> bool" where
  "a_store S \<longleftrightarrow> S = sqlite_store \<or> S = pg_store"

lemma store_New_a_store: "store_New tag openDB cfg = Inr S \<Longrightarrow> a_store S"
  by (auto simp: store_New_def NewSQLite_def NewPostgres_def stub_NewPostgres_def a_store_def
      split: if_splits option.splits)

section \<open>The log index\<close>

context log_store
begin

lemma insert_result:
  assumes "inv s" and "st_InsertLogs S f ls s = (r, s')"
  shows "inv s' \<and> cpv s' = cpv s
    \<and> (if r = None then logv s' = insert_spec ls (logv s) else s' = s)"
proof (cases r)
  case None
  from insert_ok [OF assms(1) assms(2) [unfolded None]] None show ?thesis by simp
next
  case (Some e)
  from insert_err [OF assms(1) assms(2) [unfolded Some]] Some assms(1) show ?thesis by simp
qed

end

lemma a_store_log_store: "a_store S \<Longrightarrow> log_store S db_inv db_logs db_cps"
  using sqlite.log_store_axioms pg.log_store_axioms by (auto simp: a_store_def)

lemma insert_result_db:
  assumes "a_store S" and "db_inv s" and "st_InsertLogs S f ls s = (r, s')"
  shows "db_inv s' \<and> db_cps s' = db_cps s
    \<and> (if r = None then db_logs s' = insert_spec ls (db_logs s) else s' = s)"
proof -
  from assms(1) consider "S = sqlite_store" | "S = pg_store" by (auto simp: a_store_def)
  then show ?thesis
    by cases (rule sqlite.insert_result [OF assms(2)] pg.insert_result [OF assms(2)],
        use assms(3) in simp)+
qed

text \<open>
  C29. A batch of logs is all or nothing.  \<open>InsertLogs\<close> either fails and leaves the database as
  it was, whichever call inside the transaction failed, or it stores the whole batch, where a
  key that is already present keeps its first record; the checkpoints are not touched.
\<close>

theorem insert_atomic:
  assumes "a_store S" and "db_inv s" and "st_InsertLogs S f ls s = (r, s')"
  shows "db_inv s' \<and> db_cps s' = db_cps s
    \<and> (if r = None then db_logs s' = insert_spec ls (db_logs s) else s' = s)"
  by (rule insert_result_db [OF assms])

definition a_log :: "u64 \<Rightarrow> LogRecord" where
  "a_log i = \<lparr>lr_ChainID = 1, lr_ContractAddress = ''c'', lr_EventName = ''Transfer'',
     lr_BlockNumber = 6, lr_BlockHash = ''b'', lr_TxHash = ''t'', lr_LogIndex = i,
     lr_Timestamp = 0, lr_ArgsJSON = '''', lr_TopicsJSON = '''', lr_DataHex = '''', lr_InsertedAt = 0\<rparr>"

lemma empty_db_inv: "db_inv empty_db" "db_minv empty_db"
  by (simp_all add: empty_db_def db_view_defs mem_ok_def)

text \<open>The batch fails at the third call of the transaction: nothing of it is stored.\<close>

theorem insert_atomic_witness:
  "snd (st_InsertLogs pg_store (no_faults(3 := Some ErrCanceled)) [a_log 0, a_log 1] empty_db) = empty_db"
proof -
  let ?r = "st_InsertLogs pg_store (no_faults(3 := Some ErrCanceled)) [a_log 0, a_log 1] empty_db"
  have "fst ?r \<noteq> None"
    by (simp add: pg_store_def pg_InsertLogs_def no_faults_def pg_log_args_def bind_u64s_def
        fits_int64_def a_log_def numeral_3_eq_3)
  with insert_atomic [of pg_store empty_db _ _ "fst ?r" "snd ?r", OF _ empty_db_inv(1)] show ?thesis
    by (simp add: a_store_def split: if_splits)
qed

text \<open>
  Indexing again is harmless.  After a batch has been stored, storing any batch whose keys
  are among its keys (the same range again after a crash, overlapping ranges) changes nothing.
\<close>

theorem insert_idempotent:
  assumes "a_store S" and "db_inv s" and "st_InsertLogs S f ls s = (None, s1)"
    and "log_key ` set ls2 \<subseteq> log_key ` set ls" and "st_InsertLogs S g ls2 s1 = (None, s2)"
  shows "db_logs s2 = db_logs s1 \<and> db_cps s2 = db_cps s1"
proof -
  from insert_result_db [OF assms(1-3)] have i: "db_inv s1" and v: "db_logs s1 = insert_spec ls (db_logs s)"
    by auto
  from insert_result_db [OF assms(1) i assms(5)] have v2: "db_logs s2 = insert_spec ls2 (db_logs s1)"
    and c: "db_cps s2 = db_cps s1" by auto
  have "insert_spec ls2 (db_logs s1) k = db_logs s1 k" for k
  proof (cases "db_logs s1 k")
    case None
    with v have "List.find (\<lambda>l. log_key l = k) ls = None"
      by (auto simp: insert_spec_def split: option.splits)
    then have "k \<notin> log_key ` set ls" by (auto simp: find_None_iff)
    with assms(4) have "List.find (\<lambda>l. log_key l = k) ls2 = None" by (auto simp: find_None_iff)
    with None show ?thesis by (simp add: insert_spec_def)
  next
    case (Some r)
    then show ?thesis by (simp add: insert_spec_def)
  qed
  with v2 c show ?thesis by auto
qed

theorem insert_idempotent_witness:
  "let s1 = snd (st_InsertLogs sqlite_store no_faults [a_log 0, a_log 1] empty_db)
   in db_logs (snd (st_InsertLogs sqlite_store no_faults [a_log 1] s1)) = db_logs s1"
proof -
  let ?i = "\<lambda>ls s. st_InsertLogs sqlite_store no_faults ls s"
  have ok: "fst (?i [a_log 0, a_log 1] s) = None" "fst (?i [a_log 1] s) = None" for s
    by (simp_all add: sqlite_store_def sqlite_InsertLogs_def no_faults_def sqlite_log_args_def
        bind_u64s_def fits_int64_def a_log_def)
  have "a_store sqlite_store" by (simp add: a_store_def)
  from insert_idempotent [OF this empty_db_inv(1), of no_faults "[a_log 0, a_log 1]"
      "snd (?i [a_log 0, a_log 1] empty_db)" "[a_log 1]" no_faults
      "snd (?i [a_log 1] (snd (?i [a_log 0, a_log 1] empty_db)))"] ok
  show ?thesis by (simp add: Let_def prod_eq_iff)
qed

text \<open>
  A rollback is not atomic.  The two deletions of \<open>RollbackFrom\<close> are not in a transaction:
  when the second fails the call reports an error, the rows are gone and the checkpoint that
  says they are indexed is still there.
\<close>

theorem rollback_not_atomic:
  "\<exists>f s s' e. db_inv s \<and> st_RollbackFrom sqlite_store f 6 s = (Some e, s')
     \<and> db_cps s' = db_cps s \<and> (\<exists>c \<in> set (db_cps s'). cp_StartBlock c = 6)
     \<and> (\<exists>k r. db_logs s k = Some r \<and> lr_BlockNumber r = 6) \<and> (\<forall>k. db_logs s' k = None)"
proof -
  let ?s = "empty_db\<lparr>d_logs := [row_of_log (a_log 0)], d_cps := [\<lparr>w_id = 1, w_start_block = 6,
     w_end_block = 6, w_cp_hash = ''h'', w_cp_inserted_at = 0\<rparr>]\<rparr>"
  let ?f = "no_faults(1 := Some ErrDeadlineExceeded)"
  have "st_RollbackFrom sqlite_store ?f 6 ?s = (Some ErrDeadlineExceeded, ?s\<lparr>d_logs := []\<rparr>)"
    by (simp add: sqlite_store_def sqlite_RollbackFrom_def no_faults_def bind_u64s_def fits_int64_def
        Let_def row_of_log_def a_log_def)
  moreover have "db_inv ?s" "db_cps (?s\<lparr>d_logs := []\<rparr>) = db_cps ?s"
    "\<exists>c \<in> set (db_cps (?s\<lparr>d_logs := []\<rparr>)). cp_StartBlock c = 6"
    by (simp_all add: db_view_defs cp_of_row_def)
  moreover have "db_logs ?s (1, ''t'', 0) = Some (stored_log (a_log 0))"
    by (simp add: db_view_defs view_logs_def log_key_def) (simp add: a_log_def)
  moreover have "lr_BlockNumber (stored_log (a_log 0)) = 6" by (simp add: a_log_def)
  moreover have "\<forall>k. db_logs (?s\<lparr>d_logs := []\<rparr>) k = None" by (simp add: db_view_defs view_logs_def)
  ultimately show ?thesis by blast
qed

section \<open>Listings\<close>

definition effective_limit :: "int \<Rightarrow> nat" where
  "effective_limit n = nat (if n \<le> 0 then 100 else n)"

definition wanted :: "string \<Rightarrow> string \<Rightarrow> bool" where
  "wanted status x \<longleftrightarrow> status = '''' \<or> status = ''all'' \<or> x = status"

lemma sql_desc_newest:
  assumes "r \<in> set rows" and "r \<notin> set (sql_desc key n rows)" and "x \<in> set (sql_desc key n rows)"
  shows "key r \<le> key x"
proof -
  let ?l = "rev (sort_key key rows)"
  have "sorted (map key (sort_key key rows))" by simp
  then have sw: "sorted_wrt (\<lambda>x y. key y \<le> key x) ?l"
    by (simp add: sorted_wrt_rev sorted_wrt_map)
  then have sw': "sorted_wrt (\<lambda>x y. key y \<le> key x) (take (nat n) ?l @ drop (nat n) ?l)" by simp
  have "r \<in> set ?l" using assms(1) by simp
  with assms(2) have "r \<in> set (drop (nat n) ?l)"
    unfolding sql_desc_def by (metis UnE append_take_drop_id set_append)
  moreover have "x \<in> set (take (nat n) ?l)" using assms(3) by (simp add: sql_desc_def)
  ultimately show ?thesis using sw' unfolding sorted_wrt_append by blast
qed

text \<open>
  Listing the mempool.  \<open>ListMempool\<close> returns at most the limit (100 when none is given)
  of the transactions, newest first, all of the requested status, and leaves out only older
  ones.
\<close>

theorem list_mempool:
  assumes "a_store S" and "st_ListMempool S f status n s = Inr txs"
  shows "\<exists>rows. map m_tx_hash rows = map mt_Hash txs \<and> set rows \<subseteq> set (d_mem s)
    \<and> length txs \<le> effective_limit n
    \<and> (\<forall>tx \<in> set txs. wanted status (mt_Status tx))
    \<and> sorted_wrt (\<lambda>r r'. m_last_seen_at r' \<le> m_last_seen_at r) rows
    \<and> (\<forall>r \<in> set (d_mem s). wanted status (m_status r) \<and> r \<notin> set rows \<longrightarrow>
         (\<forall>r' \<in> set rows. m_last_seen_at r \<le> m_last_seen_at r'))"
proof -
  let ?sel = "filter (\<lambda>r. wanted status (m_status r)) (d_mem s)"
  let ?n = "if n \<le> 0 then 100 else n"
  let ?rows = "sql_desc m_last_seen_at ?n ?sel"
  have sel: "(if status \<noteq> '''' \<and> status \<noteq> ''all'' then filter (\<lambda>r. m_status r = status) (d_mem s)
      else d_mem s) = ?sel"
    by (auto simp: wanted_def)
  from assms have txs: "txs = map sqlite_mem_tx ?rows \<or> txs = map pg_mem_tx ?rows"
    unfolding a_store_def
    by (auto simp only: sqlite_store_def pg_store_def sqlite_ListMempool_def pg_ListMempool_def
        Let_def sel Store.simps sum.inject sum.distinct split: option.splits)
  then have h: "map m_tx_hash ?rows = map mt_Hash txs" and st: "map m_status ?rows = map mt_Status txs"
    by (auto simp: sqlite_mem_tx_def pg_mem_tx_def)
  have len: "length txs \<le> effective_limit n"
    using txs by (auto simp: length_sql_desc effective_limit_def)
  have sub: "set ?rows \<subseteq> set ?sel" by (rule set_sql_desc)
  have w: "\<forall>tx \<in> set txs. wanted status (mt_Status tx)"
  proof
    fix tx assume "tx \<in> set txs"
    then have "mt_Status tx \<in> set (map mt_Status txs)" by simp
    then obtain r where "r \<in> set ?rows" "m_status r = mt_Status tx" unfolding st [symmetric] by auto
    with sub show "wanted status (mt_Status tx)" by auto
  qed
  have "\<forall>r \<in> set (d_mem s). wanted status (m_status r) \<and> r \<notin> set ?rows \<longrightarrow>
         (\<forall>r' \<in> set ?rows. m_last_seen_at r \<le> m_last_seen_at r')"
    using sql_desc_newest [of _ ?sel m_last_seen_at ?n] by simp
  with h len w sub sorted_sql_desc [of m_last_seen_at ?n ?sel] show ?thesis
    by (intro exI [of _ ?rows]) auto
qed

section \<open>The mempool table\<close>

text \<open>
  Seeing a transaction again.  \<open>UpsertMempoolTx\<close> on a hash that is already stored updates
  the row of that hash: its status follows the new record, while the time it was first seen,
  its mined block, its replacement and its sender, nonce and value stay as they were, and no
  row is added.
\<close>

theorem upsert_keeps_history:
  assumes "a_store S" and "List.find (\<lambda>r. m_tx_hash r = mt_Hash tx) (d_mem s) = Some r"
    and "st_UpsertMempoolTx S f tx s = (None, s')"
  shows "\<exists>r'. List.find (\<lambda>r. m_tx_hash r = mt_Hash tx) (d_mem s') = Some r'
    \<and> length (d_mem s') = length (d_mem s) \<and> m_status r' = mt_Status tx
    \<and> m_first_seen_at r' = m_first_seen_at r \<and> m_inserted_at r' = m_inserted_at r
    \<and> m_mined_block_number r' = m_mined_block_number r \<and> m_mined_block_hash r' = m_mined_block_hash r
    \<and> m_replaced_by_tx_hash r' = m_replaced_by_tx_hash r
    \<and> m_from_addr r' = m_from_addr r \<and> m_nonce r' = m_nonce r \<and> m_value r' = m_value r"
proof -
  from assms(1,3) obtain x where x: "d_mem s' = sql_upsert x (d_mem s)" "m_tx_hash x = mt_Hash tx"
    "m_status x = mt_Status tx"
    by (fastforce simp: a_store_def sqlite_store_def pg_store_def sqlite_UpsertMempoolTx_def
        pg_UpsertMempoolTx_def sqlite_mem_row_def pg_mem_row_def split: option.splits if_splits)
  from find_hash [OF assms(2)] have h: "m_tx_hash r = mt_Hash tx" "mt_Hash tx \<in> set (map m_tx_hash (d_mem s))"
    by (auto intro: rev_image_eqI)
  with x show ?thesis
    by (simp add: sql_upsert_def find_update assms(2)) (simp add: sql_update_def)
qed

definition a_tx :: "string \<Rightarrow> MempoolTx" where
  "a_tx st = \<lparr>mt_ChainID = 1, mt_Hash = ''h'', mt_From = ''f'', mt_To = ''t'', mt_Nonce = 0,
     mt_Value = ''0'', mt_Gas = 0, mt_GasPrice = '''', mt_MaxFeePerGas = '''',
     mt_MaxPriorityFeePerGas = '''', mt_TxType = 0, mt_Input = '''', mt_Status = st,
     mt_FirstSeenAt = 5000000000, mt_LastSeenAt = 7000000000, mt_MinedBlockNumber = 0,
     mt_MinedBlockHash = '''', mt_MinedTxIndex = 0, mt_ReplacedByTxHash = '''',
     mt_InsertedAt = 0, mt_DecodedInputJSON = ''''\<rparr>"

definition a_row :: mem_row where
  "a_row = (sqlite_mem_row (a_tx ''mined''))\<lparr>m_first_seen_at := 1\<rparr>"

theorem upsert_keeps_history_witness:
  "\<exists>r'. List.find (\<lambda>r. m_tx_hash r = ''h'')
       (d_mem (snd (st_UpsertMempoolTx sqlite_store no_faults (a_tx ''pending'') (empty_db\<lparr>d_mem := [a_row]\<rparr>))))
     = Some r' \<and> m_first_seen_at r' = 1"
proof -
  let ?s = "empty_db\<lparr>d_mem := [a_row]\<rparr>"
  let ?r = "st_UpsertMempoolTx sqlite_store no_faults (a_tx ''pending'') ?s"
  have "List.find (\<lambda>r. m_tx_hash r = mt_Hash (a_tx ''pending'')) (d_mem ?s) = Some a_row"
    by (simp add: a_row_def sqlite_mem_row_def a_tx_def)
  moreover have "?r = (None, snd ?r)"
    by (simp add: sqlite_store_def sqlite_UpsertMempoolTx_def no_faults_def mem_bind_def bind_u64s_def
        fits_int64_def a_tx_def known_status_def)
  moreover have "a_store sqlite_store" by (simp add: a_store_def)
  ultimately show ?thesis
    using upsert_keeps_history [of sqlite_store "a_tx ''pending''" ?s a_row no_faults "snd ?r"]
    by (auto simp: a_tx_def a_row_def)
qed

theorem list_mempool_witness:
  "\<exists>txs. st_ListMempool sqlite_store no_faults ''mined'' 2 (empty_db\<lparr>d_mem := [a_row]\<rparr>) = Inr txs
    \<and> length txs \<le> 2"
proof -
  let ?s = "empty_db\<lparr>d_mem := [a_row]\<rparr>"
  obtain txs where txs: "st_ListMempool sqlite_store no_faults ''mined'' 2 ?s = Inr txs"
    by (cases "st_ListMempool sqlite_store no_faults ''mined'' 2 ?s")
      (simp_all add: sqlite_store_def sqlite_ListMempool_def no_faults_def)
  moreover have "a_store sqlite_store" by (simp add: a_store_def)
  ultimately show ?thesis
    using list_mempool [of sqlite_store no_faults "''mined''" 2 ?s txs]
    by (auto simp: effective_limit_def)
qed

section \<open>The drivers agree\<close>

lemma insort_key_iso:
  assumes "\<And>y. y \<in> set xs \<Longrightarrow> f x \<le> f y \<longleftrightarrow> g x \<le> g y"
  shows "insort_key f x xs = insort_key g x xs"
  using assms by (induction xs) auto

lemma sort_key_iso:
  assumes "\<And>x y. x \<in> set xs \<Longrightarrow> y \<in> set xs \<Longrightarrow> f x \<le> f y \<longleftrightarrow> g x \<le> g y"
  shows "sort_key f xs = sort_key g xs"
  using assms
proof (induction xs)
  case Nil
  then show ?case by simp
next
  case (Cons x xs)
  then have "sort_key f xs = sort_key g xs" by simp
  with Cons.prems show ?case using insort_key_iso [of "sort_key g xs" f x g] by simp
qed

lemma fits_sint: "fits_int64 x \<Longrightarrow> sint x = uint x"
proof -
  assume "fits_int64 x"
  then have "uint x < 2 ^ 63" by (simp add: fits_int64_def word_less_def)
  moreover have "0 \<le> uint x" by simp
  ultimately have "- (2 ^ 63) \<le> uint x \<and> uint x < 2 ^ 63" by linarith
  then show "sint x = uint x"
    by (simp add: sint_uint signed_take_bit_int_eq_self_iff signed_take_bit_eq_if_positive)
qed

lemma inserts_agree:
  assumes "\<And>l. l \<in> set ls \<Longrightarrow> fits_int64 (lr_LogIndex l)"
  shows "st_InsertLogs pg_store f ls s = st_InsertLogs sqlite_store f ls s"
proof -
  have i: "exec_inserts pg_log_args f i ls rows = exec_inserts sqlite_log_args f i ls rows" for i rows
    using assms by (induction ls arbitrary: i rows) (auto simp: pg_log_args_def sqlite_log_args_def bind_u64s_def split: option.splits)
  have "pg_InsertLogs f ls s = sqlite_InsertLogs f ls s"
    unfolding pg_InsertLogs_def sqlite_InsertLogs_def i ..
  then show ?thesis by (simp add: pg_store_def sqlite_store_def)
qed

lemma lists_agree:
  assumes "\<And>r. r \<in> set (d_logs s) \<Longrightarrow> fits_int64 (w_log_index r)"
  shows "st_ListLogs pg_store f n s = st_ListLogs sqlite_store f n s"
proof -
  have key: "((w_block_number x, sint (w_log_index x)) \<le> (w_block_number y, sint (w_log_index y)))
      = ((w_block_number x, w_log_index x) \<le> (w_block_number y, w_log_index y))"
    if "x \<in> set (d_logs s)" "y \<in> set (d_logs s)" for x y
    using assms [OF that(1)] assms [OF that(2)]
    by (auto simp: fits_sint word_le_def less_eq_prod_def)
  have srt: "sort_key (\<lambda>r. (w_block_number r, sint (w_log_index r))) (d_logs s)
      = sort_key (\<lambda>r. (w_block_number r, w_log_index r)) (d_logs s)"
    by (rule sort_key_iso) (rule key)
  have fits: "list_all (\<lambda>r. fits_int64 (w_log_index r))
      (sql_desc (\<lambda>r. (w_block_number r, w_log_index r)) m (d_logs s))" for m
    using set_sql_desc assms by (fastforce simp: list_all_iff)
  show ?thesis
    using fits [of 100] fits [of n] by (simp add: pg_store_def sqlite_store_def pg_ListLogs_def sqlite_ListLogs_def Let_def
        sql_desc_def srt split: option.splits)
qed

text \<open>
  SQLite and PostgreSQL index alike.  On log indexes below \<open>2 ^ 63\<close> (those of any real
  block) the two drivers give the same answer and the same tables for every operation on logs
  and checkpoints, also when the database fails at the same call.
\<close>

theorem drivers_agree:
  assumes "\<And>l. l \<in> set ls \<Longrightarrow> fits_int64 (lr_LogIndex l)"
    and "\<And>r. r \<in> set (d_logs s) \<Longrightarrow> fits_int64 (w_log_index r)"
  shows "st_InsertLogs pg_store f ls s = st_InsertLogs sqlite_store f ls s
    \<and> st_SaveRangeCheckpoint pg_store f c s = st_SaveRangeCheckpoint sqlite_store f c s
    \<and> st_LastCheckpoint pg_store f s = st_LastCheckpoint sqlite_store f s
    \<and> st_CheckpointBefore pg_store f b s = st_CheckpointBefore sqlite_store f b s
    \<and> st_RollbackFrom pg_store f b s = st_RollbackFrom sqlite_store f b s
    \<and> st_ListLogs pg_store f n s = st_ListLogs sqlite_store f n s"
  using inserts_agree [of ls f s] lists_agree [of s f n] assms
  by (simp add: pg_store_def sqlite_store_def pg_SaveRangeCheckpoint_def sqlite_SaveRangeCheckpoint_def pg_LastCheckpoint_def
      sqlite_LastCheckpoint_def pg_CheckpointBefore_def sqlite_CheckpointBefore_def
      pg_RollbackFrom_def sqlite_RollbackFrom_def split: option.splits)

theorem drivers_agree_witness:
  "st_InsertLogs pg_store no_faults [a_log 0, a_log 1] empty_db
     = st_InsertLogs sqlite_store no_faults [a_log 0, a_log 1] empty_db"
  by (rule drivers_agree [THEN conjunct1]) (auto simp: a_log_def fits_int64_def empty_db_def)

section \<open>Listing the logs\<close>

text \<open>The place of a log in the chain, and the logs of the index.\<close>

definition log_place :: "LogRecord \<Rightarrow> u64 \<times> u64" where
  "log_place l = (lr_BlockNumber l, lr_LogIndex l)"

lemma ran_db_logs: "db_inv s \<Longrightarrow> ran (db_logs s) = set (map log_of_row (d_logs s))"
  and card_db_logs: "db_inv s \<Longrightarrow> card (dom (db_logs s)) = length (d_logs s)"
  and db_logs_row: "db_inv s \<Longrightarrow> r \<in> set (d_logs s) \<Longrightarrow> db_logs s (row_key r) = Some (log_of_row r)"
proof -
  assume iv: "db_inv s"
  have row: "db_logs s (row_key r) = Some (log_of_row r)" if "r \<in> set (d_logs s)" for r
  proof -
    have "List.find (\<lambda>y. row_key y = row_key r) (d_logs s) \<noteq> None"
      using that by (auto simp: find_None_iff)
    then obtain x where x: "List.find (\<lambda>y. row_key y = row_key r) (d_logs s) = Some x" by blast
    then have "x \<in> set (d_logs s)" "row_key x = row_key r" by (auto simp: find_Some_iff)
    with iv that have "x = r" by (simp add: db_inv_def distinct_map inj_on_def)
    with x show ?thesis by (simp add: db_logs_def view_logs_def)
  qed
  then show "r \<in> set (d_logs s) \<Longrightarrow> db_logs s (row_key r) = Some (log_of_row r)" by blast
  have from_row: "\<exists>r \<in> set (d_logs s). k = row_key r \<and> l = log_of_row r" if "db_logs s k = Some l" for k l
    using that by (auto simp: db_logs_def view_logs_def find_Some_iff)
  show "ran (db_logs s) = set (map log_of_row (d_logs s))"
  proof (intro equalityI subsetI)
    fix l assume "l \<in> ran (db_logs s)"
    then obtain k where "db_logs s k = Some l" by (auto simp: ran_def)
    from from_row [OF this] show "l \<in> set (map log_of_row (d_logs s))" by auto
  next
    fix l assume "l \<in> set (map log_of_row (d_logs s))"
    then obtain r where "r \<in> set (d_logs s)" "l = log_of_row r" by auto
    with row show "l \<in> ran (db_logs s)" by (auto intro: ranI)
  qed
  have "dom (db_logs s) = set (map row_key (d_logs s))"
  proof (intro equalityI subsetI)
    fix k assume "k \<in> dom (db_logs s)"
    then obtain l where "db_logs s k = Some l" by blast
    from from_row [OF this] show "k \<in> set (map row_key (d_logs s))" by auto
  next
    fix k assume "k \<in> set (map row_key (d_logs s))"
    then obtain r where "r \<in> set (d_logs s)" "k = row_key r" by auto
    with row show "k \<in> dom (db_logs s)" by auto
  qed
  also have "card \<dots> = length (d_logs s)" using iv distinct_card [of "map row_key (d_logs s)"] by (simp add: db_inv_def)
  finally show "card (dom (db_logs s)) = length (d_logs s)" .
qed

text \<open>\<open>ls\<close> is what a listing of at most \<open>n\<close> logs of the index \<open>m\<close> may be.\<close>

definition newest_logs :: "nat \<Rightarrow> (log_key \<Rightarrow> LogRecord option) \<Rightarrow> LogRecord list \<Rightarrow> bool" where
  "newest_logs n m ls \<longleftrightarrow> distinct (map log_key ls) \<and> length ls = min n (card (dom m))
    \<and> (\<forall>l \<in> set ls. m (log_key l) = Some l)
    \<and> sorted_wrt (\<lambda>l l'. log_place l' \<le> log_place l) ls
    \<and> (\<forall>l \<in> ran m - set ls. \<forall>l' \<in> set ls. log_place l \<le> log_place l')"

lemma distinct_sql_desc: "distinct (map f rows) \<Longrightarrow> distinct (map f (sql_desc key n rows))"
proof -
  assume "distinct (map f rows)"
  then have "distinct (map f (rev (sort_key key rows)))"
    by (simp add: distinct_map)
  then show ?thesis unfolding sql_desc_def take_map [symmetric] by (rule distinct_take)
qed

lemma list_logs:
  assumes "a_store S" and "db_inv s" and "f 0 = None"
    and "\<And>l. l \<in> ran (db_logs s) \<Longrightarrow> fits_int64 (lr_LogIndex l)"
  shows "\<exists>ls. st_ListLogs S f n s = Inr ls \<and> newest_logs (effective_limit n) (db_logs s) ls"
proof -
  let ?key = "\<lambda>r. (w_block_number r, w_log_index r)" and ?n = "if n \<le> 0 then 100 else n"
  let ?rows = "sql_desc ?key ?n (d_logs s)"
  have fit: "fits_int64 (w_log_index r)" if "r \<in> set (d_logs s)" for r
    using assms(4) [of "log_of_row r"] that ran_db_logs [OF assms(2)] by (simp add: log_of_row_def)
  have "st_ListLogs S f n s = st_ListLogs pg_store f n s"
    using assms(1) lists_agree [of s f n] fit by (auto simp: a_store_def)
  then have "st_ListLogs S f n s = Inr (map log_of_row ?rows)"
    using assms(3) by (simp add: pg_store_def pg_ListLogs_def Let_def)
  moreover have "newest_logs (effective_limit n) (db_logs s) (map log_of_row ?rows)"
    unfolding newest_logs_def
  proof (intro conjI)
    have k: "map log_key (map log_of_row ?rows) = map row_key ?rows" by simp
    show "distinct (map log_key (map log_of_row ?rows))"
      unfolding k using assms(2) by (intro distinct_sql_desc) (simp add: db_inv_def)
    show "length (map log_of_row ?rows) = min (effective_limit n) (card (dom (db_logs s)))"
      by (simp add: length_sql_desc card_db_logs [OF assms(2)] effective_limit_def min.commute)
    show "\<forall>l \<in> set (map log_of_row ?rows). db_logs s (log_key l) = Some l"
      using set_sql_desc [of ?key ?n "d_logs s"] db_logs_row [OF assms(2)] by auto
    have pl: "log_place (log_of_row r) = ?key r" for r by (simp add: log_place_def log_of_row_def)
    show "sorted_wrt (\<lambda>l l'. log_place l' \<le> log_place l) (map log_of_row ?rows)"
      using sorted_sql_desc [of ?key ?n "d_logs s"] unfolding sorted_wrt_map pl .
    show "\<forall>l \<in> ran (db_logs s) - set (map log_of_row ?rows). \<forall>l' \<in> set (map log_of_row ?rows).
        log_place l \<le> log_place l'"
    proof (intro ballI)
      fix l l' assume "l \<in> ran (db_logs s) - set (map log_of_row ?rows)" "l' \<in> set (map log_of_row ?rows)"
      then obtain r r' where "r \<in> set (d_logs s)" "r \<notin> set ?rows" "r' \<in> set ?rows"
        and l: "l = log_of_row r" "l' = log_of_row r'" unfolding ran_db_logs [OF assms(2)] by auto
      from sql_desc_newest [OF this(1-3)] show "log_place l \<le> log_place l'" unfolding l pl .
    qed
  qed
  ultimately show ?thesis by blast
qed

section \<open>Migrations\<close>

text \<open>
  Migrating again.  Once \<open>Migrate\<close> has succeeded, running it again succeeds and changes
  nothing, and no migration touches the rows of a table.
\<close>

theorem migrate_idempotent:
  assumes "a_store S" and "st_Migrate S f s = (None, s')" and "\<And>i. g i = None"
  shows "st_Migrate S g s' = (None, s')
    \<and> d_logs s' = d_logs s \<and> d_cps s' = d_cps s \<and> d_mem s' = d_mem s"
proof -
  have "sqlite_Migrate = (\<lambda>f. exec_schema f 0 sqlite_schema)" "pg_Migrate = (\<lambda>f. exec_schema f 0 pg_schema)"
    by (auto simp: fun_eq_iff sqlite_Migrate_def pg_Migrate_def)
  with assms(1) obtain qs where m: "st_Migrate S = (\<lambda>f. exec_schema f 0 qs)"
    by (auto simp: a_store_def sqlite_store_def pg_store_def)
  with assms(2) have ex: "exec_schema f 0 qs s = (None, s')" by simp
  from exec_schema_creates [OF ex] have "set qs \<subseteq> set (d_schema s')" by simp
  from exec_schema_present [OF this] assms(3) exec_schema_frame [of f 0 qs s] ex m
  show ?thesis by simp
qed

theorem migrate_idempotent_witness:
  "st_Migrate sqlite_store no_faults (snd (st_Migrate sqlite_store no_faults empty_db))
     = (None, snd (st_Migrate sqlite_store no_faults empty_db))"
proof -
  have "st_Migrate sqlite_store no_faults empty_db = (None, snd (st_Migrate sqlite_store no_faults empty_db))"
    by (simp add: sqlite_store_def sqlite_Migrate_def sqlite_schema_def no_faults_def)
  from migrate_idempotent [OF _ this, of no_faults] show ?thesis
    by (simp add: a_store_def no_faults_def)
qed

end
