(* ===== verification/Tracker_Correct.thy ===== *)
theory Tracker_Correct
  imports Tracker Store_Correct Demo
begin

text \<open>
  What the tracker guarantees: the keys of its nonce index, the accounting of receipts in
  flight over all interleavings of its goroutines, and the life of a transaction from the
  first sight to mined, replaced or dropped.
\<close>

section \<open>Keys\<close>

lemma swap_loop_nth:
  "j < length buf \<Longrightarrow> length (swap_loop i j buf) = length buf
    \<and> (\<forall>k < length buf. swap_loop i j buf ! k = (if i \<le> k \<and> k \<le> j then buf ! (i + j - k) else buf ! k))"
proof (induction i j buf rule: swap_loop.induct)
  case (1 i j buf)
  show ?case
  proof (cases "i < j")
    case False
    then have "swap_loop i j buf = buf" by (subst swap_loop.simps) simp
    moreover have "i + j - k = k" if "i \<le> k" "k \<le> j" for k using False that by simp
    ultimately show ?thesis by simp
  next
    case True
    let ?b = "buf[i := buf ! j, j := buf ! i]"
    have step: "swap_loop i j buf = swap_loop (i + 1) (j - 1) ?b"
      using True by (subst swap_loop.simps) simp
    have "j - 1 < length ?b" using 1(2) by simp
    note IH = 1(1) [OF True this]
    show ?thesis
      unfolding step
    proof (intro conjI allI impI)
      show "length (swap_loop (i + 1) (j - 1) ?b) = length buf" using IH by simp
      fix k assume k: "k < length buf"
      have "swap_loop (i + 1) (j - 1) ?b ! k
          = (if i + 1 \<le> k \<and> k \<le> j - 1 then ?b ! (i + 1 + (j - 1) - k) else ?b ! k)"
        using IH k by simp
      also have "\<dots> = (if i \<le> k \<and> k \<le> j then buf ! (i + j - k) else buf ! k)"
        using True k 1(2) by (auto simp: nth_list_update)
      finally show "swap_loop (i + 1) (j - 1) ?b ! k
          = (if i \<le> k \<and> k \<le> j then buf ! (i + j - k) else buf ! k)" .
    qed
  qed
qed

lemma swap_loop_rev: "buf \<noteq> [] \<Longrightarrow> swap_loop 0 (length buf - 1) buf = rev buf"
  by (rule nth_equalityI) (use swap_loop_nth [of "length buf - 1" buf 0] in \<open>auto simp: rev_nth\<close>)

lemma digits_loop_rev: "v > 0 \<Longrightarrow> digits_loop v buf = buf @ rev (show_nat (unat v))"
proof (induction v buf rule: digits_loop.induct)
  case (1 v buf)
  have m: "unat (v mod 10) = unat v mod 10" and d: "unat (v div 10) = unat v div 10"
    by (simp_all add: unat_mod unat_div)
  show ?case
  proof (cases "v div 10 > 0")
    case True
    then have "\<not> unat v < 10" using d by (auto simp: word_less_nat_alt)
    with True 1 show ?thesis
      by (subst digits_loop.simps) (simp add: show_nat.simps [of "unat v"] m d)
  next
    case False
    then have "v div 10 = 0" by (simp add: word_gt_0)
    then have "unat v div 10 = 0" using d by simp
    then have lt: "unat v < 10" by simp
    have "digits_loop (v div 10) b = b" for b using False by (subst digits_loop.simps) simp
    with 1(2) lt show ?thesis
      by (subst digits_loop.simps) (simp add: show_nat.simps [of "unat v"] m)
  qed
qed

lemma show_nat_nonempty: "show_nat n \<noteq> []"
  by (simp add: show_nat.simps [of n])

lemma fmtUint64_show: "fmtUint64 v = show_nat (unat v)"
proof (cases "v = 0")
  case True
  moreover have "digit_char 0 = CHR ''0''" by code_simp
  ultimately show ?thesis by (simp add: fmtUint64_def show_nat.simps)
next
  case False
  then have "v > 0" by (simp add: word_gt_0)
  then show ?thesis
    using swap_loop_rev [of "rev (show_nat (unat v))"]
    by (simp add: fmtUint64_def Let_def digits_loop_rev False show_nat_nonempty)
qed

lemma fromNonceKey_inject: "fromNonceKey f n = fromNonceKey f' n' \<longleftrightarrow> f = f' \<and> n = n'"
proof
  have nd: "CHR '':'' \<notin> set (show_nat k)" for k using show_nat_digits [of "CHR '':''" k] by auto
  assume "fromNonceKey f n = fromNonceKey f' n'"
  then have "rev (f @ CHR '':'' # show_nat (unat n)) = rev (f' @ CHR '':'' # show_nat (unat n'))"
    by (simp add: fromNonceKey_def fmtUint64_show)
  then have "rev (show_nat (unat n)) @ CHR '':'' # rev f = rev (show_nat (unat n')) @ CHR '':'' # rev f'"
    by simp
  then have "rev (show_nat (unat n)) = rev (show_nat (unat n')) \<and> rev f = rev f'"
    by (subst (asm) split_at_sep) (simp_all add: nd)
  then show "f = f' \<and> n = n'" by (simp add: word_unat_eq_iff)
qed simp

text \<open>
  The nonce index keeps senders and nonces apart.  \<open>fmtUint64\<close>, digits collected backwards
  and swapped in place, prints the decimal representation, and the keys \<open>from:nonce\<close> of two
  transactions are equal only if both the sender and the nonce are, whatever the sender string
  contains.
\<close>

theorem nonce_keys:
  "fmtUint64 v = show_nat (unat v)
   \<and> (fromNonceKey f n = fromNonceKey f' n' \<longleftrightarrow> f = f' \<and> n = n')"
  by (simp add: fmtUint64_show fromNonceKey_inject)

section \<open>Receipts in flight\<close>

text \<open>
  The goroutines: calls of \<open>HandleTx\<close>, of \<open>scheduleReceipts\<close> (from \<open>OnHead\<close>), the receipt
  workers and the sweeper, each at the point it has reached.  A step is one critical section,
  one call to the store or the node, or one operation on the channel.
\<close>

datatype mthread =
    Seeing MempoolTx
  | Replacing string MempoolTx
  | Marking string MempoolTx
  | Upserting MempoolTx
  | Reserving "string list"
  | Offering string "string list"
  | Fetching string
  | Mining string MinedInfo
  | Forgetting string
  | Releasing string
  | Dropping "string list"
  | Finished

definition advance :: "'v Env \<Rightarrow> 's Deps \<Rightarrow> mthread \<Rightarrow> 's MemWorld \<Rightarrow> mthread \<times> 's MemWorld" where
  "advance E D th w =
     (let t = mw_tick w; T = mw_tracker w; s = mw_store w; S = dp_Store D; w' = w\<lparr>mw_tick := t + 1\<rparr> in
      case th of
        Seeing tx \<Rightarrow> (case track_seen (mt_LastSeenAt tx) tx T of (replaced, T') \<Rightarrow>
          (if replaced \<noteq> '''' then Replacing replaced tx else Upserting tx, w'\<lparr>mw_tracker := T'\<rparr>))
      | Replacing h tx \<Rightarrow> (Marking h tx, w'\<lparr>mw_store :=
          snd (st_MarkMempoolReplaced S (en_faults E t) (en_now E t) h (mt_Hash tx) s)\<rparr>)
      | Marking h tx \<Rightarrow> (Upserting tx, w'\<lparr>mw_tracker := set_tracked h ''replaced'' T\<rparr>)
      | Upserting tx \<Rightarrow> (case st_UpsertMempoolTx S (en_faults E t) tx s of
          (Some e, s') \<Rightarrow> (Finished, w'\<lparr>mw_store := s'\<rparr>)
        | (None, s') \<Rightarrow> (Reserving [mt_Hash tx], w'\<lparr>mw_store := s'\<rparr>))
      | Reserving [] \<Rightarrow> (Finished, w)
      | Reserving (h # hs) \<Rightarrow> (case reserve h T of (ok, T') \<Rightarrow>
          (if ok then Offering h hs else Reserving hs, w'\<lparr>mw_tracker := T'\<rparr>))
      | Offering h hs \<Rightarrow> (Reserving hs, w'\<lparr>mw_tracker := offer h T\<rparr>)
      | Fetching h \<Rightarrow> (case mined_info (rpc_GetTransactionReceipt (dp_RPC D) t h) of
          None \<Rightarrow> (Releasing h, w') | Some mi \<Rightarrow> (Mining h mi, w'))
      | Mining h mi \<Rightarrow> (case st_MarkMempoolMined S (en_faults E t) (en_now E t) h mi s of
          (Some e, s') \<Rightarrow> (Releasing h, w'\<lparr>mw_store := s'\<rparr>)
        | (None, s') \<Rightarrow> (Forgetting h, w'\<lparr>mw_store := s'\<rparr>))
      | Forgetting h \<Rightarrow> (Releasing h, w'\<lparr>mw_tracker := forget h T\<rparr>)
      | Releasing h \<Rightarrow> (Finished, w'\<lparr>mw_tracker := release h T\<rparr>)
      | Dropping [] \<Rightarrow> (Finished, w)
      | Dropping (h # hs) \<Rightarrow> (Dropping hs, w'\<lparr>mw_store :=
          snd (st_MarkMempoolDropped S (en_faults E t) (en_now E t) h s)\<rparr>)
      | Finished \<Rightarrow> (Finished, w))"

record 's MemSys =
  ms_threads :: "mthread multiset"
  ms_world :: "'s MemWorld"

text \<open>The order \<open>keys\<close> in which a range visits the map of transactions.\<close>

definition keys_of :: "string list \<Rightarrow> Tracker \<Rightarrow> bool" where
  "keys_of keys T \<longleftrightarrow> distinct keys \<and> set keys = dom (tk_txs T)"

text \<open>The critical section of \<open>dropExpired\<close>.\<close>

definition sweep :: "time \<Rightarrow> string list \<Rightarrow> Tracker \<Rightarrow> string list \<times> Tracker" where
  "sweep now keys T = (let hs = expired (now - tk_droppedTTL T) keys T
     in (hs, fold (\<lambda>h. set_tracked h ''dropped'') hs T))"

text \<open>\<open>arrives\<close> says which transactions the fetcher hands to \<open>HandleTx\<close>.\<close>

inductive ms_step :: "(MempoolTx \<Rightarrow> bool) \<Rightarrow> 'v Env \<Rightarrow> 's Deps \<Rightarrow> 's MemSys \<Rightarrow> 's MemSys \<Rightarrow> bool"
  for arrives E D where
  handle: "arrives tx \<Longrightarrow> ms_step arrives E D \<lparr>ms_threads = ths, ms_world = w\<rparr>
     \<lparr>ms_threads = add_mset (Seeing (stamp (en_now E (mw_tick w)) tx)) ths, ms_world = w\<rparr>"
| head: "keys_of keys (mw_tracker w) \<Longrightarrow> ms_step arrives E D \<lparr>ms_threads = ths, ms_world = w\<rparr>
     \<lparr>ms_threads = add_mset (Reserving (pending_hashes keys (mw_tracker w))) ths, ms_world = w\<rparr>"
| recv: "tk_receiptC (mw_tracker w) = h # q \<Longrightarrow> ms_step arrives E D \<lparr>ms_threads = ths, ms_world = w\<rparr>
     \<lparr>ms_threads = add_mset (Fetching h) ths,
      ms_world = w\<lparr>mw_tracker := (mw_tracker w)\<lparr>tk_receiptC := q\<rparr>\<rparr>\<rparr>"
| sweeps: "keys_of keys (mw_tracker w) \<Longrightarrow> sweep (en_now E (mw_tick w)) keys (mw_tracker w) = (hs, T') \<Longrightarrow>
     ms_step arrives E D \<lparr>ms_threads = ths, ms_world = w\<rparr>
     \<lparr>ms_threads = add_mset (Dropping hs) ths, ms_world = w\<lparr>mw_tracker := T'\<rparr>\<rparr>"
| move: "advance E D th w = (th', w') \<Longrightarrow> ms_step arrives E D \<lparr>ms_threads = add_mset th ths, ms_world = w\<rparr>
     \<lparr>ms_threads = add_mset th' ths, ms_world = w'\<rparr>"

inductive ms_reaches :: "(MempoolTx \<Rightarrow> bool) \<Rightarrow> 'v Env \<Rightarrow> 's Deps \<Rightarrow> 's MemSys \<Rightarrow> 's MemSys \<Rightarrow> bool" for arrives E D s where
  here: "ms_reaches arrives E D s s"
| next_: "ms_reaches arrives E D s s1 \<Longrightarrow> ms_step arrives E D s1 s2 \<Longrightarrow> ms_reaches arrives E D s s2"

text \<open>The hash a goroutine has in flight.\<close>

fun held :: "mthread \<Rightarrow> string multiset" where
  "held (Offering h hs) = {#h#}"
| "held (Fetching h) = {#h#}"
| "held (Mining h mi) = {#h#}"
| "held (Forgetting h) = {#h#}"
| "held (Releasing h) = {#h#}"
| "held _ = {#}"

text \<open>
  Each hash in flight is in the channel or held by exactly one goroutine, and no more than the
  maximum are in flight.
\<close>

definition flight_ok :: "'s MemSys \<Rightarrow> bool" where
  "flight_ok s \<longleftrightarrow> (let T = mw_tracker (ms_world s) in
     finite (tk_inflight T) \<and> int (card (tk_inflight T)) \<le> tk_maxInflight T
     \<and> mset (tk_receiptC T) + \<Sum>\<^sub># (image_mset held (ms_threads s)) = mset_set (tk_inflight T))"

lemma flight_okD:
  assumes "flight_ok \<lparr>ms_threads = ths, ms_world = w\<rparr>"
  shows "finite (tk_inflight (mw_tracker w))"
    and "int (card (tk_inflight (mw_tracker w))) \<le> tk_maxInflight (mw_tracker w)"
    and "mset (tk_receiptC (mw_tracker w)) + \<Sum>\<^sub># (image_mset held ths) = mset_set (tk_inflight (mw_tracker w))"
  using assms by (simp_all add: flight_ok_def Let_def)

text \<open>A goroutine that is about to send finds room in the channel.\<close>

lemma offer_room:
  assumes "flight_ok \<lparr>ms_threads = add_mset (Offering h hs) ths, ms_world = w\<rparr>"
  shows "int (length (tk_receiptC (mw_tracker w))) < tk_maxInflight (mw_tracker w)"
proof -
  let ?T = "mw_tracker w"
  have "size (mset (tk_receiptC ?T)) + size {#h#} \<le> size (mset_set (tk_inflight ?T))"
    unfolding flight_okD(3) [OF assms, symmetric] by simp
  then have "length (tk_receiptC ?T) < card (tk_inflight ?T)" by simp
  with flight_okD(2) [OF assms] show ?thesis by linarith
qed

text \<open>What the critical sections on the maps leave alone.\<close>

lemma track_seen_frame [frame]:
  "tk_inflight (snd (track_seen now tx T)) = tk_inflight T"
  "tk_receiptC (snd (track_seen now tx T)) = tk_receiptC T"
  "tk_maxInflight (snd (track_seen now tx T)) = tk_maxInflight T"
  "tk_droppedTTL (snd (track_seen now tx T)) = tk_droppedTTL T"
  by (simp_all add: track_seen_def Let_def)

lemma set_tracked_frame [frame]:
  "tk_inflight (set_tracked h st T) = tk_inflight T" "tk_receiptC (set_tracked h st T) = tk_receiptC T"
  "tk_maxInflight (set_tracked h st T) = tk_maxInflight T" "tk_fromNonce (set_tracked h st T) = tk_fromNonce T"
  "tk_droppedTTL (set_tracked h st T) = tk_droppedTTL T"
  by (simp_all add: set_tracked_def split: option.splits)

lemma fold_set_tracked_frame [frame]:
  "tk_inflight (fold (\<lambda>h. set_tracked h st) hs T) = tk_inflight T"
  "tk_receiptC (fold (\<lambda>h. set_tracked h st) hs T) = tk_receiptC T"
  "tk_maxInflight (fold (\<lambda>h. set_tracked h st) hs T) = tk_maxInflight T"
  "tk_fromNonce (fold (\<lambda>h. set_tracked h st) hs T) = tk_fromNonce T"
  by (induction hs arbitrary: T) (simp_all add: frame)

lemma forget_frame [frame]:
  "tk_inflight (forget h T) = tk_inflight T" "tk_receiptC (forget h T) = tk_receiptC T"
  "tk_maxInflight (forget h T) = tk_maxInflight T"
  by (simp_all add: forget_def Let_def split: option.splits)

lemma reserve_frame [frame]:
  "tk_txs (snd (reserve h T)) = tk_txs T" "tk_fromNonce (snd (reserve h T)) = tk_fromNonce T"
  "tk_receiptC (snd (reserve h T)) = tk_receiptC T" "tk_maxInflight (snd (reserve h T)) = tk_maxInflight T"
  by (simp_all add: reserve_def)

lemma offer_frame [frame]:
  "tk_txs (offer h T) = tk_txs T" "tk_fromNonce (offer h T) = tk_fromNonce T"
  "tk_maxInflight (offer h T) = tk_maxInflight T"
  by (simp_all add: offer_def)

lemma release_frame [frame]:
  "tk_txs (release h T) = tk_txs T" "tk_fromNonce (release h T) = tk_fromNonce T"
  "tk_receiptC (release h T) = tk_receiptC T" "tk_maxInflight (release h T) = tk_maxInflight T"
  by (simp_all add: release_def)

text \<open>Steps that keep the channel, the reservations and what the goroutine holds.\<close>

lemma flight_same:
  assumes "flight_ok \<lparr>ms_threads = add_mset th ths, ms_world = w\<rparr>"
    and "tk_inflight (mw_tracker w') = tk_inflight (mw_tracker w)"
    and "tk_receiptC (mw_tracker w') = tk_receiptC (mw_tracker w)"
    and "tk_maxInflight (mw_tracker w') = tk_maxInflight (mw_tracker w)"
    and "held th' = held th"
  shows "flight_ok \<lparr>ms_threads = add_mset th' ths, ms_world = w'\<rparr>"
  using assms by (simp add: flight_ok_def Let_def)

lemma flight_release:
  assumes "flight_ok \<lparr>ms_threads = add_mset (Releasing h) ths, ms_world = w\<rparr>"
    and "mw_tracker w' = release h (mw_tracker w)"
  shows "flight_ok \<lparr>ms_threads = add_mset Finished ths, ms_world = w'\<rparr>"
proof -
  let ?T = "mw_tracker w" and ?A = "tk_inflight (mw_tracker w)"
  note F = flight_okD [OF assms(1)]
  have "h \<in># mset_set ?A" unfolding F(3) [symmetric] by simp
  with F(1) have h: "h \<in> ?A" by simp
  with F(1) have "mset_set ?A = add_mset h (mset_set (?A - {h}))" by (rule mset_set.remove)
  with F(3) have "mset (tk_receiptC ?T) + \<Sum>\<^sub># (image_mset held ths) = mset_set (?A - {h})"
    by simp
  moreover have "card (?A - {h}) \<le> card ?A" by (simp add: card_Diff1_le)
  ultimately show ?thesis
    using F(1,2) by (simp add: flight_ok_def Let_def assms(2) release_def)
qed

lemma flight_reserve:
  assumes "flight_ok \<lparr>ms_threads = add_mset (Reserving (h # hs)) ths, ms_world = w\<rparr>"
    and "reserve h (mw_tracker w) = (ok, T')" and "mw_tracker w' = T'"
  shows "flight_ok \<lparr>ms_threads = add_mset (if ok then Offering h hs else Reserving hs) ths, ms_world = w'\<rparr>"
proof (cases ok)
  case True
  let ?T = "mw_tracker w"
  from assms(2) True have n: "h \<notin> tk_inflight ?T" "int (card (tk_inflight ?T)) < tk_maxInflight ?T"
    and T': "T' = ?T\<lparr>tk_inflight := insert h (tk_inflight ?T)\<rparr>"
    by (auto simp: reserve_def split: if_splits)
  with True flight_okD [OF assms(1)] show ?thesis
    by (simp add: flight_ok_def Let_def assms(3))
next
  case False
  with assms(2,3) have "mw_tracker w' = mw_tracker w" by (auto simp: reserve_def split: if_splits)
  with False show ?thesis by (simp add: flight_same [OF assms(1)])
qed

lemma flight_offer:
  assumes "flight_ok \<lparr>ms_threads = add_mset (Offering h hs) ths, ms_world = w\<rparr>"
    and "mw_tracker w' = offer h (mw_tracker w)"
  shows "flight_ok \<lparr>ms_threads = add_mset (Reserving hs) ths, ms_world = w'\<rparr>"
  using flight_okD [OF assms(1)] offer_room [OF assms(1)] assms(2)
  by (simp add: flight_ok_def Let_def offer_def)

lemma flight_move:
  assumes F: "flight_ok \<lparr>ms_threads = add_mset th ths, ms_world = w\<rparr>"
    and a: "advance E D th w = (th', w')"
  shows "flight_ok \<lparr>ms_threads = add_mset th' ths, ms_world = w'\<rparr>"
proof (cases th)
  case (Seeing tx)
  with a show ?thesis
    by (intro flight_same [OF F])
      (auto simp: advance_def Let_def split: prod.splits if_splits dest!: arg_cong [where f = snd] simp: frame)
next
  case (Replacing h tx)
  with a show ?thesis by (intro flight_same [OF F]) (auto simp: advance_def Let_def)
next
  case (Marking h tx)
  with a show ?thesis by (intro flight_same [OF F]) (auto simp: advance_def Let_def frame)
next
  case (Upserting tx)
  with a show ?thesis
    by (intro flight_same [OF F]) (auto simp: advance_def Let_def split: prod.splits option.splits)
next
  case (Reserving hs)
  show ?thesis
  proof (cases hs)
    case Nil
    with a Reserving show ?thesis by (intro flight_same [OF F]) (auto simp: advance_def Let_def)
  next
    case (Cons h hs')
    obtain ok T' where r: "reserve h (mw_tracker w) = (ok, T')" by (metis surj_pair)
    with a Reserving Cons have th': "th' = (if ok then Offering h hs' else Reserving hs')"
      and w': "mw_tracker w' = T'" by (auto simp: advance_def Let_def)
    show ?thesis unfolding th' by (rule flight_reserve [OF F [unfolded Reserving Cons] r w'])
  qed
next
  case (Offering h hs)
  with a have "th' = Reserving hs" "mw_tracker w' = offer h (mw_tracker w)"
    by (auto simp: advance_def Let_def)
  with flight_offer [OF F [unfolded Offering]] show ?thesis by simp
next
  case (Fetching h)
  with a show ?thesis by (intro flight_same [OF F]) (auto simp: advance_def Let_def split: option.splits)
next
  case (Mining h mi)
  with a show ?thesis
    by (intro flight_same [OF F]) (auto simp: advance_def Let_def split: prod.splits option.splits)
next
  case (Forgetting h)
  with a show ?thesis by (intro flight_same [OF F]) (auto simp: advance_def Let_def frame)
next
  case (Releasing h)
  with a have "th' = Finished" "mw_tracker w' = release h (mw_tracker w)"
    by (auto simp: advance_def Let_def)
  with flight_release [OF F [unfolded Releasing]] show ?thesis by simp
next
  case (Dropping hs)
  with a show ?thesis
    by (intro flight_same [OF F]) (cases hs; auto simp: advance_def Let_def)+
next
  case Finished
  with a show ?thesis by (intro flight_same [OF F]) (auto simp: advance_def Let_def)
qed

lemma flight_step:
  assumes "ms_step arrives E D s s'" and "flight_ok s"
  shows "flight_ok s'"
  using assms
proof (induction rule: ms_step.induct)
  case (handle tx ths w)
  then show ?case by (simp add: flight_ok_def Let_def)
next
  case (head keys w ths)
  then show ?case by (simp add: flight_ok_def Let_def)
next
  case (recv w h q ths)
  then show ?case by (simp add: flight_ok_def Let_def)
next
  case (sweeps keys w hs T' ths)
  then show ?case by (auto simp: flight_ok_def Let_def sweep_def frame)
next
  case (move th w th' w' ths)
  then show ?case using flight_move by blast
qed

lemma flight_reaches: "ms_reaches arrives E D s s' \<Longrightarrow> flight_ok s \<Longrightarrow> flight_ok s'"
  by (induction rule: ms_reaches.induct) (auto intro: flight_step)

text \<open>The tracker when it has just been created.\<close>

definition fresh :: "Tracker \<Rightarrow> 's \<Rightarrow> 's MemSys" where
  "fresh T s = \<lparr>ms_threads = {#}, ms_world = \<lparr>mw_tick = 0, mw_tracker = T, mw_store = s\<rparr>\<rparr>"

lemma flight_fresh: "flight_ok (fresh (NewTracker ttl rw mi) s)"
  by (simp add: flight_ok_def fresh_def NewTracker_def Let_def)

text \<open>
  C21. Receipts in flight, over all interleavings.  At most the configured number of hashes are
  in flight; each is in the channel or with exactly one goroutine; and a goroutine that has
  reserved a hash always finds room in the channel, so the branch "receipt queue full,
  dropping hash" of \<open>enqueueReceipt\<close> is never taken.
\<close>

theorem receipts_in_flight:
  assumes "ms_reaches arrives E D (fresh (NewTracker ttl rw mi) s0) s"
  shows "let T = mw_tracker (ms_world s) in
      int (card (tk_inflight T)) \<le> tk_maxInflight T
    \<and> (\<forall>h. count (mset (tk_receiptC T) + \<Sum>\<^sub># (image_mset held (ms_threads s))) h
          = (if h \<in> tk_inflight T then 1 else 0))
    \<and> (\<forall>h hs. Offering h hs \<in># ms_threads s \<longrightarrow> tk_receiptC (offer h T) = tk_receiptC T @ [h])"
proof -
  let ?T = "mw_tracker (ms_world s)"
  have F: "flight_ok s" using flight_reaches [OF assms flight_fresh] .
  have s: "s = \<lparr>ms_threads = ms_threads s, ms_world = ms_world s\<rparr>" by simp
  from F s have F': "flight_ok \<lparr>ms_threads = ms_threads s, ms_world = ms_world s\<rparr>" by metis
  note D = flight_okD [OF F']
  have "tk_receiptC (offer h ?T) = tk_receiptC ?T @ [h]" if "Offering h hs \<in># ms_threads s" for h hs
  proof -
    from multi_member_split [OF that] obtain ths where "ms_threads s = add_mset (Offering h hs) ths" by blast
    with F s have "flight_ok \<lparr>ms_threads = add_mset (Offering h hs) ths, ms_world = ms_world s\<rparr>" by metis
    from offer_room [OF this] show ?thesis by (simp add: offer_def)
  qed
  moreover have "count (mset (tk_receiptC ?T) + \<Sum>\<^sub># (image_mset held (ms_threads s))) h
      = (if h \<in> tk_inflight ?T then 1 else 0)" for h
    unfolding D(3) using D(1) by (simp add: count_mset_set')
  ultimately show ?thesis using D(2) unfolding Let_def by blast
qed

lemma stamp_fields [simp]:
  "mt_Hash (stamp now tx) = mt_Hash tx" "mt_From (stamp now tx) = mt_From tx"
  "mt_Nonce (stamp now tx) = mt_Nonce tx" "mt_Status (stamp now tx) = ''pending''"
  "mt_LastSeenAt (stamp now tx) = now"
  by (simp_all add: stamp_def Let_def)

section \<open>A goroutine on its own\<close>

fun run_thread :: "'v Env \<Rightarrow> 's Deps \<Rightarrow> nat \<Rightarrow> mthread \<Rightarrow> 's MemWorld \<Rightarrow> mthread \<times> 's MemWorld" where
  "run_thread E D 0 th w = (th, w)"
| "run_thread E D (Suc n) th w = (case advance E D th w of (th', w') \<Rightarrow> run_thread E D n th' w')"

lemma reaches_run:
  assumes "ms_reaches arrives E D s \<lparr>ms_threads = add_mset th ths, ms_world = w\<rparr>"
    and "run_thread E D n th w = (th', w')"
  shows "ms_reaches arrives E D s \<lparr>ms_threads = add_mset th' ths, ms_world = w'\<rparr>"
  using assms
proof (induction n arbitrary: th w)
  case (Suc n)
  obtain th1 w1 where a: "advance E D th w = (th1, w1)" by (metis surj_pair)
  with Suc.prems(2) have "run_thread E D n th1 w1 = (th', w')" by simp
  from Suc.IH [OF next_ [OF Suc.prems(1) ms_step.move [OF a]] this] show ?case .
qed simp

lemma run_finished [simp]: "run_thread E D n Finished w = (Finished, w)"
  by (induction n) (simp_all add: advance_def Let_def)

lemma run_thread_add:
  "run_thread E D (m + n) th w = (case run_thread E D m th w of (th', w') \<Rightarrow> run_thread E D n th' w')"
  by (induction m arbitrary: th w) (simp_all split: prod.splits)

lemma run_more:
  "run_thread E D n th w = (Finished, w') \<Longrightarrow> run_thread E D (n + k) th w = (Finished, w')"
  by (simp add: run_thread_add del: run_thread.simps)

lemma run_reserving:
  "\<exists>w'. run_thread E D (2 * length hs + 1) (Reserving hs) w = (Finished, w')
    \<and> mw_tracker w' = fold enqueueReceipt hs (mw_tracker w) \<and> mw_store w' = mw_store w"
proof (induction hs arbitrary: w)
  case Nil
  then show ?case by (simp add: advance_def Let_def)
next
  case (Cons h hs)
  have two: "2 * length (h # hs) + 1 = Suc (Suc (2 * length hs + 1))" by simp
  have "\<exists>w1. mw_tracker w1 = enqueueReceipt h (mw_tracker w) \<and> mw_store w1 = mw_store w
      \<and> (run_thread E D (Suc (Suc (2 * length hs + 1))) (Reserving (h # hs)) w
          = run_thread E D (2 * length hs + 1) (Reserving hs) w1
        \<or> run_thread E D (Suc (Suc (2 * length hs + 1))) (Reserving (h # hs)) w
          = run_thread E D (Suc (2 * length hs + 1)) (Reserving hs) w1)"
  proof (cases "reserve h (mw_tracker w)")
    case (Pair ok T')
    show ?thesis
    proof (cases ok)
      case True
      let ?w1 = "w\<lparr>mw_tick := mw_tick w + 2, mw_tracker := offer h T'\<rparr>"
      have "run_thread E D (Suc (Suc (2 * length hs + 1))) (Reserving (h # hs)) w
          = run_thread E D (2 * length hs + 1) (Reserving hs) ?w1"
        using Pair True by (simp add: advance_def Let_def)
      with Pair True show ?thesis by (intro exI [of _ ?w1]) (simp add: enqueueReceipt_def)
    next
      case False
      let ?w1 = "w\<lparr>mw_tick := mw_tick w + 1, mw_tracker := T'\<rparr>"
      have "run_thread E D (Suc (Suc (2 * length hs + 1))) (Reserving (h # hs)) w
          = run_thread E D (Suc (2 * length hs + 1)) (Reserving hs) ?w1"
        using Pair False by (simp add: advance_def Let_def)
      with Pair False show ?thesis by (intro exI [of _ ?w1]) (simp add: enqueueReceipt_def)
    qed
  qed
  then obtain w1 where w1: "mw_tracker w1 = enqueueReceipt h (mw_tracker w)" "mw_store w1 = mw_store w"
    and run: "run_thread E D (Suc (Suc (2 * length hs + 1))) (Reserving (h # hs)) w
          = run_thread E D (2 * length hs + 1) (Reserving hs) w1
        \<or> run_thread E D (Suc (Suc (2 * length hs + 1))) (Reserving (h # hs)) w
          = run_thread E D (Suc (2 * length hs + 1)) (Reserving hs) w1" by blast
  from Cons.IH [of w1] obtain w' where w': "run_thread E D (2 * length hs + 1) (Reserving hs) w1 = (Finished, w')"
    "mw_tracker w' = fold enqueueReceipt hs (mw_tracker w1)" "mw_store w' = mw_store w1" by blast
  have "run_thread E D (Suc (2 * length hs + 1)) (Reserving hs) w1 = (Finished, w')"
    using run_more [OF w'(1), of 1] by (simp del: run_thread.simps)
  with run w'(1) have "run_thread E D (2 * length (h # hs) + 1) (Reserving (h # hs)) w = (Finished, w')"
    unfolding two by metis
  with w'(2,3) w1 show ?case by simp
qed

lemma run_dropping:
  assumes "\<And>t. en_faults E t = f" and "\<And>t. en_now E t = now"
  shows "\<exists>w'. run_thread E D (length hs + 1) (Dropping hs) w = (Finished, w')
    \<and> mw_tracker w' = mw_tracker w \<and> mw_store w' = snd (drop_rows E D hs t (mw_store w))"
proof (induction hs arbitrary: w t)
  case Nil
  then show ?case by (simp add: advance_def Let_def)
next
  case (Cons h hs)
  let ?w = "w\<lparr>mw_tick := mw_tick w + 1, mw_store :=
    snd (st_MarkMempoolDropped (dp_Store D) f now h (mw_store w))\<rparr>"
  from Cons [of ?w "t + 1"] show ?case
    by (simp add: advance_def Let_def assms)
qed

lemma run_handle:
  assumes "\<And>t. en_faults E t = f" and "\<And>t. en_now E t = now"
  shows "\<exists>w'. run_thread E D 7 (Seeing (stamp now tx)) w = (Finished, w')
    \<and> mw_tracker w' = mw_tracker (snd (HandleTx E D tx w))
    \<and> mw_store w' = mw_store (snd (HandleTx E D tx w))"
proof -
  let ?tx = "stamp now tx" and ?S = "dp_Store D"
  obtain r T1 where ts: "track_seen now ?tx (mw_tracker w) = (r, T1)" by (metis surj_pair)
  let ?w2 = "if r \<noteq> '''' then \<lparr>mw_tick = mw_tick w + 3, mw_tracker = set_tracked r ''replaced'' T1,
      mw_store = snd (st_MarkMempoolReplaced ?S f now r (mt_Hash tx) (mw_store w))\<rparr>
    else \<lparr>mw_tick = mw_tick w + 1, mw_tracker = T1, mw_store = mw_store w\<rparr>"
  let ?m = "if r \<noteq> '''' then 3 else 1 :: nat"
  have seen: "run_thread E D ?m (Seeing ?tx) w = (Upserting ?tx, ?w2)"
    by (simp add: ts advance_def Let_def assms numeral_3_eq_3)
  have ups: "\<exists>w'. run_thread E D (4 + k) (Upserting ?tx) ?w2 = (Finished, w')
    \<and> mw_tracker w' = mw_tracker (snd (HandleTx E D tx w))
    \<and> mw_store w' = mw_store (snd (HandleTx E D tx w))" for k
  proof (cases "st_UpsertMempoolTx ?S f ?tx (mw_store ?w2)")
    case (Pair e s')
    have H: "HandleTx E D tx w = (case e of
        Some x \<Rightarrow> (Some x, \<lparr>mw_tick = mw_tick w + 3, mw_tracker = mw_tracker ?w2, mw_store = s'\<rparr>)
      | None \<Rightarrow> (None, \<lparr>mw_tick = mw_tick w + 3, mw_tracker = enqueueReceipt (mt_Hash tx) (mw_tracker ?w2),
            mw_store = s'\<rparr>))"
      using Pair by (cases "r = []"; cases e) (simp_all add: HandleTx_def Let_def assms ts)
    let ?w3 = "?w2\<lparr>mw_tick := mw_tick ?w2 + 1, mw_store := s'\<rparr>"
    show ?thesis
    proof (cases e)
      case (Some x)
      have "run_thread E D (4 + k) (Upserting ?tx) ?w2 = (Finished, ?w3)"
        using Pair Some by (simp add: advance_def Let_def assms del: run_thread.simps
            add: run_thread.simps(2) [of E D "3 + k", simplified])
      with H Some show ?thesis by simp
    next
      case None
      have one: "run_thread E D (4 + k) (Upserting ?tx) ?w2
          = run_thread E D (3 + k) (Reserving [mt_Hash tx]) ?w3"
        using Pair None by (simp add: advance_def Let_def assms del: run_thread.simps
            add: run_thread.simps(2) [of E D "3 + k", simplified])
      obtain w' where w': "run_thread E D 3 (Reserving [mt_Hash tx]) ?w3 = (Finished, w')"
        "mw_tracker w' = enqueueReceipt (mt_Hash tx) (mw_tracker ?w3)" "mw_store w' = mw_store ?w3"
        using run_reserving [of E D "[mt_Hash tx]" ?w3] by auto
      have "run_thread E D (3 + k) (Reserving [mt_Hash tx]) ?w3 = (Finished, w')"
        by (rule run_more [OF w'(1)])
      with one w' H None show ?thesis by simp
    qed
  qed
  have "7 = ?m + (4 + (if r \<noteq> '''' then 0 else 2 :: nat))" by simp
  then have "run_thread E D 7 (Seeing ?tx) w
      = run_thread E D (4 + (if r \<noteq> '''' then 0 else 2 :: nat)) (Upserting ?tx) ?w2"
    using seen run_thread_add [of E D ?m "4 + (if r \<noteq> '''' then 0 else 2 :: nat)" "Seeing ?tx" w]
    by (metis (no_types, lifting) case_prod_conv)
  with ups show ?thesis by metis
qed

lemma run_receipt:
  assumes "\<And>t. en_faults E t = f" and "\<And>t. en_now E t = now"
  shows "\<exists>w'. run_thread E D 4 (Fetching h) w = (Finished, w')
    \<and> mw_tracker w' = mw_tracker (handleReceipt E D h w)
    \<and> mw_store w' = mw_store (handleReceipt E D h w)"
  by (auto simp: handleReceipt_def advance_def Let_def assms eval_nat_numeral
      split: option.splits prod.splits)

definition demo_tx :: MempoolTx where
  "demo_tx = \<lparr>mt_ChainID = 1, mt_Hash = ''h'', mt_From = ''f'', mt_To = ''t'', mt_Nonce = 0,
     mt_Value = ''0'', mt_Gas = 0, mt_GasPrice = '''', mt_MaxFeePerGas = '''',
     mt_MaxPriorityFeePerGas = '''', mt_TxType = 0, mt_Input = '''', mt_Status = ''pending'',
     mt_FirstSeenAt = zero_time, mt_LastSeenAt = 0, mt_MinedBlockNumber = 0,
     mt_MinedBlockHash = '''', mt_MinedTxIndex = 0, mt_ReplacedByTxHash = '''',
     mt_InsertedAt = 0, mt_DecodedInputJSON = ''''\<rparr>"

definition demo_mempool :: "db MemSys" where
  "demo_mempool = fresh (NewTracker 0 0 2) empty_db"

lemma demo_tx_simps [simp]:
  "mt_Hash demo_tx = ''h''" "mt_From demo_tx = ''f''" "mt_Nonce demo_tx = 0"
  by (simp_all add: demo_tx_def)

lemma demo_upsert [simp]:
  "fst (st_UpsertMempoolTx sqlite_store no_faults (stamp now demo_tx) s) = None"
  by (simp add: sqlite_store_def sqlite_UpsertMempoolTx_def no_faults_def mem_bind_def bind_u64s_def
      fits_int64_def demo_tx_def known_status_def stamp_def Let_def)

text \<open>The transaction is seen, stored, and its receipt reserved: the goroutine is about to send.\<close>

lemma demo_mempool_run:
  "\<exists>s. ms_reaches (\<lambda>tx. tx = demo_tx) demo_env (demo_deps 2 20) demo_mempool s
    \<and> Offering ''h'' [] \<in># ms_threads s
    \<and> tk_fromNonce (mw_tracker (ms_world s)) ''f:0'' = Some ''h''
    \<and> tk_receiptC (mw_tracker (ms_world s)) = []"
proof -
  let ?w = "ms_world demo_mempool" and ?D = "demo_deps 2 20"
  have "demo_mempool = \<lparr>ms_threads = {#}, ms_world = ?w\<rparr>" by (simp add: demo_mempool_def fresh_def)
  then have h: "ms_reaches (\<lambda>tx. tx = demo_tx) demo_env ?D demo_mempool
      \<lparr>ms_threads = {#Seeing (stamp 0 demo_tx)#}, ms_world = ?w\<rparr>"
    using ms_step.handle [of "\<lambda>tx. tx = demo_tx" demo_tx demo_env ?D "{#}" ?w]
    by (intro next_ [OF here]) simp
  let ?r = "run_thread demo_env ?D 3 (Seeing (stamp 0 demo_tx)) ?w"
  obtain e s1 where up: "st_UpsertMempoolTx sqlite_store no_faults (stamp 0 demo_tx) empty_db = (e, s1)"
    by (metis surj_pair)
  with demo_upsert [of 0 empty_db] have "e = None" by simp
  have "fmtUint64 0 = ''0''" by (simp add: fmtUint64_def)
  then have run: "fst ?r = Offering ''h'' []
    \<and> tk_fromNonce (mw_tracker (snd ?r)) ''f:0'' = Some ''h'' \<and> tk_receiptC (mw_tracker (snd ?r)) = []"
    using up \<open>e = None\<close>
    by (simp add: numeral_3_eq_3 advance_def Let_def track_seen_def demo_mempool_def fresh_def NewTracker_def
        reserve_def fromNonceKey_def)
  have "ms_reaches (\<lambda>tx. tx = demo_tx) demo_env ?D demo_mempool
      \<lparr>ms_threads = {#fst ?r#}, ms_world = snd ?r\<rparr>"
    by (rule reaches_run [OF h, of 3]) simp
  with run show ?thesis by (intro exI [of _ "\<lparr>ms_threads = {#fst ?r#}, ms_world = snd ?r\<rparr>"]) simp
qed

theorem receipts_in_flight_witness:
  "\<exists>s. ms_reaches (\<lambda>tx. tx = demo_tx) demo_env (demo_deps 2 20) demo_mempool s
    \<and> Offering ''h'' [] \<in># ms_threads s
    \<and> tk_receiptC (offer ''h'' (mw_tracker (ms_world s))) = [''h'']"
proof -
  from demo_mempool_run obtain s where s:
    "ms_reaches (\<lambda>tx. tx = demo_tx) demo_env (demo_deps 2 20) demo_mempool s"
    "Offering ''h'' [] \<in># ms_threads s" "tk_receiptC (mw_tracker (ms_world s)) = []" by blast
  from receipts_in_flight [OF s(1) [unfolded demo_mempool_def]] s(2)
  have "tk_receiptC (offer ''h'' (mw_tracker (ms_world s))) = tk_receiptC (mw_tracker (ms_world s)) @ [''h'']"
    unfolding Let_def by blast
  with s show ?thesis by auto
qed



section \<open>The nonce index\<close>

text \<open>\<open>f\<close> gives the sender and the nonce of each hash, which a transaction hash determines.\<close>

definition key_of_hash :: "(string \<Rightarrow> string \<times> u64) \<Rightarrow> string \<Rightarrow> string" where
  "key_of_hash f h = fromNonceKey (fst (f h)) (snd (f h))"

definition index_consistent :: "(string \<Rightarrow> string \<times> u64) \<Rightarrow> Tracker \<Rightarrow> bool" where
  "index_consistent f T \<longleftrightarrow>
     (\<forall>h t. tk_txs T h = Some t \<longrightarrow> tt_Hash t = h \<and> f h = (tt_From t, tt_Nonce t))
     \<and> (\<forall>k h. tk_fromNonce T k = Some h \<longrightarrow> tk_txs T h \<noteq> None \<and> k = key_of_hash f h)"

definition identified :: "(string \<Rightarrow> string \<times> u64) \<Rightarrow> MempoolTx \<Rightarrow> bool" where
  "identified f tx \<longleftrightarrow> f (mt_Hash tx) = (mt_From tx, mt_Nonce tx)"

lemma identified_stamp [simp]: "identified f (stamp now tx) = identified f tx"
  by (simp add: identified_def)

lemma track_seen_index:
  assumes "index_consistent f T" and "identified f tx"
  shows "index_consistent f (snd (track_seen now tx T))"
  using assms
  by (auto simp: index_consistent_def identified_def track_seen_def Let_def key_of_hash_def
      split: option.splits)

lemma set_tracked_index: "index_consistent f T \<Longrightarrow> index_consistent f (set_tracked h st T)"
  by (auto simp: index_consistent_def set_tracked_def split: option.splits)

lemma fold_set_tracked_index:
  "index_consistent f T \<Longrightarrow> index_consistent f (fold (\<lambda>h. set_tracked h st) hs T)"
  by (induction hs arbitrary: T) (simp_all add: set_tracked_index)

lemma index_consistentD:
  assumes "index_consistent f T"
  shows "tk_txs T h = Some t \<Longrightarrow> tt_Hash t = h \<and> f h = (tt_From t, tt_Nonce t)"
    and "tk_fromNonce T k = Some h \<Longrightarrow> \<exists>t. tk_txs T h = Some t"
    and "tk_fromNonce T k = Some h \<Longrightarrow> k = key_of_hash f h"
  using assms by (auto simp: index_consistent_def)

lemma forget_index:
  assumes I: "index_consistent f T"
  shows "index_consistent f (forget h T)"
proof (cases "tk_txs T h")
  case None
  then show ?thesis using I by (simp add: forget_def)
next
  case (Some t)
  let ?key = "fromNonceKey (tt_From t) (tt_Nonce t)"
  have key: "key_of_hash f h = ?key" using index_consistentD(1) [OF I Some] by (simp add: key_of_hash_def)
  have gone: "h' \<noteq> h" if "tk_fromNonce (forget h T) k = Some h'" for k h'
  proof
    assume eq: "h' = h"
    from that Some have "tk_fromNonce T k = Some h'" by (auto simp: forget_def Let_def split: if_splits)
    with eq have "k = ?key" using index_consistentD(3) [OF I] key by simp
    with that eq Some \<open>tk_fromNonce T k = Some h'\<close> show False by (simp add: forget_def Let_def)
  qed
  have old: "tk_fromNonce T k = Some h'" if "tk_fromNonce (forget h T) k = Some h'" for k h'
    using that Some by (auto simp: forget_def Let_def split: if_splits)
  have txs: "tk_txs (forget h T) = (tk_txs T)(h := None)" using Some by (simp add: forget_def Let_def)
  show ?thesis
    unfolding index_consistent_def txs
  proof (intro conjI allI impI)
    fix k h' assume "tk_fromNonce (forget h T) k = Some h'"
    from old [OF this] gone [OF this]
    show "((tk_txs T)(h := None)) h' \<noteq> None" "k = key_of_hash f h'"
      using index_consistentD(2,3) [OF I] by auto
  qed (use index_consistentD(1) [OF I] in \<open>auto split: if_splits\<close>)
qed

lemma frame_index:
  "tk_txs T' = tk_txs T \<Longrightarrow> tk_fromNonce T' = tk_fromNonce T \<Longrightarrow>
   index_consistent f T' = index_consistent f T"
  by (simp add: index_consistent_def)

text \<open>The goroutines hold only transactions whose hash determines sender and nonce.\<close>

fun thread_ok :: "(string \<Rightarrow> string \<times> u64) \<Rightarrow> mthread \<Rightarrow> bool" where
  "thread_ok f (Seeing tx) = identified f tx"
| "thread_ok f _ = True"

definition sys_index_ok :: "(string \<Rightarrow> string \<times> u64) \<Rightarrow> 's MemSys \<Rightarrow> bool" where
  "sys_index_ok f s \<longleftrightarrow> index_consistent f (mw_tracker (ms_world s))
     \<and> (\<forall>th \<in># ms_threads s. thread_ok f th)"

lemma advance_index:
  assumes "advance E D th w = (th', w')" and "index_consistent f (mw_tracker w)" and "thread_ok f th"
  shows "index_consistent f (mw_tracker w') \<and> thread_ok f th'"
proof (cases th)
  case (Seeing tx)
  obtain r T' where ts: "track_seen (mt_LastSeenAt tx) tx (mw_tracker w) = (r, T')" by (metis surj_pair)
  with track_seen_index [OF assms(2), of tx "mt_LastSeenAt tx"] assms(3) Seeing
  have "index_consistent f T'" by simp
  with assms(1) Seeing ts show ?thesis by (auto simp: advance_def Let_def)
next
  case (Reserving hs)
  then show ?thesis
    using assms(1,2) reserve_frame [of "hd hs" "mw_tracker w"]
    by (cases hs) (auto simp: advance_def Let_def split: prod.splits intro: frame_index [THEN iffD2])
next
  case (Dropping hs)
  with assms(1,2) show ?thesis by (cases hs) (auto simp: advance_def Let_def)
next
  case (Offering h hs)
  with assms(1,2) show ?thesis by (auto simp: advance_def Let_def frame frame_index [of "offer h (mw_tracker w)"])
next
  case (Releasing h)
  with assms(1,2) show ?thesis by (auto simp: advance_def Let_def frame frame_index [of "release h (mw_tracker w)"])
qed (use assms(1,2) in \<open>auto simp: advance_def Let_def set_tracked_index forget_index
      split: prod.splits option.splits\<close>)

lemma sys_index_step:
  assumes "ms_step arrives E D s s'" and "sys_index_ok f s" and "\<And>tx. arrives tx \<Longrightarrow> identified f tx"
  shows "sys_index_ok f s'"
  using assms
proof (induction rule: ms_step.induct)
  case (handle tx ths w)
  then show ?case by (simp add: sys_index_ok_def)
next
  case (head keys w ths)
  then show ?case by (simp add: sys_index_ok_def)
next
  case (recv w h q ths)
  then show ?case by (simp add: sys_index_ok_def frame_index [of "mw_tracker w\<lparr>tk_receiptC := q\<rparr>" "mw_tracker w"])
next
  case (sweeps keys w hs T' ths)
  then show ?case by (auto simp: sys_index_ok_def sweep_def Let_def fold_set_tracked_index)
next
  case (move th w th' w' ths)
  then have "index_consistent f (mw_tracker w)" "thread_ok f th" "\<forall>th \<in># ths. thread_ok f th"
    by (simp_all add: sys_index_ok_def)
  with advance_index [OF move(1)] show ?case by (simp add: sys_index_ok_def)
qed

lemma sys_index_reaches:
  assumes "ms_reaches arrives E D s s'" and "sys_index_ok f s" and "\<And>tx. arrives tx \<Longrightarrow> identified f tx"
  shows "sys_index_ok f s'"
  using assms(1,2) by (induction rule: ms_reaches.induct) (blast intro: sys_index_step [OF _ _ assms(3)])+

text \<open>
  The nonce index never dangles.  Over all interleavings of the goroutines, as long as a
  transaction hash determines sender and nonce, every entry of \<open>fromNonce\<close> names a transaction
  that is still tracked and that has the sender and nonce of its key.
\<close>

theorem nonce_index_consistent:
  assumes "ms_reaches arrives E D (fresh (NewTracker ttl rw mi) s0) s"
    and "\<And>tx. arrives tx \<Longrightarrow> f (mt_Hash tx) = (mt_From tx, mt_Nonce tx)"
    and "tk_fromNonce (mw_tracker (ms_world s)) k = Some h"
  shows "\<exists>t. tk_txs (mw_tracker (ms_world s)) h = Some t \<and> tt_Hash t = h
    \<and> k = fromNonceKey (tt_From t) (tt_Nonce t)"
proof -
  have "sys_index_ok f (fresh (NewTracker ttl rw mi) s0)"
    by (simp add: sys_index_ok_def fresh_def NewTracker_def Let_def index_consistent_def)
  from sys_index_reaches [OF assms(1) this] assms(2)
  have "index_consistent f (mw_tracker (ms_world s))"
    by (simp add: sys_index_ok_def identified_def)
  note I = index_consistentD [OF this]
  from I(2) [OF assms(3)] obtain t where t: "tk_txs (mw_tracker (ms_world s)) h = Some t" by blast
  with I(1) [OF t] I(3) [OF assms(3)] show ?thesis by (simp add: key_of_hash_def)
qed

theorem nonce_index_consistent_witness:
  "\<exists>s t. ms_reaches (\<lambda>tx. tx = demo_tx) demo_env (demo_deps 2 20) demo_mempool s
    \<and> tk_txs (mw_tracker (ms_world s)) ''h'' = Some t \<and> ''f:0'' = fromNonceKey (tt_From t) (tt_Nonce t)"
proof -
  from demo_mempool_run obtain s where s:
    "ms_reaches (\<lambda>tx. tx = demo_tx) demo_env (demo_deps 2 20) demo_mempool s"
    "tk_fromNonce (mw_tracker (ms_world s)) ''f:0'' = Some ''h''" by blast
  from nonce_index_consistent [OF s(1) [unfolded demo_mempool_def] _ s(2), of "\<lambda>_. (''f'', 0)"] s(1)
  show ?thesis by auto
qed

end
