(* ===== verification/Tracker_Life.thy ===== *)
theory Tracker_Life
  imports Tracker_Correct
begin

text \<open>
  The life of a pending transaction, as the handlers of the tracker run one after the other:
  seen, replaced by another transaction with its sender and nonce, mined, or dropped.  The lemmas
  on the store are proved from the contract of the mempool table.
\<close>

section \<open>Events\<close>

datatype mem_event = SeeTx MempoolTx | NewHead "string list" Head | TakeReceipt | SweepNow "string list"

definition mem_handle :: "'v Env \<Rightarrow> 's Deps \<Rightarrow> mem_event \<Rightarrow> 's MemWorld \<Rightarrow> 's MemWorld" where
  "mem_handle E D ev w = (case ev of
     SeeTx tx \<Rightarrow> snd (HandleTx E D tx w)
   | NewHead keys head \<Rightarrow> w\<lparr>mw_tracker := OnHead keys head (mw_tracker w)\<rparr>
   | TakeReceipt \<Rightarrow> receiptWorker E D w
   | SweepNow keys \<Rightarrow> dropExpired E D keys w)"

section \<open>One pending transaction per sender and nonce\<close>

definition one_pending :: "(string \<Rightarrow> string \<times> u64) \<Rightarrow> Tracker \<Rightarrow> bool" where
  "one_pending f T \<longleftrightarrow> index_consistent f T \<and> tk_txs T '''' = None
     \<and> (\<forall>h. is_status ''pending'' T h \<longrightarrow> tk_fromNonce T (key_of_hash f h) = Some h)"

lemma one_pendingD:
  assumes "one_pending f T"
  shows "index_consistent f T" and "tk_txs T [] = None"
    and "is_status ''pending'' T h \<Longrightarrow> tk_fromNonce T (key_of_hash f h) = Some h"
  using assms by (auto simp: one_pending_def)

lemma one_pending_frame:
  "tk_txs T' = tk_txs T \<Longrightarrow> tk_fromNonce T' = tk_fromNonce T \<Longrightarrow> one_pending f T' = one_pending f T"
  by (simp add: one_pending_def index_consistent_def is_status_def)

lemma is_status_set_tracked:
  "is_status st (set_tracked r st' T) h \<longleftrightarrow>
     (if h = r then tk_txs T h \<noteq> None \<and> st = st' else is_status st T h)"
  by (auto simp: is_status_def set_tracked_def split: option.splits)

lemma set_tracked_dom: "tk_txs (set_tracked r st T) h = None \<longleftrightarrow> tk_txs T h = None"
  by (auto simp: set_tracked_def split: option.splits)

lemma one_pending_set_tracked:
  assumes "one_pending f T" and "st \<noteq> ''pending''"
  shows "one_pending f (set_tracked h st T)"
  using assms by (auto simp: one_pending_def set_tracked_index set_tracked_dom frame is_status_set_tracked)

lemma one_pending_fold:
  "one_pending f T \<Longrightarrow> st \<noteq> ''pending'' \<Longrightarrow> one_pending f (fold (\<lambda>h. set_tracked h st) hs T)"
  by (induction hs arbitrary: T) (simp_all add: one_pending_set_tracked)

lemma enqueueReceipt_frame [frame]:
  "tk_txs (enqueueReceipt h T) = tk_txs T" "tk_fromNonce (enqueueReceipt h T) = tk_fromNonce T"
  "tk_maxInflight (enqueueReceipt h T) = tk_maxInflight T" "tk_droppedTTL (enqueueReceipt h T) = tk_droppedTTL T"
  by (simp_all add: enqueueReceipt_def reserve_def offer_def)

lemma scheduleReceipts_frame [frame]:
  "tk_txs (scheduleReceipts keys T) = tk_txs T" "tk_fromNonce (scheduleReceipts keys T) = tk_fromNonce T"
proof -
  have "tk_txs (fold enqueueReceipt hs T) = tk_txs T \<and> tk_fromNonce (fold enqueueReceipt hs T) = tk_fromNonce T"
    for hs by (induction hs arbitrary: T) (simp_all add: frame)
  then show "tk_txs (scheduleReceipts keys T) = tk_txs T"
    "tk_fromNonce (scheduleReceipts keys T) = tk_fromNonce T" by (simp_all add: scheduleReceipts_def)
qed

lemma one_pending_same [simp]:
  "one_pending f (enqueueReceipt h T) = one_pending f T"
  "one_pending f (scheduleReceipts keys T) = one_pending f T"
  "one_pending f (release h T) = one_pending f T"
  "one_pending f (T\<lparr>tk_receiptC := q\<rparr>) = one_pending f T"
  by (rule one_pending_frame; simp add: frame)+

lemma forget_txs: "tk_txs (forget h T) = (tk_txs T)(h := None)"
  by (auto simp: forget_def Let_def fun_eq_iff split: option.splits)

lemma one_pending_forget:
  assumes P: "one_pending f T"
  shows "one_pending f (forget h T)"
proof (cases "tk_txs T h")
  case None
  with P show ?thesis by (simp add: forget_def)
next
  case (Some t)
  have txs: "tk_txs (forget h T) = (tk_txs T)(h := None)" using Some by (simp add: forget_def Let_def)
  have keep: "tk_fromNonce T k = Some h' \<Longrightarrow> h' \<noteq> h \<Longrightarrow> tk_fromNonce (forget h T) k = Some h'" for k h'
    using Some by (auto simp: forget_def Let_def)
  have "is_status ''pending'' T h' \<and> h' \<noteq> h" if "is_status ''pending'' (forget h T) h'" for h'
    using that by (auto simp: is_status_def txs split: if_splits)
  then have "tk_fromNonce (forget h T) (key_of_hash f h') = Some h'" if "is_status ''pending'' (forget h T) h'" for h'
    using that keep one_pendingD(3) [OF P] by blast
  then show ?thesis
    using forget_index [OF one_pendingD(1) [OF P]] one_pendingD(2) [OF P] by (simp add: one_pending_def txs)
qed

text \<open>The tracker after the critical sections of \<open>HandleTx\<close>, before the hash is queued.\<close>

definition after_seen :: "time \<Rightarrow> MempoolTx \<Rightarrow> Tracker \<Rightarrow> Tracker" where
  "after_seen now tx T = (case track_seen now tx T of (r, T1) \<Rightarrow>
     if r \<noteq> '''' then set_tracked r ''replaced'' T1 else T1)"

lemma one_pending_seen:
  assumes P: "one_pending f T" and tx: "identified f tx" "mt_Hash tx \<noteq> []"
  shows "one_pending f (after_seen now tx T)"
proof -
  let ?key = "fromNonceKey (mt_From tx) (mt_Nonce tx)" and ?h = "mt_Hash tx"
  obtain r T1 where ts: "track_seen now tx T = (r, T1)" by (metis surj_pair)
  let ?T2 = "after_seen now tx T"
  have key: "key_of_hash f ?h = ?key" using tx(1) by (simp add: key_of_hash_def identified_def)
  have I: "index_consistent f T1" using track_seen_index [OF one_pendingD(1) [OF P] tx(1), of now] ts by simp
  have T1: "tk_fromNonce T1 = (tk_fromNonce T)(?key \<mapsto> ?h)" "tk_txs T1 h' = tk_txs T h'" if "h' \<noteq> ?h" for h'
    using ts that by (auto simp: track_seen_def Let_def)
  have I2: "index_consistent f ?T2" using I by (simp add: after_seen_def ts set_tracked_index)
  have fn: "tk_fromNonce ?T2 = (tk_fromNonce T)(?key \<mapsto> ?h)"
    using ts by (auto simp: after_seen_def frame) (auto simp: track_seen_def Let_def)
  have emp: "tk_txs ?T2 [] = None"
    using T1(2) [of "[]"] tx(2) one_pendingD(2) [OF P]
    by (auto simp: after_seen_def ts set_tracked_dom)
  have "tk_fromNonce ?T2 (key_of_hash f h') = Some h'" if p: "is_status ''pending'' ?T2 h'" for h'
  proof (cases "h' = ?h")
    case True
    then show ?thesis by (simp add: fn key)
  next
    case False
    have "h' \<noteq> r \<or> r = []" using p by (auto simp: after_seen_def ts is_status_set_tracked split: if_splits)
    moreover have "h' \<noteq> []" using p emp by (auto simp: is_status_def)
    ultimately have nr: "h' \<noteq> r" by blast
    with p have "is_status ''pending'' T1 h'"
      by (auto simp: after_seen_def ts is_status_set_tracked split: if_splits)
    with False T1(2) have "is_status ''pending'' T h'" by (simp add: is_status_def)
    from one_pendingD(3) [OF P this] have old: "tk_fromNonce T (key_of_hash f h') = Some h'" .
    have "key_of_hash f h' \<noteq> ?key"
      using old nr False ts by (auto simp: track_seen_def Let_def)
    with old show ?thesis by (simp add: fn)
  qed
  with I2 emp show ?thesis by (simp add: one_pending_def)
qed

lemma HandleTx_tracker:
  "mw_tracker (snd (HandleTx E D tx w)) =
     (let now = en_now E (mw_tick w); T2 = after_seen now (stamp now tx) (mw_tracker w) in
      case fst (HandleTx E D tx w) of None \<Rightarrow> enqueueReceipt (mt_Hash tx) T2 | Some e \<Rightarrow> T2)"
  by (auto simp: HandleTx_def after_seen_def Let_def split: prod.splits option.splits)

lemma HandleTx_maps:
  "tk_txs (mw_tracker (snd (HandleTx E D tx w)))
     = tk_txs (after_seen (en_now E (mw_tick w)) (stamp (en_now E (mw_tick w)) tx) (mw_tracker w))"
  "tk_fromNonce (mw_tracker (snd (HandleTx E D tx w)))
     = tk_fromNonce (after_seen (en_now E (mw_tick w)) (stamp (en_now E (mw_tick w)) tx) (mw_tracker w))"
  by (simp_all add: HandleTx_tracker Let_def frame split: option.splits)

text \<open>The effect of \<open>handleReceipt\<close> on the tracker: nothing, or the hash is forgotten.\<close>

lemma handleReceipt_tracker:
  "mw_tracker (handleReceipt E D h w) = release h (mw_tracker w)
   \<or> mw_tracker (handleReceipt E D h w) = release h (forget h (mw_tracker w))"
  by (auto simp: handleReceipt_def Let_def split: option.splits prod.splits)

lemma dropExpired_tracker:
  "mw_tracker (dropExpired E D keys w) =
     fold (\<lambda>h. set_tracked h ''dropped'') (expired (en_now E (mw_tick w) - tk_droppedTTL (mw_tracker w)) keys
       (mw_tracker w)) (mw_tracker w)"
  by (simp add: dropExpired_def Let_def split: prod.splits)

lemma dropExpired_rows:
  "\<exists>t'. drop_rows E D (expired (en_now E (mw_tick w) - tk_droppedTTL (mw_tracker w)) keys (mw_tracker w))
     (mw_tick w + 1) (mw_store w) = (t', mw_store (dropExpired E D keys w))"
  by (cases "drop_rows E D (expired (en_now E (mw_tick w) - tk_droppedTTL (mw_tracker w)) keys (mw_tracker w))
     (mw_tick w + 1) (mw_store w)") (simp add: dropExpired_def Let_def)

lemma one_pending_handle:
  assumes "one_pending f (mw_tracker w)"
    and "\<And>tx. ev = SeeTx tx \<Longrightarrow> identified f tx \<and> mt_Hash tx \<noteq> []"
  shows "one_pending f (mw_tracker (mem_handle E D ev w))"
proof (cases ev)
  case (SeeTx tx)
  with assms(2) have tx: "identified f (stamp now tx)" "mt_Hash (stamp now tx) \<noteq> []" for now by auto
  from one_pending_seen [OF assms(1) tx] show ?thesis
    by (simp add: mem_handle_def SeeTx HandleTx_tracker Let_def split: option.splits)
next
  case (NewHead keys head)
  with assms(1) show ?thesis by (simp add: mem_handle_def OnHead_def)
next
  case TakeReceipt
  show ?thesis
  proof (cases "tk_receiptC (mw_tracker w)")
    case Nil
    with TakeReceipt assms(1) show ?thesis by (simp add: mem_handle_def receiptWorker_def)
  next
    case (Cons h q)
    let ?w = "w\<lparr>mw_tracker := (mw_tracker w)\<lparr>tk_receiptC := q\<rparr>\<rparr>"
    have "one_pending f (mw_tracker ?w)" using assms(1) by simp
    then have "one_pending f (mw_tracker (handleReceipt E D h ?w))"
      using handleReceipt_tracker [of E D h ?w] one_pending_forget by (elim disjE) simp_all
    with TakeReceipt Cons show ?thesis by (simp add: mem_handle_def receiptWorker_def)
  qed
next
  case (SweepNow keys)
  with assms(1) show ?thesis by (simp add: mem_handle_def dropExpired_tracker one_pending_fold)
qed

lemma one_pending_run:
  "one_pending f (mw_tracker w) \<Longrightarrow>
   (\<And>tx. SeeTx tx \<in> set evs \<Longrightarrow> identified f tx \<and> mt_Hash tx \<noteq> []) \<Longrightarrow>
   one_pending f (mw_tracker (fold (mem_handle E D) evs w))"
proof (induction evs arbitrary: w)
  case (Cons ev evs)
  have "one_pending f (mw_tracker (mem_handle E D ev w))"
    by (rule one_pending_handle [OF Cons.prems(1)]) (use Cons.prems(2) in auto)
  from Cons.IH [OF this] Cons.prems(2) show ?case by simp
qed simp

lemma one_pending_unique:
  assumes P: "one_pending f T"
    and "tk_txs T h = Some t" and "tt_Status t = ''pending''" and "tk_txs T h' = Some t'"
    and "tt_Status t' = ''pending''" and "tt_From t = tt_From t'" and "tt_Nonce t = tt_Nonce t'"
  shows "h = h'"
proof -
  note I = index_consistentD(1) [OF one_pendingD(1) [OF P]]
  from I [OF assms(2)] I [OF assms(4)] assms(6,7) have "key_of_hash f h = key_of_hash f h'"
    by (simp add: key_of_hash_def)
  moreover have "is_status ''pending'' T h" "is_status ''pending'' T h'"
    using assms(2-5) by (simp_all add: is_status_def)
  ultimately show ?thesis using one_pendingD(3) [OF P] by (metis option.inject)
qed

text \<open>A transaction with the sender and nonce of \<open>demo_tx\<close>, at a higher price.\<close>

definition demo_speedup :: MempoolTx where
  "demo_speedup = demo_tx\<lparr>mt_Hash := ''i'', mt_GasPrice := ''9''\<rparr>"

text \<open>
  C22. One pending transaction per sender and nonce.  When the handlers run one after the other,
  whatever the store and the node answer, the tracker never has two different transactions
  pending with the same sender and nonce: the one seen first has become replaced.
\<close>

theorem one_pending_per_nonce:
  assumes "\<And>tx. SeeTx tx \<in> set evs \<Longrightarrow> f (mt_Hash tx) = (mt_From tx, mt_Nonce tx) \<and> mt_Hash tx \<noteq> ''''"
    and "T = mw_tracker (fold (mem_handle E D) evs (ms_world (fresh (NewTracker ttl rw mi) s0)))"
    and "tk_txs T h = Some t" and "tt_Status t = ''pending''"
    and "tk_txs T h' = Some t'" and "tt_Status t' = ''pending''"
    and "tt_From t = tt_From t'" and "tt_Nonce t = tt_Nonce t'"
  shows "h = h'"
proof -
  have "one_pending f (mw_tracker (ms_world (fresh (NewTracker ttl rw mi) s0)))"
    by (simp add: one_pending_def index_consistent_def fresh_def NewTracker_def Let_def is_status_def)
  from one_pending_run [OF this, of evs E D] assms(1,2) have P: "one_pending f T"
    by (simp add: identified_def)
  show ?thesis by (rule one_pending_unique [OF P assms(3-8)])
qed

theorem one_pending_per_nonce_witness:
  "\<exists>T t t'. T = mw_tracker (fold (mem_handle demo_env (demo_deps 2 20)) [SeeTx demo_tx, SeeTx demo_speedup]
        (ms_world (fresh (NewTracker 0 0 2) empty_db)))
    \<and> tk_txs T ''h'' = Some t \<and> tk_txs T ''i'' = Some t'
    \<and> \<not> (tt_Status t = ''pending'' \<and> tt_Status t' = ''pending'')"
proof -
  let ?T = "mw_tracker (fold (mem_handle demo_env (demo_deps 2 20)) [SeeTx demo_tx, SeeTx demo_speedup]
        (ms_world (fresh (NewTracker 0 0 2) empty_db)))"
  obtain t t' where t: "tk_txs ?T ''h'' = Some t" "tk_txs ?T ''i'' = Some t'" "tt_From t = tt_From t'"
    "tt_Nonce t = tt_Nonce t'"
    by (simp add: mem_handle_def HandleTx_maps after_seen_def track_seen_def demo_speedup_def Let_def
        fresh_def NewTracker_def set_tracked_def)
  have "\<not> (tt_Status t = ''pending'' \<and> tt_Status t' = ''pending'')"
  proof -
    have "\<And>tx. SeeTx tx \<in> set [SeeTx demo_tx, SeeTx demo_speedup] \<Longrightarrow>
        (\<lambda>_. (''f'', 0)) (mt_Hash tx) = (mt_From tx, mt_Nonce tx) \<and> mt_Hash tx \<noteq> ''''"
      by (auto simp: demo_speedup_def)
    from one_pending_per_nonce [OF this refl t(1) _ t(2) _ t(3,4)] show ?thesis by auto
  qed
  with t show ?thesis by blast
qed

section \<open>The handlers and the table\<close>

text \<open>The node reports the transaction in a block, and the store accepts the mark.\<close>

definition mined_now :: "'v Env \<Rightarrow> 's Deps \<Rightarrow> string \<Rightarrow> 's MemWorld \<Rightarrow> bool" where
  "mined_now E D h w = (case mined_info (rpc_GetTransactionReceipt (dp_RPC D) (mw_tick w) h) of
     None \<Rightarrow> False
   | Some mi \<Rightarrow> fst (st_MarkMempoolMined (dp_Store D) (en_faults E (mw_tick w + 1)) (en_now E (mw_tick w + 1))
       h mi (mw_store w)) = None)"

context mempool_store begin

lemma handle_store:
  assumes "minv (mw_store w)" and "dp_Store D = S" and "HandleTx E D tx w = (None, w')"
    and ts: "track_seen (en_now E (mw_tick w)) (stamp (en_now E (mw_tick w)) tx) (mw_tracker w) = (r, T1)"
  shows "minv (mw_store w')" and "statusv (mw_store w') (mt_Hash tx) = Some ''pending''"
    and "h \<noteq> mt_Hash tx \<Longrightarrow> h \<noteq> r \<Longrightarrow> statusv (mw_store w') h = statusv (mw_store w) h"
    and "r \<noteq> '''' \<Longrightarrow> r \<noteq> mt_Hash tx \<Longrightarrow> statusv (mw_store w) r \<noteq> None \<Longrightarrow>
      (\<And>s. fst (st_MarkMempoolReplaced S (en_faults E (mw_tick w + 1)) (en_now E (mw_tick w + 1)) r (mt_Hash tx) s) = None) \<Longrightarrow>
      statusv (mw_store w') r = Some ''replaced'' \<and> replv (mw_store w') r = Some (mt_Hash tx)"
proof -
  let ?t = "mw_tick w" and ?h = "mt_Hash tx"
  let ?tx = "stamp (en_now E ?t) tx"
  let ?m = "st_MarkMempoolReplaced S (en_faults E (?t + 1)) (en_now E (?t + 1)) r ?h (mw_store w)"
  let ?s1 = "if r \<noteq> '''' then snd ?m else mw_store w"
  from assms(2,3) ts have up: "st_UpsertMempoolTx S (en_faults E (?t + 2)) ?tx ?s1 = (None, mw_store w')"
    by (auto simp: HandleTx_def Let_def split: if_splits prod.splits option.splits)
  obtain e s1 where m: "?m = (e, s1)" by (metis surj_pair)
  have mi: "minv ?s1" using replaced_minv [OF assms(1) m] assms(1) m by simp
  have rest: "statusv ?s1 h = statusv (mw_store w) h" if "h \<noteq> r" for h
    using m replaced_ok [OF assms(1)] replaced_err [OF assms(1)] that
    by (cases e) (fastforce simp: set_status_def)+
  note U = upsert_ok [OF mi up]
  show "minv (mw_store w')" "statusv (mw_store w') ?h = Some ''pending''" using U by simp_all
  show "statusv (mw_store w') h = statusv (mw_store w) h" if "h \<noteq> ?h" "h \<noteq> r" using U rest that by simp
  assume a: "r \<noteq> ''''" "r \<noteq> ?h" "statusv (mw_store w) r \<noteq> None"
    "\<And>s. fst (st_MarkMempoolReplaced S (en_faults E (?t + 1)) (en_now E (?t + 1)) r ?h s) = None"
  from a(4) [of "mw_store w"] m have "?m = (None, s1)" by simp
  from replaced_ok [OF assms(1) this] a(3)
  have s1: "statusv s1 r = Some ''replaced''" "replv s1 r = Some ?h" by (simp_all add: set_status_def)
  with upsert_replv [OF mi up, of r] U a(1,2) m
  show "statusv (mw_store w') r = Some ''replaced'' \<and> replv (mw_store w') r = Some ?h" by simp
qed

lemma receipt_store:
  assumes "minv (mw_store w)" and "dp_Store D = S"
  shows "minv (mw_store (handleReceipt E D h w))"
    and "if mined_now E D h w
         then statusv (mw_store (handleReceipt E D h w)) = set_status h ''mined'' (statusv (mw_store w))
            \<and> mw_tracker (handleReceipt E D h w) = release h (forget h (mw_tracker w))
         else statusv (mw_store (handleReceipt E D h w)) = statusv (mw_store w)
            \<and> mw_tracker (handleReceipt E D h w) = release h (mw_tracker w)"
  using assms mined_minv [OF assms(1)] mined_ok [OF assms(1)] mined_err [OF assms(1)]
  by (fastforce simp: handleReceipt_def mined_now_def Let_def split: option.splits prod.splits)+

lemma drop_rows_store:
  assumes "minv s" and "dp_Store D = S" and "drop_rows E D hs t s = (t', s')"
  shows "minv s' \<and> (\<forall>h. h \<notin> set hs \<longrightarrow> statusv s' h = statusv s h)"
  using assms
proof (induction hs arbitrary: t s)
  case (Cons h hs)
  let ?m = "st_MarkMempoolDropped S (en_faults E t) (en_now E t) h s"
  obtain e s1 where m: "?m = (e, s1)" by (metis surj_pair)
  note i = dropped_minv [OF Cons.prems(1) m]
  have "statusv s1 h' = statusv s h'" if "h' \<noteq> h" for h'
    using m dropped_ok [OF Cons.prems(1)] dropped_err [OF Cons.prems(1)] that
    by (cases e) (fastforce simp: set_status_def)+
  with Cons.IH [OF i Cons.prems(2), of "t + 1"] Cons.prems(2,3) m show ?case by simp
qed simp

lemma drop_rows_dropped:
  assumes "minv s" and "dp_Store D = S" and "drop_rows E D hs t s = (t', s')"
    and ok: "\<And>t h s. fst (st_MarkMempoolDropped S (en_faults E t) (en_now E t) h s) = None"
    and "h \<in> set hs" and "statusv s h \<noteq> None"
  shows "statusv s' h = Some ''dropped''"
  using assms(1,2,3,5,6)
proof (induction hs arbitrary: t s)
  case (Cons g hs)
  let ?m = "st_MarkMempoolDropped S (en_faults E t) (en_now E t) g s"
  obtain s1 where m: "?m = (None, s1)" using ok [of t g s] by (metis prod.collapse)
  from dropped_ok [OF Cons.prems(1) m] have i: "minv s1" "statusv s1 = set_status g ''dropped'' (statusv s)"
    by auto
  have run: "drop_rows E D hs (t + 1) s1 = (t', s')" using Cons.prems(2,3) m by simp
  have "statusv s1 h \<noteq> None" using i(2) Cons.prems(5) by (simp add: set_status_def)
  show ?case
  proof (cases "h \<in> set hs")
    case True
    from Cons.IH [OF i(1) Cons.prems(2) run True] i(2) Cons.prems(5) show ?thesis by (simp add: set_status_def)
  next
    case False
    with Cons.prems(4) have "h = g" by simp
    with drop_rows_store [OF i(1) Cons.prems(2) run] False i(2) Cons.prems(5) show ?thesis
      by (simp add: set_status_def)
  qed
qed simp

end

text \<open>On a database that does not fail, the marks succeed.\<close>

lemma marks_succeed:
  assumes "a_store S" and "\<And>i. f i = None"
  shows "fst (st_MarkMempoolReplaced S f now h b s) = None" and "fst (st_MarkMempoolDropped S f now h s) = None"
  using assms
  by (auto simp: a_store_def sqlite_store_def pg_store_def sqlite_MarkMempoolReplaced_def
      pg_MarkMempoolReplaced_def sqlite_MarkMempoolDropped_def pg_MarkMempoolDropped_def split: option.splits)


lemma demo_upsert2 [simp]:
  "fst (st_UpsertMempoolTx sqlite_store no_faults (stamp now demo_speedup) s) = None"
  by (simp add: sqlite_store_def sqlite_UpsertMempoolTx_def no_faults_def mem_bind_def bind_u64s_def
      fits_int64_def demo_speedup_def demo_tx_def known_status_def stamp_def Let_def)

lemma HandleTx_fst:
  "(\<And>s. fst (st_UpsertMempoolTx (dp_Store D) (en_faults E (mw_tick w + 2)) (stamp (en_now E (mw_tick w)) tx) s) = None)
   \<Longrightarrow> fst (HandleTx E D tx w) = None"
  by (auto simp: HandleTx_def Let_def split: prod.splits option.splits) (metis fst_conv option.distinct(1))+

definition demo_seen :: "db MemWorld" where
  "demo_seen = snd (HandleTx demo_env (demo_deps 2 20) demo_tx (ms_world demo_mempool))"

lemma demo_seen_facts:
  "db_minv (mw_store demo_seen)" "db_status (mw_store demo_seen) ''h'' = Some ''pending''"
  "tk_fromNonce (mw_tracker demo_seen) (fromNonceKey ''f'' 0) = Some ''h''"
  "tk_txs (mw_tracker demo_seen) ''h'' = Some \<lparr>tt_Hash = ''h'', tt_From = ''f'', tt_Nonce = 0,
     tt_FirstSeen = 0, tt_LastSeen = 0, tt_Status = ''pending''\<rparr>"
  "tk_droppedTTL (mw_tracker demo_seen) = 600000000000"
proof -
  let ?w = "ms_world demo_mempool" and ?D = "demo_deps 2 20"
  have S: "dp_Store ?D = sqlite_store" by simp
  have "fst (HandleTx demo_env ?D demo_tx ?w) = None" by (rule HandleTx_fst) simp
  then have H: "HandleTx demo_env ?D demo_tx ?w = (None, demo_seen)"
    by (simp add: demo_seen_def prod_eq_iff)
  have i: "db_minv (mw_store ?w)"
    by (simp add: demo_mempool_def fresh_def db_view_defs empty_db_def mem_ok_def)
  obtain r T1 where ts: "track_seen (en_now demo_env (mw_tick ?w)) (stamp (en_now demo_env (mw_tick ?w)) demo_tx)
      (mw_tracker ?w) = (r, T1)" by (metis surj_pair)
  from sqlite_mem.handle_store(1,2) [OF i S H ts]
  show "db_minv (mw_store demo_seen)" "db_status (mw_store demo_seen) ''h'' = Some ''pending''" by simp_all
  show "tk_fromNonce (mw_tracker demo_seen) (fromNonceKey ''f'' 0) = Some ''h''"
    "tk_txs (mw_tracker demo_seen) ''h'' = Some \<lparr>tt_Hash = ''h'', tt_From = ''f'', tt_Nonce = 0,
      tt_FirstSeen = 0, tt_LastSeen = 0, tt_Status = ''pending''\<rparr>"
    by (simp_all add: demo_seen_def HandleTx_maps after_seen_def track_seen_def Let_def demo_mempool_def
        fresh_def NewTracker_def) (simp add: stamp_def demo_tx_def Let_def)
  show "tk_droppedTTL (mw_tracker demo_seen) = 600000000000"
    by (simp add: demo_seen_def HandleTx_tracker after_seen_def Let_def frame demo_mempool_def fresh_def
        NewTracker_def track_seen_def split: option.splits)
qed


text \<open>
  C31. What a receipt decides.  \<open>handleReceipt\<close> takes the hash out of flight on every path.  If
  the node reports it in a block and the store accepts the mark, then the row (if there is one) is
  mined and the tracker forgets the transaction; otherwise its status and its entry are as they
  were.  No other row changes status, and no other transaction is forgotten.
\<close>

theorem receipt_outcome:
  assumes "a_store (dp_Store D)" and "db_minv (mw_store w)"
  shows "h \<notin> tk_inflight (mw_tracker (handleReceipt E D h w))
    \<and> (\<forall>h'. h' \<noteq> h \<longrightarrow> db_status (mw_store (handleReceipt E D h w)) h' = db_status (mw_store w) h'
          \<and> tk_txs (mw_tracker (handleReceipt E D h w)) h' = tk_txs (mw_tracker w) h')
    \<and> (if mined_now E D h w
       then tk_txs (mw_tracker (handleReceipt E D h w)) h = None
         \<and> db_status (mw_store (handleReceipt E D h w)) h
             = (if db_status (mw_store w) h = None then None else Some ''mined'')
       else tk_txs (mw_tracker (handleReceipt E D h w)) h = tk_txs (mw_tracker w) h
         \<and> db_status (mw_store (handleReceipt E D h w)) h = db_status (mw_store w) h)"
proof -
  have two: "if mined_now E D h w
       then db_status (mw_store (handleReceipt E D h w)) = set_status h ''mined'' (db_status (mw_store w))
          \<and> mw_tracker (handleReceipt E D h w) = release h (forget h (mw_tracker w))
       else db_status (mw_store (handleReceipt E D h w)) = db_status (mw_store w)
          \<and> mw_tracker (handleReceipt E D h w) = release h (mw_tracker w)"
    using assms(1) sqlite_mem.receipt_store(2) [OF assms(2), of D E h] pg_mem.receipt_store(2) [OF assms(2), of D E h]
    unfolding a_store_def by blast
  show ?thesis
  proof (cases "mined_now E D h w")
    case True
    with two show ?thesis by (simp add: frame forget_txs set_status_def) (simp add: release_def)
  next
    case False
    with two show ?thesis by (simp add: frame) (simp add: release_def)
  qed
qed

text \<open>
  Dropping.  A sweep marks as dropped, in the tracker, exactly the visited transactions that
  are pending and were first seen before the time-out; no other entry, no nonce and no receipt in
  flight changes.  If the database does not fail, the rows of those become dropped, and no other
  row changes status even if it does.
\<close>

theorem sweep_drops:
  assumes "a_store (dp_Store D)" and "db_minv (mw_store w)"
    and "cutoff = en_now E (mw_tick w) - tk_droppedTTL (mw_tracker w)"
  shows "(\<forall>h. tk_txs (mw_tracker (dropExpired E D keys w)) h =
        (case tk_txs (mw_tracker w) h of None \<Rightarrow> None
         | Some t \<Rightarrow> Some (if h \<in> set keys \<and> tt_Status t = ''pending'' \<and> tt_FirstSeen t < cutoff
             then t\<lparr>tt_Status := ''dropped''\<rparr> else t)))
    \<and> tk_fromNonce (mw_tracker (dropExpired E D keys w)) = tk_fromNonce (mw_tracker w)
    \<and> tk_inflight (mw_tracker (dropExpired E D keys w)) = tk_inflight (mw_tracker w)
    \<and> (\<forall>h. h \<notin> set (expired cutoff keys (mw_tracker w)) \<longrightarrow>
        db_status (mw_store (dropExpired E D keys w)) h = db_status (mw_store w) h)
    \<and> ((\<forall>t i. en_faults E t i = None) \<longrightarrow>
        (\<forall>h \<in> set (expired cutoff keys (mw_tracker w)). db_status (mw_store w) h \<noteq> None \<longrightarrow>
          db_status (mw_store (dropExpired E D keys w)) h = Some ''dropped''))"
proof -
  let ?T = "mw_tracker w" and ?hs = "expired cutoff keys (mw_tracker w)" and ?w' = "dropExpired E D keys w"
  have tr: "mw_tracker ?w' = fold (\<lambda>h. set_tracked h ''dropped'') ?hs ?T"
    by (simp add: dropExpired_tracker assms(3))
  have fold_txs: "tk_txs (fold (\<lambda>h. set_tracked h ''dropped'') hs T) h =
      (case tk_txs T h of None \<Rightarrow> None
       | Some t \<Rightarrow> Some (if h \<in> set hs then t\<lparr>tt_Status := ''dropped''\<rparr> else t))" for hs T h
    by (induction hs arbitrary: T) (auto simp: set_tracked_def split: option.splits)
  obtain t' where dr: "drop_rows E D ?hs (mw_tick w + 1) (mw_store w) = (t', mw_store ?w')"
    using dropExpired_rows [of E D w keys] assms(3) by auto
  have keep: "db_status (mw_store ?w') h = db_status (mw_store w) h" if "h \<notin> set ?hs" for h
    using that assms(1) sqlite_mem.drop_rows_store [OF assms(2) _ dr] pg_mem.drop_rows_store [OF assms(2) _ dr]
    unfolding a_store_def by blast
  have "db_status (mw_store ?w') h = Some ''dropped''"
    if "\<forall>t i. en_faults E t i = None" "h \<in> set ?hs" "db_status (mw_store w) h \<noteq> None" for h
  proof -
    have ok: "\<And>t h s. fst (st_MarkMempoolDropped (dp_Store D) (en_faults E t) (en_now E t) h s) = None"
      using marks_succeed(2) [OF assms(1)] that(1) by blast
    from assms(1) consider "dp_Store D = sqlite_store" | "dp_Store D = pg_store" by (auto simp: a_store_def)
    then show ?thesis
      by cases (use ok sqlite_mem.drop_rows_dropped [OF assms(2) _ dr _ that(2,3)]
          pg_mem.drop_rows_dropped [OF assms(2) _ dr _ that(2,3)] in simp)+
  qed
  moreover have "tk_txs (mw_tracker ?w') h = (case tk_txs ?T h of None \<Rightarrow> None
         | Some t \<Rightarrow> Some (if h \<in> set keys \<and> tt_Status t = ''pending'' \<and> tt_FirstSeen t < cutoff
             then t\<lparr>tt_Status := ''dropped''\<rparr> else t))" for h
    unfolding tr fold_txs by (auto simp: expired_def split: option.splits)
  ultimately show ?thesis using keep by (simp add: tr frame)
qed

theorem sweep_drops_witness:
  "db_status (mw_store (dropExpired (demo_env\<lparr>en_now := \<lambda>t. 600000000001\<rparr>) (demo_deps 2 20) [''h''] demo_seen)) ''h''
     = Some ''dropped''"
proof -
  have A: "a_store (dp_Store (demo_deps 2 20))" by (simp add: a_store_def)
  let ?E = "demo_env\<lparr>en_now := \<lambda>t. 600000000001\<rparr>"
  have "''h'' \<in> set (expired 1 [''h''] (mw_tracker demo_seen))" by (simp add: expired_def demo_seen_facts)
  moreover have "1 = en_now ?E (mw_tick demo_seen) - tk_droppedTTL (mw_tracker demo_seen)"
    by (simp add: demo_seen_facts)
  ultimately show ?thesis
    using sweep_drops [OF A demo_seen_facts(1), of 1 ?E "[''h'']"] demo_seen_facts(2)
    by (simp add: no_faults_def)
qed

theorem receipt_outcome_witness:
  "''h'' \<notin> tk_inflight (mw_tracker (handleReceipt demo_env (demo_deps 2 20) ''h'' demo_seen))
   \<and> db_status (mw_store (handleReceipt demo_env (demo_deps 2 20) ''h'' demo_seen)) ''h'' = Some ''pending''"
proof -
  have A: "a_store (dp_Store (demo_deps 2 20))" by (simp add: a_store_def)
  have "\<not> mined_now demo_env (demo_deps 2 20) ''h'' demo_seen"
    by (simp add: mined_now_def mined_info_def demo_deps_def demo_rpc_def)
  with receipt_outcome [OF A demo_seen_facts(1), of "''h''" demo_env] demo_seen_facts(2)
  show ?thesis by simp
qed

text \<open>
  A transaction that comes back stays out of the lifecycle.  When a hash the tracker holds as
  replaced or dropped is seen again, its row becomes pending again, but its tracked status does
  not: no new head schedules its receipt, and no later sweep, at any time and on any visiting
  order, marks its row as dropped.
\<close>

theorem reseen_not_scheduled:
  assumes "a_store (dp_Store D)" and "db_minv (mw_store w)" and "HandleTx E D tx w = (None, w')"
    and "tk_txs (mw_tracker w) (mt_Hash tx) = Some t" and "tt_Status t \<noteq> ''pending''"
  shows "db_status (mw_store w') (mt_Hash tx) = Some ''pending''
    \<and> mt_Hash tx \<notin> set (pending_hashes keys (mw_tracker w'))
    \<and> db_status (mw_store (dropExpired E' D keys w')) (mt_Hash tx) = Some ''pending''"
proof -
  let ?h = "mt_Hash tx" and ?now = "en_now E (mw_tick w)"
  obtain r T1 where ts: "track_seen ?now (stamp ?now tx) (mw_tracker w) = (r, T1)" by (metis surj_pair)
  then have "\<not> is_status ''pending'' T1 ?h" using assms(4,5) by (auto simp: track_seen_def Let_def is_status_def)
  then have "\<not> is_status ''pending'' (after_seen ?now (stamp ?now tx) (mw_tracker w)) ?h"
    by (auto simp: after_seen_def ts is_status_set_tracked split: if_splits)
  moreover have "tk_txs (mw_tracker w') = tk_txs (after_seen ?now (stamp ?now tx) (mw_tracker w))"
    using HandleTx_maps(1) [of E D tx w] assms(3) by simp
  ultimately have np: "\<not> is_status ''pending'' (mw_tracker w') ?h" by (simp add: is_status_def)
  have st: "db_minv (mw_store w')" "db_status (mw_store w') ?h = Some ''pending''"
    using assms(1) sqlite_mem.handle_store(1,2) [OF assms(2) _ assms(3) ts]
      pg_mem.handle_store(1,2) [OF assms(2) _ assms(3) ts] unfolding a_store_def by blast+
  have "?h \<notin> set (expired c keys (mw_tracker w'))" for c
    using np by (auto simp: expired_def is_status_def split: option.splits)
  moreover obtain c t' where
    "drop_rows E' D (expired c keys (mw_tracker w')) (mw_tick w' + 1) (mw_store w')
       = (t', mw_store (dropExpired E' D keys w'))"
    using dropExpired_rows [of E' D w' keys] by blast
  ultimately have "db_status (mw_store (dropExpired E' D keys w')) ?h = db_status (mw_store w') ?h"
    using assms(1) sqlite_mem.drop_rows_store [OF st(1)] pg_mem.drop_rows_store [OF st(1)]
    unfolding a_store_def by blast
  with np st(2) show ?thesis by (simp add: pending_hashes_def)
qed

text \<open>The demo transaction has been dropped, and is announced again.\<close>

theorem reseen_not_scheduled_witness:
  "\<exists>w'. HandleTx demo_env (demo_deps 2 20) demo_tx
      (demo_seen\<lparr>mw_tracker := set_tracked ''h'' ''dropped'' (mw_tracker demo_seen)\<rparr>) = (None, w')
    \<and> db_status (mw_store w') ''h'' = Some ''pending'' \<and> ''h'' \<notin> set (pending_hashes [''h''] (mw_tracker w'))"
proof -
  let ?D = "demo_deps 2 20" and ?w = "demo_seen\<lparr>mw_tracker := set_tracked ''h'' ''dropped'' (mw_tracker demo_seen)\<rparr>"
  let ?w' = "snd (HandleTx demo_env ?D demo_tx ?w)"
  have "fst (HandleTx demo_env ?D demo_tx ?w) = None" by (rule HandleTx_fst) simp
  then have H: "HandleTx demo_env ?D demo_tx ?w = (None, ?w')" by (simp add: prod_eq_iff)
  have A: "a_store (dp_Store ?D)" by (simp add: a_store_def)
  have t: "tk_txs (mw_tracker ?w) (mt_Hash demo_tx) = Some \<lparr>tt_Hash = ''h'', tt_From = ''f'', tt_Nonce = 0,
     tt_FirstSeen = 0, tt_LastSeen = 0, tt_Status = ''dropped''\<rparr>"
    by (simp add: set_tracked_def demo_seen_facts)
  have i: "db_minv (mw_store ?w)" using demo_seen_facts(1) by simp
  from reseen_not_scheduled [OF A i H t, of "[''h'']" demo_env] H
  show ?thesis by (intro exI [of _ ?w']) simp
qed

end
