(* ===== verification/Fetcher.thy ===== *)
theory Fetcher
  imports Tracker_Life Decode_Correct
begin

text \<open>
  \<open>internal/mempool/fetcher.go\<close>: the workers that turn an announced hash into a transaction.
  A worker asks the node for it up to six times, maps the answer to the record the store keeps,
  decodes its input, and hands it to the \<open>TxHandler\<close> (the tracker).  \<open>fe_pendingC\<close> is the
  content of the buffered channel; the argument \<open>handler\<close> is the interface \<open>TxHandler\<close>.
\<close>

section \<open>State\<close>

definition zeroAddress :: string where
  "zeroAddress = ''0x0000000000000000000000000000000000000000''"

record Fetcher =
  fe_chainID :: u64
  fe_workers :: int
  fe_maxInflight :: int
  fe_decodeInput :: bool
  fe_decoder :: "Registry option"
  fe_pendingC :: "string list"

definition NewFetcher :: "u64 \<Rightarrow> int \<Rightarrow> int \<Rightarrow> bool \<Rightarrow> Registry option \<Rightarrow> Fetcher" where
  "NewFetcher chainID workers maxInflight decodeInput decoder =
     (let workers = (if workers \<le> 0 then 4 else workers);
          maxInflight = (if maxInflight \<le> 0 then 10000 else maxInflight)
      in \<lparr>fe_chainID = chainID, fe_workers = workers, fe_maxInflight = maxInflight,
          fe_decodeInput = decodeInput, fe_decoder = decoder, fe_pendingC = []\<rparr>)"

text \<open>\<open>Enqueue\<close>: a full channel drops the hash.\<close>

definition Enqueue :: "string \<Rightarrow> Fetcher \<Rightarrow> Fetcher" where
  "Enqueue hash F =
     (if int (length (fe_pendingC F)) < fe_maxInflight F
      then F\<lparr>fe_pendingC := fe_pendingC F @ [hash]\<rparr> else F)"

section \<open>From the node's answer to the stored record\<close>

definition big_or :: "string \<Rightarrow> int option \<Rightarrow> string" where
  "big_or dflt v = (case v of None \<Rightarrow> dflt | Some i \<Rightarrow> show_int i)"

definition toMempoolTx :: "u64 \<Rightarrow> time \<Rightarrow> RPCTransaction \<Rightarrow> MempoolTx result" where
  "toMempoolTx chainID now tx =
     (let to = (case tx_To tx of Some a \<Rightarrow> if a \<noteq> '''' then a else zeroAddress | None \<Rightarrow> zeroAddress);
          value = big_or ''0'' (tx_Value tx);
          gasPrice = big_or '''' (tx_GasPrice tx);
          maxFee = big_or '''' (tx_MaxFeePerGas tx);
          maxPriority = big_or '''' (tx_MaxPriorityFeePerGas tx);
          typeVal = (case tx_TxType tx of None \<Rightarrow> 0 | Some t \<Rightarrow> t);
          input = (if tx_Input tx = '''' then ''0x'' else tx_Input tx)
      in Inr \<lparr>mt_ChainID = chainID, mt_Hash = to_lower (tx_Hash tx), mt_From = to_lower (tx_From tx),
           mt_To = to_lower to, mt_Nonce = tx_Nonce tx, mt_Value = value, mt_Gas = tx_Gas tx,
           mt_GasPrice = gasPrice, mt_MaxFeePerGas = maxFee, mt_MaxPriorityFeePerGas = maxPriority,
           mt_TxType = typeVal, mt_Input = input, mt_Status = ''pending'', mt_FirstSeenAt = now,
           mt_LastSeenAt = now, mt_MinedBlockNumber = 0, mt_MinedBlockHash = '''', mt_MinedTxIndex = 0,
           mt_ReplacedByTxHash = '''', mt_InsertedAt = now, mt_DecodedInputJSON = ''''\<rparr>)"

definition decode_mempool :: "'v EthLib \<Rightarrow> Fetcher \<Rightarrow> MempoolTx \<Rightarrow> MempoolTx" where
  "decode_mempool lib F m =
     (case (fe_decodeInput F, fe_decoder F) of
        (True, Some reg) \<Rightarrow>
          (case DecodeInput lib reg (mt_To m) (mt_Input m) of
             Inr decoded \<Rightarrow> (case FormatDecodedInput decoded of
                 Some (method, args) \<Rightarrow> m\<lparr>mt_DecodedInputJSON := MarshalInput lib method args\<rparr>
               | None \<Rightarrow> m)
           | Inl e \<Rightarrow> m)
      | _ \<Rightarrow> m)"

section \<open>Asking the node\<close>

datatype fetched = Found RPCTransaction | FetchError go_error | Stopped | NotFound

definition next_backoff :: "int \<Rightarrow> int" where
  "next_backoff b = (let b = b * 2 in if b > 2000000000 then 2000000000 else b)"

text \<open>
  The loop over the attempts, with \<open>left\<close> of them to go: the outcome, the waits between the
  attempts, and the moment it ends.
\<close>

fun fetch_loop :: "(nat \<Rightarrow> bool) \<Rightarrow> Rpc \<Rightarrow> string \<Rightarrow> nat \<Rightarrow> int \<Rightarrow> nat \<Rightarrow> fetched \<times> int list \<times> nat" where
  "fetch_loop cancelled rpc hash 0 backoff t = (NotFound, [], t)"
| "fetch_loop cancelled rpc hash (Suc left) backoff t =
     (case rpc_GetTransactionByHash rpc t hash of
        Inl e \<Rightarrow> (FetchError e, [], t + 1)
      | Inr (Some tx) \<Rightarrow> (Found tx, [], t + 1)
      | Inr None \<Rightarrow>
          (if cancelled (t + 1) then (Stopped, [], t + 2)
           else case fetch_loop cancelled rpc hash left (next_backoff backoff) (t + 2) of
             (r, ws, t') \<Rightarrow> (r, backoff # ws, t')))"

definition handleHash :: "'v Env \<Rightarrow> 's Deps \<Rightarrow> Fetcher \<Rightarrow>
    (MempoolTx \<Rightarrow> 's MemWorld \<Rightarrow> go_error option \<times> 's MemWorld) \<Rightarrow> string \<Rightarrow> 's MemWorld \<Rightarrow> 's MemWorld" where
  "handleHash E D F handler hash w =
     (case fetch_loop (en_cancelled E) (dp_RPC D) hash 6 200000000 (mw_tick w) of
        (Found tx, ws, t) \<Rightarrow>
          (case toMempoolTx (fe_chainID F) (en_now E t) tx of
             Inl e \<Rightarrow> w\<lparr>mw_tick := t + 1\<rparr>
           | Inr m \<Rightarrow> snd (handler (decode_mempool (en_lib E) F m) (w\<lparr>mw_tick := t + 1\<rparr>)))
      | (_, ws, t) \<Rightarrow> w\<lparr>mw_tick := t\<rparr>)"

text \<open>One pass of \<open>worker\<close>: the next hash from the channel, if there is one.\<close>

definition fetch_worker :: "'v Env \<Rightarrow> 's Deps \<Rightarrow>
    (MempoolTx \<Rightarrow> 's MemWorld \<Rightarrow> go_error option \<times> 's MemWorld) \<Rightarrow>
    Fetcher \<times> 's MemWorld \<Rightarrow> Fetcher \<times> 's MemWorld" where
  "fetch_worker E D handler s = (case s of (F, w) \<Rightarrow>
     (case fe_pendingC F of
        [] \<Rightarrow> (F, w)
      | hash # rest \<Rightarrow> (F\<lparr>fe_pendingC := rest\<rparr>, handleHash E D F handler hash w)))"

section \<open>Lemmas\<close>

lemma Enqueue_bound:
  "int (length (fe_pendingC F)) \<le> fe_maxInflight F \<Longrightarrow>
   int (length (fe_pendingC (Enqueue h F))) \<le> fe_maxInflight (Enqueue h F)"
  by (simp add: Enqueue_def)

text \<open>The waits are those of the schedule, as many as there were empty answers.\<close>

fun waits :: "nat \<Rightarrow> int \<Rightarrow> int list" where
  "waits 0 b = []"
| "waits (Suc n) b = b # waits n (next_backoff b)"

lemma length_waits [simp]: "length (waits n b) = n"
  by (induction n arbitrary: b) simp_all

lemma fetch_loop_ends:
  assumes "fetch_loop cancelled rpc hash n b t = (r, ws, t')"
  shows "ws = waits (length ws) b \<and> length ws \<le> n
    \<and> (\<forall>i < length ws. rpc_GetTransactionByHash rpc (t + 2 * i) hash = Inr None)
    \<and> (\<forall>i < length ws. \<not> cancelled (t + 2 * i + 1))
    \<and> (case r of
        Found tx \<Rightarrow> length ws < n \<and> rpc_GetTransactionByHash rpc (t + 2 * length ws) hash = Inr (Some tx)
      | FetchError e \<Rightarrow> length ws < n \<and> rpc_GetTransactionByHash rpc (t + 2 * length ws) hash = Inl e
      | Stopped \<Rightarrow> length ws < n \<and> rpc_GetTransactionByHash rpc (t + 2 * length ws) hash = Inr None
          \<and> cancelled (t + 2 * length ws + 1)
      | NotFound \<Rightarrow> length ws = n)"
  using assms
proof (induction n arbitrary: b t ws)
  case (Suc n)
  show ?case
  proof (cases "rpc_GetTransactionByHash rpc t hash")
    case (Inr a)
    show ?thesis
    proof (cases a)
      case None
      show ?thesis
      proof (cases "cancelled (t + 1)")
        case True
        with Suc.prems Inr None show ?thesis by auto
      next
        case False
        obtain r1 ws1 t1 where l: "fetch_loop cancelled rpc hash n (next_backoff b) (t + 2) = (r1, ws1, t1)"
          by (metis prod_cases3)
        with Suc.prems Inr None False have eq: "r1 = r" "ws = b # ws1" "t1 = t'" by auto
        note IH = Suc.IH [OF l [unfolded eq(1,3)]]
        have shift: "t + 2 + 2 * i = t + 2 * Suc i" for i by simp
        have "\<forall>i < length ws. rpc_GetTransactionByHash rpc (t + 2 * i) hash = Inr None"
          "\<forall>i < length ws. \<not> cancelled (t + 2 * i + 1)"
          using IH Inr None False by (auto simp: eq less_Suc_eq_0_disj)
        moreover have "ws = waits (length ws) b" using IH by (simp add: eq(2))
        ultimately show ?thesis using IH by (cases r) (simp_all add: eq(2), metis)
      qed
    qed (use Suc.prems Inr in auto)
  qed (use Suc.prems in auto)
qed simp

lemma waits_6: "waits 6 200000000 = [200000000, 400000000, 800000000, 1600000000, 2000000000, 2000000000]"
  by (simp add: eval_nat_numeral next_backoff_def Let_def)

lemma waits_take: "n \<le> m \<Longrightarrow> waits n b = take n (waits m b)"
proof (induction n arbitrary: m b)
  case (Suc n)
  then show ?case by (cases m) auto
qed simp

text \<open>
  The interface \<open>TxHandler\<close>: what a fetcher keeps of its handler's invariant, when every
  transaction it maps satisfies the precondition of the handler.
\<close>

locale tx_handler =
  fixes handler :: "MempoolTx \<Rightarrow> 's MemWorld \<Rightarrow> go_error option \<times> 's MemWorld"
    and I :: "'s MemWorld \<Rightarrow> bool"
    and good :: "MempoolTx \<Rightarrow> bool"
  assumes handler_inv: "I w \<Longrightarrow> good m \<Longrightarrow> I (snd (handler m w))"
    and tick_free: "I (w\<lparr>mw_tick := t\<rparr>) = I w"
    and good_decoded: "good (m\<lparr>mt_DecodedInputJSON := j\<rparr>) = good m"
begin

lemma good_decode_mempool: "good (decode_mempool lib F m) = good m"
  by (auto simp: decode_mempool_def good_decoded split: bool.splits option.splits sum.splits)

lemma handleHash_inv:
  assumes "I w"
    and "\<And>t t' tx m. rpc_GetTransactionByHash (dp_RPC D) t hash = Inr (Some tx) \<Longrightarrow>
      toMempoolTx (fe_chainID F) (en_now E t') tx = Inr m \<Longrightarrow> good m"
  shows "I (handleHash E D F handler hash w)"
proof -
  obtain r ws t where l: "fetch_loop (en_cancelled E) (dp_RPC D) hash 6 200000000 (mw_tick w) = (r, ws, t)"
    by (metis prod_cases3)
  show ?thesis
  proof (cases r)
    case (Found tx)
    from fetch_loop_ends [OF l] Found
    have a: "rpc_GetTransactionByHash (dp_RPC D) (mw_tick w + 2 * length ws) hash = Inr (Some tx)" by simp
    show ?thesis
    proof (cases "toMempoolTx (fe_chainID F) (en_now E t) tx")
      case (Inr m)
      from assms(2) [OF a this] have "good (decode_mempool (en_lib E) F m)" by (simp add: good_decode_mempool)
      from handler_inv [OF _ this, of "w\<lparr>mw_tick := t + 1\<rparr>"] assms(1) Inr Found l show ?thesis
        by (simp add: handleHash_def tick_free)
    qed (use assms(1) Found l in \<open>simp add: handleHash_def tick_free\<close>)
  qed (use assms(1) l in \<open>simp_all add: handleHash_def tick_free\<close>)
qed

end

interpretation tracker: tx_handler "HandleTx E D" "\<lambda>w. one_pending f (mw_tracker w)"
    "\<lambda>m. identified f m \<and> mt_Hash m \<noteq> []" for E :: "'v Env" and D :: "'s Deps" and f
proof unfold_locales
  fix w :: "'s MemWorld" and m t j
  show "one_pending f (mw_tracker w) \<Longrightarrow> identified f m \<and> mt_Hash m \<noteq> [] \<Longrightarrow>
      one_pending f (mw_tracker (snd (HandleTx E D m w)))"
    using one_pending_handle [of f w "SeeTx m" E D] by (simp add: mem_handle_def)
  show "one_pending f (mw_tracker (w\<lparr>mw_tick := t\<rparr>)) = one_pending f (mw_tracker w)" by simp
  show "(identified f (m\<lparr>mt_DecodedInputJSON := j\<rparr>) \<and> mt_Hash (m\<lparr>mt_DecodedInputJSON := j\<rparr>) \<noteq> [])
      = (identified f m \<and> mt_Hash m \<noteq> [])" by (simp add: identified_def)
qed

section \<open>Properties\<close>

text \<open>
  Asking for a transaction is bounded.  A worker asks at most six times, waiting 0.2, 0.4,
  0.8, 1.6, 2 and 2 seconds (7 in all at most) after the answers "not found"; it has found the
  transaction exactly when the first answer that is not empty is one, gives up at the first
  error, and stops when it is cancelled.
\<close>

theorem fetch_bounded:
  assumes "fetch_loop cancelled rpc hash 6 200000000 t = (r, ws, t')"
  shows "ws = take (length ws) [200000000, 400000000, 800000000, 1600000000, 2000000000, 2000000000]
    \<and> length ws \<le> 6 \<and> sum_list ws \<le> 7000000000
    \<and> (\<forall>i < length ws. rpc_GetTransactionByHash rpc (t + 2 * i) hash = Inr None)
    \<and> (case r of
        Found tx \<Rightarrow> length ws < 6 \<and> rpc_GetTransactionByHash rpc (t + 2 * length ws) hash = Inr (Some tx)
      | FetchError e \<Rightarrow> length ws < 6 \<and> rpc_GetTransactionByHash rpc (t + 2 * length ws) hash = Inl e
      | Stopped \<Rightarrow> length ws < 6 \<and> cancelled (t + 2 * length ws + 1)
      | NotFound \<Rightarrow> length ws = 6)"
proof -
  note L = fetch_loop_ends [OF assms]
  from L have ws: "ws = take (length ws) (waits 6 200000000)" using waits_take by metis
  have "sum_list (take n (waits 6 200000000)) \<le> sum_list (waits 6 200000000)" for n
    by (subst (2) append_take_drop_id [of n, symmetric], subst sum_list_append)
      (use set_drop_subset [of n "waits 6 200000000"] in \<open>auto simp: waits_6 intro!: sum_list_nonneg\<close>)
  then have "sum_list ws \<le> 7000000000" by (subst ws) (simp add: waits_6)
  with L ws show ?thesis by (simp add: waits_6 split: fetched.splits)
qed

text \<open>A node that knows the transaction from the third question on.\<close>

definition demo_known :: RPCTransaction where
  "demo_known = \<lparr>tx_Hash = ''0xAB'', tx_From = ''0xF'', tx_To = None, tx_Nonce = 7, tx_Value = Some 1500,
     tx_Gas = 21000, tx_GasPrice = Some 3, tx_MaxFeePerGas = None, tx_MaxPriorityFeePerGas = None,
     tx_TxType = None, tx_Input = ''''\<rparr>"

definition slow_rpc :: Rpc where
  "slow_rpc = (demo_rpc 2 20)\<lparr>rpc_GetTransactionByHash := \<lambda>t h. Inr (if t < 4 then None else Some demo_known)\<rparr>"

lemma slow_fetch:
  "fetch_loop (\<lambda>t. False) slow_rpc ''0xab'' 6 200000000 0 = (Found demo_known, [200000000, 400000000], 5)"
  by (simp add: slow_rpc_def eval_nat_numeral next_backoff_def Let_def)

theorem fetch_bounded_witness:
  "sum_list [200000000, 400000000] \<le> (7000000000 :: int)
   \<and> rpc_GetTransactionByHash slow_rpc 4 ''0xab'' = Inr (Some demo_known)"
  using fetch_bounded [OF slow_fetch] by simp

text \<open>The integers of the transaction fit the signed columns of the table.\<close>

definition storable :: "RPCTransaction \<Rightarrow> bool" where
  "storable tx \<longleftrightarrow> fits_int64 (tx_Nonce tx) \<and> fits_int64 (tx_Gas tx)
     \<and> (\<forall>ty. tx_TxType tx = Some ty \<longrightarrow> fits_int64 ty)"

lemma fits_zero [simp]: "fits_int64 0"
  by (simp add: fits_int64_def)

lemma upsert_succeeds:
  assumes "a_store S" and "f 0 = None" and "mem_bind m = None" and "known_status (mt_Status m)"
  shows "fst (st_UpsertMempoolTx S f m s) = None"
  using assms
  by (auto simp: a_store_def sqlite_store_def pg_store_def sqlite_UpsertMempoolTx_def pg_UpsertMempoolTx_def)

lemma mem_bind_mapped:
  assumes "storable tx" and "fits_int64 (fe_chainID F)" and "toMempoolTx (fe_chainID F) now tx = Inr m"
  shows "mem_bind (stamp now' (decode_mempool lib F m)) = None"
proof -
  have s: "mem_bind (stamp now' x) = mem_bind x" for x by (simp add: mem_bind_def stamp_def Let_def)
  have d: "mem_bind (decode_mempool lib F m) = mem_bind m"
    by (auto simp: mem_bind_def decode_mempool_def split: bool.splits option.splits sum.splits)
  show ?thesis
    unfolding s d using assms
    by (auto simp: mem_bind_def bind_u64s_def toMempoolTx_def Let_def storable_def split: option.splits)
qed

lemma handle_pending:
  assumes "a_store (dp_Store D)" and "db_minv (mw_store w)" and H: "HandleTx E D m w = (None, w')"
  shows "db_minv (mw_store w') \<and> db_status (mw_store w') (mt_Hash m) = Some ''pending''
    \<and> tk_fromNonce (mw_tracker w') (fromNonceKey (mt_From m) (mt_Nonce m)) = Some (mt_Hash m)"
proof -
  let ?now = "en_now E (mw_tick w)"
  obtain x T1 where ts: "track_seen ?now (stamp ?now m) (mw_tracker w) = (x, T1)" by (metis surj_pair)
  have "db_minv (mw_store w') \<and> db_status (mw_store w') (mt_Hash m) = Some ''pending''"
    using assms(1) sqlite_mem.handle_store(1,2) [OF assms(2) _ H ts] pg_mem.handle_store(1,2) [OF assms(2) _ H ts]
    unfolding a_store_def by blast
  moreover have "tk_fromNonce (mw_tracker (snd (HandleTx E D m w))) (fromNonceKey (mt_From m) (mt_Nonce m))
      = Some (mt_Hash m)"
    using ts by (auto simp: HandleTx_maps after_seen_def frame) (auto simp: track_seen_def Let_def)
  ultimately show ?thesis by (simp add: H)
qed

text \<open>The worker hands the transaction it has found to the tracker, which accepts it.\<close>

lemma handleHash_found:
  assumes "a_store (dp_Store D)"
    and "fetch_loop (en_cancelled E) (dp_RPC D) hash 6 200000000 (mw_tick w) = (Found tx, ws, t)"
    and "\<And>u i. en_faults E u i = None" and "fits_int64 (fe_chainID F)" and "storable tx"
  obtains m where "HandleTx E D m (w\<lparr>mw_tick := t + 1\<rparr>) = (None, handleHash E D F (HandleTx E D) hash w)"
    and "mt_Hash m = to_lower (tx_Hash tx)" and "mt_From m = to_lower (tx_From tx)" and "mt_Nonce m = tx_Nonce tx"
proof -
  let ?w = "w\<lparr>mw_tick := t + 1\<rparr>"
  obtain m0 where m0: "toMempoolTx (fe_chainID F) (en_now E t) tx = Inr m0"
    and f0: "mt_Hash m0 = to_lower (tx_Hash tx)" "mt_From m0 = to_lower (tx_From tx)" "mt_Nonce m0 = tx_Nonce tx"
    by (simp add: toMempoolTx_def Let_def)
  define m where "m = decode_mempool (en_lib E) F m0"
  have f: "mt_Hash m = to_lower (tx_Hash tx)" "mt_From m = to_lower (tx_From tx)" "mt_Nonce m = tx_Nonce tx"
    using f0 by (auto simp: m_def decode_mempool_def split: bool.splits option.splits sum.splits)
  have "fst (HandleTx E D m ?w) = None"
    by (rule HandleTx_fst, rule upsert_succeeds [OF assms(1)])
      (use assms(3-5) m0 mem_bind_mapped in \<open>auto simp: m_def\<close>)
  moreover have "handleHash E D F (HandleTx E D) hash w = snd (HandleTx E D m ?w)"
    using assms(2) m0 by (simp add: handleHash_def m_def)
  ultimately have "HandleTx E D m ?w = (None, handleHash E D F (HandleTx E D) hash w)"
    by (metis prod.collapse)
  with f that show thesis by blast
qed

text \<open>
  From announcement to table and tracker.  If the node knows the transaction within six
  questions, its integers fit the columns and the database does not fail, then the worker leaves
  a pending row under the lower-case hash and the tracker holds that hash for the transaction's
  lower-case sender and its nonce; if the node does not, the store and the tracker are as they
  were.
\<close>

theorem fetched_tx_tracked:
  assumes "a_store (dp_Store D)" and "db_minv (mw_store w)"
    and "fetch_loop (en_cancelled E) (dp_RPC D) hash 6 200000000 (mw_tick w) = (r, ws, t)"
    and "\<And>u i. en_faults E u i = None" and "fits_int64 (fe_chainID F)"
    and "\<And>tx. r = Found tx \<Longrightarrow> storable tx"
  shows "case r of
      Found tx \<Rightarrow>
        db_status (mw_store (handleHash E D F (HandleTx E D) hash w)) (to_lower (tx_Hash tx)) = Some ''pending''
        \<and> tk_fromNonce (mw_tracker (handleHash E D F (HandleTx E D) hash w))
            (fromNonceKey (to_lower (tx_From tx)) (tx_Nonce tx)) = Some (to_lower (tx_Hash tx))
    | _ \<Rightarrow> mw_store (handleHash E D F (HandleTx E D) hash w) = mw_store w
        \<and> mw_tracker (handleHash E D F (HandleTx E D) hash w) = mw_tracker w"
proof (cases r)
  case (Found tx)
  obtain m where H: "HandleTx E D m (w\<lparr>mw_tick := t + 1\<rparr>) = (None, handleHash E D F (HandleTx E D) hash w)"
    and f: "mt_Hash m = to_lower (tx_Hash tx)" "mt_From m = to_lower (tx_From tx)" "mt_Nonce m = tx_Nonce tx"
    using handleHash_found [OF assms(1) assms(3) [unfolded Found] assms(4,5) assms(6) [OF Found]] by blast
  have "db_minv (mw_store (w\<lparr>mw_tick := t + 1\<rparr>))" using assms(2) by simp
  from handle_pending [OF assms(1) this H] f show ?thesis by (simp add: Found)
qed (use assms(3) in \<open>simp_all add: handleHash_def\<close>)

theorem fetched_tx_tracked_witness:
  "db_status (mw_store (handleHash demo_env ((demo_deps 2 20)\<lparr>dp_RPC := slow_rpc\<rparr>) (NewFetcher 1 4 2 False None)
      (HandleTx demo_env ((demo_deps 2 20)\<lparr>dp_RPC := slow_rpc\<rparr>)) ''0xab'' (ms_world demo_mempool))) ''0xab''
     = Some ''pending''"
proof -
  let ?D = "(demo_deps 2 20)\<lparr>dp_RPC := slow_rpc\<rparr>" and ?w = "ms_world demo_mempool"
  have A: "a_store (dp_Store ?D)" by (simp add: a_store_def demo_deps_def)
  have i: "db_minv (mw_store ?w)"
    by (simp add: demo_mempool_def fresh_def db_view_defs empty_db_def mem_ok_def)
  have c: "en_cancelled demo_env = (\<lambda>t. False)" "mw_tick ?w = 0" "dp_RPC ?D = slow_rpc"
    by (simp_all add: fun_eq_iff demo_mempool_def fresh_def)
  have l: "fetch_loop (en_cancelled demo_env) (dp_RPC ?D) ''0xab'' 6 200000000 (mw_tick ?w)
      = (Found demo_known, [200000000, 400000000], 5)" unfolding c by (rule slow_fetch)
  have low: "to_lower (tx_Hash demo_known) = ''0xab''" by code_simp
  have st: "storable demo_known" by (simp add: storable_def demo_known_def fits_int64_def)
  show ?thesis
    using fetched_tx_tracked [OF A i l, of "NewFetcher 1 4 2 False None"] st low
    by (simp add: no_faults_def NewFetcher_def fits_int64_def)
qed

end
