(* ===== verification/Subscriber.thy ===== *)
theory Subscriber
  imports Tracker Decode
begin

text \<open>
  \<open>internal/mempool/subscriber.go\<close>: the WebSocket client that announces hashes and heads.  The
  library \<open>gorilla/websocket\<close> is a parameter: a connection is what each of its reads and writes
  returns, in the order in which the program makes them.  A message is the document it parses to,
  or no JSON.  \<open>sb_pendingC\<close> and \<open>sb_headC\<close> are the contents of the two buffered channels.
\<close>

section \<open>State and messages\<close>

record Subscriber =
  sb_pendingC :: "string list"
  sb_pending_cap :: int
  sb_headC :: "Head list"
  sb_head_cap :: int

type_synonym message = "json option"

record conn =
  cn_write :: "nat \<Rightarrow> go_error option"
  cn_read :: "nat \<Rightarrow> message result"

text \<open>\<open>params\<close> and \<open>result\<close> of a notification; an absent \<open>json.RawMessage\<close> is empty.\<close>

record subscriptionMsg =
  sm_Method :: string
  sm_Subscription :: string
  sm_Result :: "json option"

definition raw_field :: "string \<Rightarrow> json \<Rightarrow> json option" where
  "raw_field k j = (case j of JObj kvs \<Rightarrow> map_of (rev kvs) k | _ \<Rightarrow> None)"

definition unmarshal_msg :: "json \<Rightarrow> subscriptionMsg result" where
  "unmarshal_msg j =
     (let p = json_field ''params'' j in
      if \<not> is_object j \<or> \<not> is_object p then Inl (ErrNew ''json: cannot unmarshal'')
      else and_then (unmarshal_string (json_field ''jsonrpc'' j)) (\<lambda>_.
           and_then (unmarshal_string (json_field ''method'' j)) (\<lambda>m.
           and_then (unmarshal_string (json_field ''subscription'' p)) (\<lambda>s.
             Inr \<lparr>sm_Method = m, sm_Subscription = s, sm_Result = raw_field ''result'' p\<rparr>))))"

section \<open>Numbers in hexadecimal\<close>

fun hex_loop :: "string \<Rightarrow> u64 \<Rightarrow> u64 result" where
  "hex_loop [] out = Inr out"
| "hex_loop (r # v) out = (case hex_value r of
     Some d \<Rightarrow> hex_loop v (push_bit 4 out + of_nat d)
   | None \<Rightarrow> Inl (ErrNew ''invalid hex''))"

function parseHexUint :: "string \<Rightarrow> u64 result" where
  "parseHexUint v = (if length v > 1 \<and> take 2 v = ''0x'' then parseHexUint (drop 2 v) else hex_loop v 0)"
  by pat_completeness auto
termination by (relation "measure length") auto

declare parseHexUint.simps [simp del]

section \<open>Dispatching a notification\<close>

definition send_pending :: "string \<Rightarrow> Subscriber \<Rightarrow> Subscriber" where
  "send_pending h S = (if int (length (sb_pendingC S)) < sb_pending_cap S
     then S\<lparr>sb_pendingC := sb_pendingC S @ [h]\<rparr> else S)"

definition send_head :: "Head \<Rightarrow> Subscriber \<Rightarrow> Subscriber" where
  "send_head h S = (if int (length (sb_headC S)) < sb_head_cap S
     then S\<lparr>sb_headC := sb_headC S @ [h]\<rparr> else S)"

definition dispatch :: "subscriptionMsg \<Rightarrow> Subscriber \<Rightarrow> Subscriber" where
  "dispatch msg S =
     (if sm_Subscription msg = '''' then S
      else case sm_Result msg of
        None \<Rightarrow> S
      | Some (JStr hash) \<Rightarrow> send_pending hash S
      | Some j \<Rightarrow>
          (if \<not> is_object j then S
           else case unmarshal_string (json_field ''number'' j) of
             Inl e \<Rightarrow> S
           | Inr num \<Rightarrow>
               (if num = '''' then S
                else case parseHexUint num of
                  Inl e \<Rightarrow> S
                | Inr n \<Rightarrow> send_head \<lparr>hd_Number = n\<rparr> S)))"

section \<open>One connection\<close>

text \<open>
  \<open>subscribe\<close>: the \<open>k\<close>-th write and the \<open>k\<close>-th read of the connection are the request and its
  answer; the identifier of the subscription is the result.  The answer has the fields
  \<open>result\<close>, a string, and \<open>error\<close>, anything.
\<close>

definition subscribe :: "conn \<Rightarrow> nat \<Rightarrow> string \<Rightarrow> string result" where
  "subscribe c k channel = (case cn_write c k of
     Some e \<Rightarrow> Inl (ErrWrap (''subscribe '' @ channel) e)
   | None \<Rightarrow> and_then (cn_read c k) (\<lambda>msg.
       and_then (wrap_err ''subscribe parse'' (case msg of
           None \<Rightarrow> Inl (ErrNew ''invalid character'')
         | Some j \<Rightarrow> if \<not> is_object j then Inl (ErrNew ''json: cannot unmarshal'')
                     else unmarshal_string (json_field ''result'' j))) (\<lambda>r.
         if r = '''' then Inl (ErrNew (''subscribe '' @ channel @ '' failed'')) else Inr r)))"

text \<open>What the loop of \<open>runOnce\<close> does with a message.\<close>

definition on_message :: "message \<Rightarrow> Subscriber \<Rightarrow> Subscriber" where
  "on_message msg S = (case msg of
     None \<Rightarrow> S
   | Some j \<Rightarrow> (case unmarshal_msg j of
       Inl e \<Rightarrow> S
     | Inr m \<Rightarrow> if sm_Method m \<noteq> ''eth_subscription'' then S else dispatch m S))"

text \<open>
  The loop from read \<open>k\<close> on: it ends when the context is cancelled or a read fails, and may not
  end.  \<open>cancelled k\<close> says what the check before read \<open>k\<close> sees.  Between two reads other
  goroutines receive from the channels: \<open>drain k\<close> is what they leave.
\<close>

partial_function (option) read_loop ::
    "(nat \<Rightarrow> bool) \<Rightarrow> (nat \<Rightarrow> Subscriber \<Rightarrow> Subscriber) \<Rightarrow> conn \<Rightarrow> nat \<Rightarrow> Subscriber \<Rightarrow>
      (go_error option \<times> Subscriber) option" where
  "read_loop cancelled drain c k S =
     (if cancelled k then Some (Some ErrCanceled, S)
      else case cn_read c k of
        Inl e \<Rightarrow> Some (Some e, S)
      | Inr msg \<Rightarrow> read_loop cancelled drain c (k + 1) (drain k (on_message msg S)))"

declare read_loop.simps [code]

definition runOnce ::
    "(nat \<Rightarrow> bool) \<Rightarrow> (nat \<Rightarrow> Subscriber \<Rightarrow> Subscriber) \<Rightarrow> conn result \<Rightarrow> Subscriber \<Rightarrow>
      (go_error option \<times> Subscriber) option" where
  "runOnce cancelled drain dial S = (case dial of
     Inl e \<Rightarrow> Some (Some (ErrWrap ''ws dial'' e), S)
   | Inr c \<Rightarrow> (case subscribe c 0 ''newPendingTransactions'' of
       Inl e \<Rightarrow> Some (Some e, S)
     | Inr pendingSub \<Rightarrow> (case subscribe c 1 ''newHeads'' of
         Inl e \<Rightarrow> Some (Some e, S)
       | Inr headSub \<Rightarrow> read_loop cancelled drain c 2 S)))"

section \<open>Reconnecting\<close>

text \<open>
  \<open>sleepBackoff\<close> with the random number \<open>r\<close>: how long it sleeps, and the next backoff.  The
  products are exact (without the rounding of \<open>float64\<close>).
\<close>

definition sub_backoff :: "rat \<Rightarrow> int \<Rightarrow> int \<times> int" where
  "sub_backoff r backoff =
     (let wait = of_int backoff * (9 / 10 + r * (1 / 5));
          wait = (if wait > 30000000000 then 30000000000 else wait)
      in (\<lfloor>wait\<rfloor>, min (backoff * 2) 30000000000))"

text \<open>
  One pass of \<open>Run\<close>: from the backoff and the channels, the time slept and the backoff and the
  channels of the next pass; \<open>None\<close> if the connection is never lost.
\<close>

definition sub_pass ::
    "(nat \<Rightarrow> bool) \<Rightarrow> (nat \<Rightarrow> Subscriber \<Rightarrow> Subscriber) \<Rightarrow> conn result \<Rightarrow> rat \<Rightarrow>
      int \<times> Subscriber \<Rightarrow> (int \<times> int \<times> Subscriber) option" where
  "sub_pass cancelled drain dial r s = (case s of (backoff, S) \<Rightarrow>
     (case runOnce cancelled drain dial S of
        None \<Rightarrow> None
      | Some (Some e, S') \<Rightarrow> (case sub_backoff r backoff of (w, b) \<Rightarrow> Some (w, b, S'))
      | Some (None, S') \<Rightarrow> Some (0, 1000000000, S')))"

text \<open>
  \<open>Run\<close> over the connections it dials, pass by pass from backoff \<open>1s\<close>, until the check at the
  head of pass \<open>i\<close> finds the context cancelled: the times slept.
\<close>

fun sub_run :: "(nat \<Rightarrow> bool) \<Rightarrow> (nat \<Rightarrow> nat \<Rightarrow> bool) \<Rightarrow> (nat \<Rightarrow> nat \<Rightarrow> Subscriber \<Rightarrow> Subscriber) \<Rightarrow>
    (nat \<Rightarrow> conn result) \<Rightarrow> (nat \<Rightarrow> rat) \<Rightarrow> nat \<Rightarrow> nat \<Rightarrow> int \<times> Subscriber \<Rightarrow>
    (int list \<times> int \<times> Subscriber) option" where
  "sub_run done cancelled drain dial rnd 0 i s = Some ([], s)"
| "sub_run done cancelled drain dial rnd (Suc n) i s =
     (if done i then Some ([], s)
      else case sub_pass (cancelled i) (drain i) (dial i) (rnd i) s of
        None \<Rightarrow> None
      | Some (w, s') \<Rightarrow> (case sub_run done cancelled drain dial rnd n (Suc i) s' of
          None \<Rightarrow> None
        | Some (ws, s'') \<Rightarrow> Some (w # ws, s'')))"

end
