(* ===== verification/Subscriber_Correct.thy ===== *)
theory Subscriber_Correct
  imports Subscriber
begin

text \<open>
  What the subscriber guarantees: numbers in hexadecimal are read as written, every notification
  reaches its channel in order as long as there is room, a session ends exactly when the
  connection or the context does, and the waits between sessions.
\<close>

section \<open>Hexadecimal numbers\<close>

definition hex_char :: "nat \<Rightarrow> char" where
  "hex_char d = (if d < 10 then char_of (48 + d) else char_of (87 + d))"

fun show_hex :: "nat \<Rightarrow> string" where
  "show_hex n = (if n < 16 then [hex_char n] else show_hex (n div 16) @ [hex_char (n mod 16)])"

declare show_hex.simps [simp del]

lemma hex_value_char: "d < 16 \<Longrightarrow> hex_value (hex_char d) = Some d"
  by (auto simp: hex_value_def hex_char_def take_bit_eq_mod Let_def)

lemma hex_loop_append:
  "hex_loop (u @ v) out = (case hex_loop u out of Inl e \<Rightarrow> Inl e | Inr x \<Rightarrow> hex_loop v x)"
  by (induction u arbitrary: out) (auto split: option.splits)

lemma push_bit_4: "push_bit 4 (x :: u64) = 16 * x"
  by (simp add: push_bit_eq_mult)

lemma hex_loop_show: "hex_loop (show_hex n) 0 = Inr (of_nat n)"
proof (induction n rule: show_hex.induct)
  case (1 n)
  show ?case
  proof (cases "n < 16")
    case True
    then show ?thesis by (simp add: show_hex.simps [of n] hex_value_char)
  next
    case False
    have "(of_nat n :: u64) = of_nat (16 * (n div 16) + n mod 16)" by simp
    also have "\<dots> = 16 * of_nat (n div 16) + of_nat (n mod 16)" by (simp only: of_nat_add of_nat_mult) simp
    finally have "(of_nat n :: u64) = 16 * of_nat (n div 16) + of_nat (n mod 16)" .
    with False 1 show ?thesis
      by (simp add: show_hex.simps [of n] hex_value_char hex_loop_append push_bit_4)
  qed
qed

lemma hex_loop_x: "hex_loop (c # ''x'') out \<noteq> Inr y" and hex_value_x: "hex_value (CHR ''x'') = None"
  by (auto simp: hex_value_def Let_def split: option.splits)

text \<open>A string the loop accepts does not start with the prefix.\<close>

lemma accepted_no_prefix: "hex_loop v out = Inr y \<Longrightarrow> \<not> (length v > 1 \<and> take 2 v = ''0x'')"
proof
  assume a: "hex_loop v out = Inr y" "length v > 1 \<and> take 2 v = ''0x''"
  then obtain w where "v = CHR ''0'' # CHR ''x'' # w" by (metis append_Cons append_Nil append_take_drop_id)
  with a(1) show False by (simp add: hex_value_x split: option.splits)
qed

lemma parse_accepted: "hex_loop v 0 = Inr y \<Longrightarrow> parseHexUint v = Inr y"
  using accepted_no_prefix [of v 0 y] by (subst parseHexUint.simps) auto

lemma parse_prefix: "parseHexUint (''0x'' @ v) = parseHexUint v"
  by (subst parseHexUint.simps) simp

text \<open>
  Block numbers are read as written.  The number of a head, printed in hexadecimal with the
  prefix \<open>0x\<close> as nodes do (or without), is parsed to itself, for every 64-bit number.
\<close>

lemma head_number_roundtrip:
  "parseHexUint (''0x'' @ show_hex (unat n)) = Inr n \<and> parseHexUint (show_hex (unat n)) = Inr n"
  using parse_accepted [OF hex_loop_show, of "unat n"] by (simp add: parse_prefix del: append.simps)

text \<open>
  What is not checked: a number of more than 64 bits loses its upper digits, and the prefix may be
  repeated.
\<close>

lemma hex_overflow:
  "parseHexUint ''0x10000000000000007'' = Inr 7 \<and> parseHexUint ''0x0x5'' = Inr 5"
  by code_simp

section \<open>One session\<close>

text \<open>What a message announces, as the documentation of \<open>eth_subscribe\<close> has it.\<close>

definition notification :: "message \<Rightarrow> json option" where
  "notification msg = (case msg of
     None \<Rightarrow> None
   | Some j \<Rightarrow> (case unmarshal_msg j of
       Inr m \<Rightarrow> if sm_Method m = ''eth_subscription'' \<and> sm_Subscription m \<noteq> '''' then sm_Result m else None
     | Inl e \<Rightarrow> None))"

definition announced :: "message \<Rightarrow> string list" where
  "announced msg = (case notification msg of Some (JStr h) \<Rightarrow> [h] | _ \<Rightarrow> [])"

definition new_heads :: "message \<Rightarrow> Head list" where
  "new_heads msg = (case notification msg of
     Some (JObj kvs) \<Rightarrow> (case json_field ''number'' (JObj kvs) of
         JStr num \<Rightarrow> if num = '''' then [] else
           (case parseHexUint num of Inr n \<Rightarrow> [\<lparr>hd_Number = n\<rparr>] | Inl e \<Rightarrow> [])
       | _ \<Rightarrow> [])
   | _ \<Rightarrow> [])"

definition filled :: "int \<Rightarrow> 'a list \<Rightarrow> 'a list" where
  "filled cap xs = take (nat cap) xs"

text \<open>The channels hold no more than their capacity.\<close>

definition in_room :: "Subscriber \<Rightarrow> bool" where
  "in_room S \<longleftrightarrow> int (length (sb_pendingC S)) \<le> sb_pending_cap S \<and> int (length (sb_headC S)) \<le> sb_head_cap S"

lemma on_message_effect:
  assumes "in_room S"
  shows "on_message msg S = S\<lparr>sb_pendingC := filled (sb_pending_cap S) (sb_pendingC S @ announced msg),
    sb_headC := filled (sb_head_cap S) (sb_headC S @ new_heads msg)\<rparr>"
proof -
  have p: "send_pending h S = S\<lparr>sb_pendingC := filled (sb_pending_cap S) (sb_pendingC S @ [h])\<rparr>"
    and q: "send_head g S = S\<lparr>sb_headC := filled (sb_head_cap S) (sb_headC S @ [g])\<rparr>" for h g
    using assms by (auto simp: send_pending_def send_head_def filled_def in_room_def)
  have s: "filled (sb_pending_cap S) (sb_pendingC S) = sb_pendingC S" "filled (sb_head_cap S) (sb_headC S) = sb_headC S"
    using assms by (auto simp: filled_def in_room_def)
  show ?thesis
  proof (cases "notification msg")
    case None
    then have "on_message msg S = S"
      by (auto simp: on_message_def notification_def dispatch_def split: option.splits sum.splits if_splits)
    with None show ?thesis by (simp add: announced_def new_heads_def s)
  next
    case (Some j)
    then obtain d m where m: "msg = Some d" "unmarshal_msg d = Inr m" "sm_Method m = ''eth_subscription''"
      "sm_Subscription m \<noteq> ''''" "sm_Result m = Some j"
      by (auto simp: notification_def split: option.splits sum.splits if_splits)
    then have e: "on_message msg S = dispatch m S" by (simp add: on_message_def)
    show ?thesis
    proof (cases j)
      case (JObj kvs)
      show ?thesis unfolding e using JObj m(4,5) Some
        by (auto simp: dispatch_def announced_def new_heads_def is_object_def unmarshal_string_def p q s
            split: json.splits sum.splits)
    qed (use m(4,5) Some e in \<open>simp_all add: dispatch_def announced_def new_heads_def is_object_def p s
        json_field_def unmarshal_string_def\<close>)
  qed
qed

lemma filled_room [simp]: "0 \<le> cap \<Longrightarrow> int (length (filled cap xs)) \<le> cap"
  by (simp add: filled_def)

lemma in_room_cap: "in_room S \<Longrightarrow> 0 \<le> sb_pending_cap S \<and> 0 \<le> sb_head_cap S"
  by (auto simp: in_room_def)

lemma on_message_room: "in_room S \<Longrightarrow> in_room (on_message msg S)"
  using in_room_cap [of S] by (simp add: on_message_effect in_room_def [of "S\<lparr>sb_pendingC := _, sb_headC := _\<rparr>"])

lemma filled_filled: "filled cap (filled cap xs @ ys) = filled cap (xs @ ys)"
  by (simp add: filled_def min_def)

lemma session:
  assumes "in_room S" and "\<And>i. i < length msgs \<Longrightarrow> cn_read c (k + i) = Inr (msgs ! i) \<and> \<not> cancelled (k + i)"
    and "cancelled (k + length msgs) \<or> cn_read c (k + length msgs) = Inl e"
  shows "\<exists>e'. read_loop cancelled (\<lambda>_ S. S) c k S =
    Some (Some e', S\<lparr>sb_pendingC := filled (sb_pending_cap S) (sb_pendingC S @ concat (map announced msgs)),
      sb_headC := filled (sb_head_cap S) (sb_headC S @ concat (map new_heads msgs))\<rparr>)"
  using assms
proof (induction msgs arbitrary: k S)
  case Nil
  then show ?case
    by (subst read_loop.simps) (auto simp: filled_def in_room_def)
next
  case (Cons m ms)
  let ?S = "on_message m S"
  have one: "read_loop cancelled (\<lambda>_ S. S) c k S = read_loop cancelled (\<lambda>_ S. S) c (k + 1) ?S"
    using Cons.prems(2) [of 0] by (subst read_loop.simps) simp
  have "cn_read c (k + 1 + i) = Inr (ms ! i) \<and> \<not> cancelled (k + 1 + i)" if "i < length ms" for i
    using Cons.prems(2) [of "Suc i"] that by simp
  moreover have "cancelled (k + 1 + length ms) \<or> cn_read c (k + 1 + length ms) = Inl e"
    using Cons.prems(3) by simp
  ultimately show ?case
    using Cons.IH [OF on_message_room [OF Cons.prems(1)], of "k + 1" m] unfolding one
    by (simp add: on_message_effect [OF Cons.prems(1)] filled_filled)
qed

text \<open>
  C35. Notifications are delivered in order.  In a session nobody drains, the announced hashes and
  the new heads of all messages are in their channels, in the order of the messages and up to the
  capacity of each channel; what finds no room is lost, and messages that are not notifications
  (or no JSON) change nothing.
\<close>

theorem session_delivers:
  assumes "in_room S" and "\<And>i. i < length msgs \<Longrightarrow> cn_read c (k + i) = Inr (msgs ! i) \<and> \<not> cancelled (k + i)"
    and "cn_read c (k + length msgs) = Inl e"
  shows "\<exists>e' S'. read_loop cancelled (\<lambda>_ S. S) c k S = Some (Some e', S')
    \<and> sb_pendingC S' = take (nat (sb_pending_cap S)) (sb_pendingC S @ concat (map announced msgs))
    \<and> sb_headC S' = take (nat (sb_head_cap S)) (sb_headC S @ concat (map new_heads msgs))"
  using session [of S msgs c k cancelled e] assms by (force simp: filled_def)

definition demo_note :: "json \<Rightarrow> message" where
  "demo_note r = Some (JObj [(''jsonrpc'', JStr ''2.0''), (''method'', JStr ''eth_subscription''),
     (''params'', JObj [(''subscription'', JStr ''0x1''), (''result'', r)])])"

definition demo_conn :: conn where
  "demo_conn = \<lparr>cn_write = \<lambda>k. None, cn_read = \<lambda>k.
     if k < 2 then Inr (Some (JObj [(''result'', JStr ''0x1'')]))
     else if k = 2 then Inr (demo_note (JStr ''0xab''))
     else if k = 3 then Inr (demo_note (JObj [(''number'', JStr ''0x1f'')]))
     else Inl (ErrNew ''EOF'')\<rparr>"

definition demo_sub :: Subscriber where
  "demo_sub = \<lparr>sb_pendingC = [], sb_pending_cap = 2, sb_headC = [], sb_head_cap = 128\<rparr>"

lemma demo_parse: "parseHexUint ''0x1f'' = Inr 31"
  by code_simp

theorem session_delivers_witness:
  "\<exists>e S'. read_loop (\<lambda>k. False) (\<lambda>_ S. S) demo_conn 2 demo_sub = Some (Some e, S')
    \<and> sb_pendingC S' = [''0xab''] \<and> sb_headC S' = [\<lparr>hd_Number = 31\<rparr>]"
proof -
  let ?ms = "[demo_note (JStr ''0xab''), demo_note (JObj [(''number'', JStr ''0x1f'')])]"
  have "cn_read demo_conn (2 + i) = Inr (?ms ! i)" if "i < length ?ms" for i
    using that by (cases i) (auto simp: demo_conn_def)
  moreover have "cn_read demo_conn (2 + length ?ms) = Inl (ErrNew ''EOF'')" by (simp add: demo_conn_def)
  moreover have "in_room demo_sub" by (simp add: in_room_def demo_sub_def)
  ultimately show ?thesis
    using session_delivers [of demo_sub ?ms demo_conn 2 "\<lambda>k. False"]
    by (simp add: announced_def new_heads_def notification_def demo_note_def unmarshal_msg_def is_object_def
        json_field_def unmarshal_string_def raw_field_def and_then_def demo_sub_def demo_parse)
qed

lemma read_loop_Some:
  assumes "read_loop cancelled drain c k S = Some y"
  shows "fst y \<noteq> None \<and> (\<exists>i. cancelled (k + i) \<or> (\<forall>m. cn_read c (k + i) \<noteq> Inr m))"
proof -
  let ?P = "\<lambda>cancelled drain c k (S :: Subscriber) y. fst (y :: go_error option \<times> Subscriber) \<noteq> None
    \<and> (\<exists>i. cancelled (k + i :: nat) \<or> (\<forall>m. cn_read c (k + i) \<noteq> Inr m))"
  show ?thesis
  proof (rule read_loop.raw_induct [of ?P, OF _ assms])
    fix f cancelled and drain :: "nat \<Rightarrow> Subscriber \<Rightarrow> Subscriber" and c k and S :: Subscriber and y
    assume IH: "\<And>cancelled drain c k S y. f cancelled drain c k S = Some y \<Longrightarrow> ?P cancelled drain c k S y"
      and eq: "(if cancelled k then Some (Some ErrCanceled, S)
        else case cn_read c k of Inl e \<Rightarrow> Some (Some e, S)
          | Inr msg \<Rightarrow> f cancelled drain c (k + 1) (drain k (on_message msg S))) = Some y"
    show "?P cancelled drain c k S y"
    proof (cases "cancelled k \<or> (\<forall>m. cn_read c k \<noteq> Inr m)")
      case True
      with eq have "fst y \<noteq> None" by (cases "cn_read c k") (auto split: if_splits)
      with True show ?thesis by (intro conjI exI [of _ 0]) simp_all
    next
      case False
      then obtain m where "\<not> cancelled k" "cn_read c k = Inr m" by blast
      with eq have "f cancelled drain c (k + 1) (drain k (on_message m S)) = Some y" by simp
      from IH [OF this] obtain i where "fst y \<noteq> None"
        "cancelled (k + 1 + i) \<or> (\<forall>m. cn_read c (k + 1 + i) \<noteq> Inr m)" by blast
      then show ?thesis by (intro conjI exI [of _ "Suc i"]) simp_all
    qed
  qed
qed

lemma read_loop_ends:
  "cancelled (k + i) \<or> (\<forall>m. cn_read c (k + i) \<noteq> Inr m) \<Longrightarrow> read_loop cancelled drain c k S \<noteq> None"
proof (induction i arbitrary: k S)
  case 0
  then show ?case by (subst read_loop.simps) (cases "cn_read c k"; auto)
next
  case (Suc i)
  from Suc.prems have "cancelled (k + 1 + i) \<or> (\<forall>m. cn_read c (k + 1 + i) \<noteq> Inr m)" by simp
  from Suc.IH [OF this] show ?case
    by (subst read_loop.simps) (cases "cn_read c k"; simp)
qed

lemma runOnce_error: "runOnce cancelled drain dial S = Some (r, S') \<Longrightarrow> r \<noteq> None"
  using read_loop_Some by (fastforce simp: runOnce_def split: sum.splits)


text \<open>
  A notification that arrives before the answer to the second subscription is taken for that
  answer, and the connection is given up.
\<close>

lemma early_notification:
  assumes "subscribe c 0 ''newPendingTransactions'' = Inr p" and "cn_write c 1 = None"
    and "cn_read c 1 = Inr (Some (JObj kvs))" and "''result'' \<notin> fst ` set kvs"
  shows "runOnce cancelled drain (Inr c) S = Some (Some (ErrNew ''subscribe newHeads failed''), S)"
proof -
  have "map_of (rev kvs) ''result'' = None" using assms(4) by (simp add: map_of_eq_None_iff)
  with assms show ?thesis
    by (simp add: runOnce_def subscribe_def [of c "Suc 0"] and_then_def wrap_err_def is_object_def json_field_def
        unmarshal_string_def)
qed

section \<open>Waits between sessions\<close>

lemma sub_pass_wait:
  "sub_pass cancelled drain dial r (b, S) = Some (w, b', S') \<Longrightarrow> (w, b') = sub_backoff r b"
  using runOnce_error [of cancelled drain dial S]
  by (auto simp: sub_pass_def split: option.splits prod.splits)

lemma next_wait: "snd (sub_backoff r b) = min (2 * b) 30000000000"
  by (simp add: sub_backoff_def Let_def mult.commute)

lemma sub_run_waits:
  "sub_run don cancelled drain dial rnd n i (b, S) = Some (ws, s') \<Longrightarrow> j < length ws \<Longrightarrow>
   ws ! j = fst (sub_backoff (rnd (i + j)) (((\<lambda>b. min (2 * b) 30000000000) ^^ j) b))"
proof (induction n arbitrary: i b S ws j)
  case (Suc n)
  from Suc.prems have nd: "\<not> don i" by (auto split: if_splits)
  from Suc.prems(1) nd obtain w b1 S1 ws1 where
    p: "sub_pass (cancelled i) (drain i) (dial i) (rnd i) (b, S) = Some (w, b1, S1)"
    and r: "sub_run don cancelled drain dial rnd n (Suc i) (b1, S1) = Some (ws1, s')" and ws: "ws = w # ws1"
    by (auto split: option.splits)
  from sub_pass_wait [OF p] have w: "w = fst (sub_backoff (rnd i) b)" "b1 = min (2 * b) 30000000000"
    using next_wait [of "rnd i" b] by (metis fst_conv, metis snd_conv)
  show ?case
  proof (cases j)
    case 0
    with ws w show ?thesis by simp
  next
    case (Suc j')
    with Suc.prems(2) ws have "j' < length ws1" by simp
    from Suc.IH [OF r this] Suc ws w(2) show ?thesis by (simp add: funpow_Suc_right del: funpow.simps)
  qed
qed simp

lemma backoff_iter: "((\<lambda>b :: int. min (2 * b) 30000000000) ^^ j) 1000000000 = min (1000000000 * 2 ^ j) 30000000000"
  by (induction j) auto

text \<open>
  Waits between sessions.  Whatever the connections did, the wait after the \<open>j\<close>-th session
  (counted from 0) is between nine and eleven tenths of \<open>1s * 2 ^ j\<close>, that capped at 30 seconds,
  and never more than 30 seconds.  A session that delivered for hours does not bring the wait
  back to one second.
\<close>

theorem reconnect_waits:
  assumes "sub_run don cancelled drain dial rnd n 0 (1000000000, S) = Some (ws, s')"
    and "\<And>i. 0 \<le> rnd i \<and> rnd i < 1" and "j < length ws"
  shows "9 * min (1000000000 * 2 ^ j) 30000000000 \<le> 10 * (ws ! j) + 9
    \<and> 10 * (ws ! j) \<le> 11 * min (1000000000 * 2 ^ j) 30000000000 \<and> ws ! j \<le> 30000000000"
proof -
  let ?b = "min (1000000000 * 2 ^ j) 30000000000 :: int"
  let ?q = "9 / 10 + rnd j * (1 / 5)"
  have w: "ws ! j = fst (sub_backoff (rnd j) ?b)"
    using sub_run_waits [OF assms(1,3)] by (simp add: backoff_iter)
  define x where "x = (of_int ?b :: rat) * ?q"
  have q: "9 / 10 \<le> ?q" "?q \<le> 11 / 10" using assms(2) [of j] by simp_all
  have pos: "(0 :: rat) \<le> of_int ?b" by simp
  have lo: "of_int ?b * (9 / 10) \<le> x" and hi: "x \<le> of_int ?b * (11 / 10)"
    unfolding x_def by (rule mult_left_mono [OF q(1) pos], rule mult_left_mono [OF q(2) pos])
  have cap: "(of_int ?b :: rat) \<le> 30000000000" by simp
  have wf: "ws ! j = \<lfloor>min x 30000000000\<rfloor>"
    unfolding w by (simp add: sub_backoff_def Let_def x_def min_def)
  define y where "y = min x 30000000000"
  have y: "of_int ?b * (9 / 10) \<le> y" "y \<le> of_int ?b * (11 / 10)" "y \<le> 30000000000"
    using lo hi cap pos by (auto simp: y_def min_def)
  have f: "of_int (ws ! j) \<le> y" "y < of_int (ws ! j) + 1" unfolding wf y_def [symmetric] by linarith+
  have "9 * of_int ?b < 10 * of_int (ws ! j) + (10 :: rat)" "10 * of_int (ws ! j) \<le> 11 * (of_int ?b :: rat)"
    "of_int (ws ! j) \<le> (30000000000 :: rat)"
    using f y by linarith+
  then have "(of_int (9 * ?b) :: rat) < of_int (10 * (ws ! j) + 10)"
    "(of_int (10 * (ws ! j)) :: rat) \<le> of_int (11 * ?b)" "(of_int (ws ! j) :: rat) \<le> of_int 30000000000"
    by (simp_all del: of_int_min)
  then have "9 * ?b < 10 * (ws ! j) + 10" "10 * (ws ! j) \<le> 11 * ?b" "ws ! j \<le> 30000000000"
    by (simp_all only: of_int_less_iff of_int_le_iff)
  then show ?thesis by simp
qed

text \<open>Two connections refused, then cancelled.\<close>

theorem reconnect_waits_witness:
  "\<exists>ws s'. sub_run (\<lambda>i. i = 2) (\<lambda>_ _. False) (\<lambda>_ _ S. S) (\<lambda>i. Inl (ErrNew ''refused'')) (\<lambda>i. 1 / 2) 5 0
      (1000000000, demo_sub) = Some (ws, s') \<and> length ws = 2 \<and> ws ! 1 \<le> 2200000000"
proof -
  let ?r = "sub_run (\<lambda>i. i = 2) (\<lambda>_ _. False) (\<lambda>_ _ S. S) (\<lambda>i. Inl (ErrNew ''refused'')) (\<lambda>i. 1 / 2) 5 0
      (1000000000, demo_sub)"
  obtain ws s' where r: "?r = Some (ws, s')" and l: "length ws = 2"
    by (simp add: eval_nat_numeral sub_pass_def runOnce_def sub_backoff_def Let_def)
  from reconnect_waits [OF r, of 1] l have "10 * (ws ! 1) \<le> 11 * min (1000000000 * 2 ^ 1) 30000000000"
    by simp
  with r l show ?thesis by auto
qed

end
