(* ===== verification/Service.thy ===== *)
theory Service
  imports Fetcher Subscriber_Correct Config
begin

text \<open>
  \<open>internal/mempool/service.go\<close>: the mempool service.  \<open>Run\<close> merges its flags into the
  configuration, builds the subscriber, the tracker and the fetcher and forwards what the
  subscriber announces.  The running service is a step relation: one step is a message from the
  node, one turn of the loop of \<open>Run\<close>, one hash handled by a fetcher or a receipt worker, or one
  sweep.  (\<open>Tracker_Correct\<close> has the interleaving of the handlers' critical sections.)
\<close>

section \<open>Durations\<close>

text \<open>
  \<open>time.ParseDuration\<close>: an optional sign, then numbers with an optional fraction and a unit.
  The microsecond spelled with a Greek letter is not in the model; the fraction is exact (Go computes it in
  \<open>float64\<close> and ignores digits beyond 64 bits).
\<close>

definition is_digit :: "char \<Rightarrow> bool" where
  "is_digit c \<longleftrightarrow> 48 \<le> (of_char c :: nat) \<and> (of_char c :: nat) \<le> 57"

definition unit_ns :: "string \<Rightarrow> nat option" where
  "unit_ns = map_of [(''ns'', 1), (''us'', 1000), (''ms'', 1000000), (''s'', 1000000000),
     (''m'', 60000000000), (''h'', 3600000000000)]"

definition bad_duration :: go_error where
  "bad_duration = ErrNew ''time: invalid duration''"

function duration_loop :: "string \<Rightarrow> nat \<Rightarrow> nat result" where
  "duration_loop s d =
     (if s = [] then Inr d
      else let pre = takeWhile is_digit s; s1 = dropWhile is_digit s;
               dot = (case s1 of c # _ \<Rightarrow> c = CHR ''.'' | [] \<Rightarrow> False);
               s2 = (if dot then tl s1 else s1);
               post = (if dot then takeWhile is_digit s2 else []);
               s3 = (if dot then dropWhile is_digit s2 else s2);
               u = takeWhile (\<lambda>c. c \<noteq> CHR ''.'' \<and> \<not> is_digit c) s3;
               s4 = dropWhile (\<lambda>c. c \<noteq> CHR ''.'' \<and> \<not> is_digit c) s3
           in if (pre = [] \<and> post = []) \<or> u = [] then Inl bad_duration
              else case unit_ns u of
                None \<Rightarrow> Inl bad_duration
              | Some n \<Rightarrow>
                  (let v = read_nat pre * n + read_nat post * n div 10 ^ length post in
                   if d + v > 2 ^ 63 then Inl bad_duration else duration_loop s4 (d + v)))"
  by pat_completeness auto
termination
proof (relation "measure (\<lambda>(s, d). length s)")
  fix s pre s1 s2 s3 s4 u post :: string and d v n dot
  assume "s \<noteq> []" and 1: "s1 = dropWhile is_digit s" and 2: "s2 = (if dot then tl s1 else s1)"
    and 3: "s3 = (if dot then dropWhile is_digit s2 else s2)"
    and u: "u = takeWhile (\<lambda>c. c \<noteq> CHR ''.'' \<and> \<not> is_digit c) s3"
    and 4: "s4 = dropWhile (\<lambda>c. c \<noteq> CHR ''.'' \<and> \<not> is_digit c) s3"
    and ne: "\<not> (pre = [] \<and> post = [] \<or> u = [])"
  have "length s1 \<le> length s" unfolding 1 by (rule length_dropWhile_le)
  moreover have "length s2 \<le> length s1" unfolding 2 by simp
  moreover have "length s3 \<le> length s2" unfolding 3 by (simp add: length_dropWhile_le)
  moreover have "length u + length s4 = length s3"
    unfolding u 4 by (metis length_append takeWhile_dropWhile_id)
  moreover have "0 < length u" using ne by simp
  ultimately have "length s4 < length s" by linarith
  then show "((s4, d + v), (s, d)) \<in> measure (\<lambda>(s, d). length s)" by simp
qed simp

declare duration_loop.simps [simp del]

definition ParseDuration :: "string \<Rightarrow> int result" where
  "ParseDuration s =
     (let signed = (case s of c # _ \<Rightarrow> c = CHR ''-'' \<or> c = CHR ''+'' | [] \<Rightarrow> False);
          neg = (signed \<and> hd s = CHR ''-''); s = (if signed then tl s else s)
      in if s = ''0'' then Inr 0
         else if s = [] then Inl bad_duration
         else and_then (duration_loop s 0) (\<lambda>d.
           if neg then Inr (- int d)
           else if d > 2 ^ 63 - 1 then Inl bad_duration else Inr (int d)))"

lemma duration_examples:
  "ParseDuration ''10m'' = Inr 600000000000 \<and> ParseDuration ''1h30m'' = Inr 5400000000000
   \<and> ParseDuration ''-1.5s'' = Inr (- 1500000000) \<and> ParseDuration ''10'' = Inl bad_duration
   \<and> ParseDuration ''0'' = Inr 0 \<and> ParseDuration [] = Inl bad_duration"
  by (simp add: ParseDuration_def duration_loop.simps unit_ns_def is_digit_def read_nat_def char_digit_def
      Let_def and_then_def bad_duration_def)

section \<open>Starting the service\<close>

definition mempool_flags ::
    "MempoolConfig \<Rightarrow> bool \<Rightarrow> bool \<Rightarrow> string \<Rightarrow> int \<Rightarrow> int \<Rightarrow> MempoolConfig result" where
  "mempool_flags m decodeInput track droppedTTL pendingWorkers receiptWorkers =
     (let m = (if decodeInput then m\<lparr>mc_DecodeInput := True\<rparr> else m);
          m = (if pendingWorkers > 0 then m\<lparr>mc_PendingWorkers := pendingWorkers\<rparr> else m);
          m = (if receiptWorkers > 0 then m\<lparr>mc_ReceiptWorkers := receiptWorkers\<rparr> else m)
      in and_then (if droppedTTL \<noteq> '''' then and_then (ParseDuration droppedTTL) (\<lambda>d. Inr (m\<lparr>mc_DroppedTTL := d\<rparr>))
                   else Inr m) (\<lambda>m.
         let m = (if track then m\<lparr>mc_TrackLifecycle := True\<rparr> else m) in
         if mc_WSURL m = '''' \<or> mc_HTTPURL m = ''''
         then Inl (ErrNew ''mempool.ws_url and mempool.http_url are required'') else Inr m))"

record 's Service =
  sv_sub :: Subscriber
  sv_fetcher :: Fetcher
  sv_track :: bool
  sv_world :: "'s MemWorld"

definition NewSubscriber :: "int \<Rightarrow> int \<Rightarrow> Subscriber" where
  "NewSubscriber pending_cap head_cap = \<lparr>sb_pendingC = [], sb_pending_cap = pending_cap,
     sb_headC = [], sb_head_cap = head_cap\<rparr>"

text \<open>
  The state in which the loop of \<open>Run\<close> starts.  A negative \<open>max_inflight_hashes\<close> makes \<open>make\<close>
  panic; \<open>Validate\<close> rules it out.
\<close>

definition service_start :: "Config \<Rightarrow> Registry option \<Rightarrow>
    bool \<Rightarrow> bool \<Rightarrow> string \<Rightarrow> int \<Rightarrow> int \<Rightarrow> 's \<Rightarrow> 's Service result" where
  "service_start cfg decoder decodeInput track droppedTTL pendingWorkers receiptWorkers s =
     and_then (mempool_flags (cf_Mempool cfg) decodeInput track droppedTTL pendingWorkers receiptWorkers) (\<lambda>m.
       if mc_MaxInflightHashes m < 0 then Inl (ErrNew ''panic: makechan: size out of range'')
       else Inr \<lparr>sv_sub = NewSubscriber (mc_MaxInflightHashes m) 128,
              sv_fetcher = NewFetcher (cc_ChainID (cf_Chain cfg)) (mc_PendingWorkers m)
                 (mc_MaxInflightHashes m) (mc_DecodeInput m) decoder,
              sv_track = mc_TrackLifecycle m,
              sv_world = \<lparr>mw_tick = 0,
                 mw_tracker = NewTracker (mc_DroppedTTL m) (mc_ReceiptWorkers m) (mc_MaxInflightHashes m),
                 mw_store = s\<rparr>\<rparr>)"

section \<open>The running service\<close>

text \<open>The two receiving cases of the \<open>select\<close>.\<close>

definition forward_hash :: "'s Service \<Rightarrow> 's Service" where
  "forward_hash s = (case sb_pendingC (sv_sub s) of
     [] \<Rightarrow> s
   | hash # q \<Rightarrow> s\<lparr>sv_sub := (sv_sub s)\<lparr>sb_pendingC := q\<rparr>, sv_fetcher := Enqueue hash (sv_fetcher s)\<rparr>)"

definition forward_head :: "string list \<Rightarrow> 's Service \<Rightarrow> 's Service" where
  "forward_head keys s = (case sb_headC (sv_sub s) of
     [] \<Rightarrow> s
   | head # q \<Rightarrow> s\<lparr>sv_sub := (sv_sub s)\<lparr>sb_headC := q\<rparr>,
       sv_world := (if sv_track s
         then (sv_world s)\<lparr>mw_tracker := OnHead keys head (mw_tracker (sv_world s))\<rparr> else sv_world s)\<rparr>)"

datatype svc_event =
    Announce message
  | ForwardHash
  | ForwardHead "string list"
  | FetchOne
  | ReceiptOne
  | SweepOne "string list"

definition svc_handle :: "'v Env \<Rightarrow> 's Deps \<Rightarrow> svc_event \<Rightarrow> 's Service \<Rightarrow> 's Service" where
  "svc_handle E D ev s = (case ev of
     Announce msg \<Rightarrow> s\<lparr>sv_sub := on_message msg (sv_sub s)\<rparr>
   | ForwardHash \<Rightarrow> forward_hash s
   | ForwardHead keys \<Rightarrow> forward_head keys s
   | FetchOne \<Rightarrow> (case fetch_worker E D (HandleTx E D) (sv_fetcher s, sv_world s) of
       (F, w) \<Rightarrow> s\<lparr>sv_fetcher := F, sv_world := w\<rparr>)
   | ReceiptOne \<Rightarrow> s\<lparr>sv_world := receiptWorker E D (sv_world s)\<rparr>
   | SweepOne keys \<Rightarrow> s\<lparr>sv_world := dropExpired E D keys (sv_world s)\<rparr>)"

definition svc_run :: "'v Env \<Rightarrow> 's Deps \<Rightarrow> svc_event list \<Rightarrow> 's Service \<Rightarrow> 's Service" where
  "svc_run E D evs s = fold (svc_handle E D) evs s"

section \<open>The queues\<close>

text \<open>Between two handlers, the hashes in flight are those in the channel.\<close>

definition idle_flight :: "Tracker \<Rightarrow> bool" where
  "idle_flight T \<longleftrightarrow> finite (tk_inflight T) \<and> distinct (tk_receiptC T) \<and> set (tk_receiptC T) = tk_inflight T
     \<and> int (card (tk_inflight T)) \<le> tk_maxInflight T"

lemma idle_enqueue: "idle_flight T \<Longrightarrow> idle_flight (enqueueReceipt h T)"
  using distinct_card [of "tk_receiptC T"]
  by (auto simp: idle_flight_def enqueueReceipt_def reserve_def offer_def)

lemma idle_fold: "idle_flight T \<Longrightarrow> idle_flight (fold enqueueReceipt hs T)"
  by (induction hs arbitrary: T) (simp_all add: idle_enqueue)

lemma idle_same:
  assumes "tk_inflight T' = tk_inflight T" and "tk_receiptC T' = tk_receiptC T" and "tk_maxInflight T' = tk_maxInflight T"
  shows "idle_flight T' = idle_flight T"
  using assms by (simp add: idle_flight_def)

lemma after_seen_frame [frame]:
  "tk_inflight (after_seen now tx T) = tk_inflight T" "tk_receiptC (after_seen now tx T) = tk_receiptC T"
  "tk_maxInflight (after_seen now tx T) = tk_maxInflight T"
  by (simp_all add: after_seen_def track_seen_def Let_def frame)

lemma idle_HandleTx: "idle_flight (mw_tracker w) \<Longrightarrow> idle_flight (mw_tracker (snd (HandleTx E D tx w)))"
  using idle_same [of "after_seen (en_now E (mw_tick w)) (stamp (en_now E (mw_tick w)) tx) (mw_tracker w)" "mw_tracker w"]
  by (simp add: HandleTx_tracker Let_def frame idle_enqueue split: option.splits)

lemma idle_take:
  assumes "idle_flight T" and "tk_receiptC T = h # q"
    and "T' = release h (T\<lparr>tk_receiptC := q\<rparr>) \<or> T' = release h (forget h (T\<lparr>tk_receiptC := q\<rparr>))"
  shows "idle_flight T'"
proof -
  have "tk_inflight T' = tk_inflight T - {h}" "tk_receiptC T' = q" "tk_maxInflight T' = tk_maxInflight T"
    using assms(3) by (auto simp: frame release_def)
  with assms(1,2) card_Diff1_le [of "tk_inflight T" h] show ?thesis by (auto simp: idle_flight_def)
qed

lemma idle_receiptWorker:
  assumes "idle_flight (mw_tracker w)"
  shows "idle_flight (mw_tracker (receiptWorker E D w))"
proof (cases "tk_receiptC (mw_tracker w)")
  case Nil
  with assms show ?thesis by (simp add: receiptWorker_def)
next
  case (Cons h q)
  let ?w = "w\<lparr>mw_tracker := (mw_tracker w)\<lparr>tk_receiptC := q\<rparr>\<rparr>"
  have "idle_flight (mw_tracker (handleReceipt E D h ?w))"
    using handleReceipt_tracker [of E D h ?w] by (intro idle_take [OF assms Cons]) simp
  with Cons show ?thesis by (simp add: receiptWorker_def)
qed

definition bounded_tracker :: "int \<Rightarrow> Tracker \<Rightarrow> bool" where
  "bounded_tracker N T \<longleftrightarrow> idle_flight T \<and> tk_maxInflight T = N"

lemma max_HandleTx: "tk_maxInflight (mw_tracker (snd (HandleTx E D tx w))) = tk_maxInflight (mw_tracker w)"
  by (simp add: HandleTx_tracker Let_def frame split: option.splits)

interpretation queues: tx_handler "HandleTx E D" "\<lambda>w. bounded_tracker N (mw_tracker w)" "\<lambda>m. True"
  for E :: "'v Env" and D :: "'s Deps" and N
  by unfold_locales (simp_all add: bounded_tracker_def idle_HandleTx max_HandleTx)

text \<open>
  The invariant of the running service, with \<open>N\<close> the configured maximum: every queue within its
  bound, and one transaction pending per sender and nonce.
\<close>

definition service_ok :: "(string \<Rightarrow> string \<times> u64) \<Rightarrow> int \<Rightarrow> 's Service \<Rightarrow> bool" where
  "service_ok f N s \<longleftrightarrow> in_room (sv_sub s) \<and> sb_pending_cap (sv_sub s) = N \<and> sb_head_cap (sv_sub s) = 128
     \<and> int (length (fe_pendingC (sv_fetcher s))) \<le> N \<and> fe_maxInflight (sv_fetcher s) = N
     \<and> bounded_tracker N (mw_tracker (sv_world s)) \<and> one_pending f (mw_tracker (sv_world s))"

text \<open>
  What the service relies on: the node tells the same sender and nonce for a hash, up to the case
  of the letters, whenever it is asked.
\<close>

definition node_consistent :: "(string \<Rightarrow> string \<times> u64) \<Rightarrow> 's Deps \<Rightarrow> bool" where
  "node_consistent f D \<longleftrightarrow> (\<forall>t h tx. rpc_GetTransactionByHash (dp_RPC D) t h = Inr (Some tx) \<longrightarrow>
     tx_Hash tx \<noteq> '''' \<and> f (to_lower (tx_Hash tx)) = (to_lower (tx_From tx), tx_Nonce tx))"

lemma mapped_identified:
  assumes "node_consistent f D" and "rpc_GetTransactionByHash (dp_RPC D) t h = Inr (Some tx)"
    and "toMempoolTx c now tx = Inr m"
  shows "identified f m \<and> mt_Hash m \<noteq> []"
proof -
  from assms(1,2) have "tx_Hash tx \<noteq> ''''" "f (to_lower (tx_Hash tx)) = (to_lower (tx_From tx), tx_Nonce tx)"
    unfolding node_consistent_def by blast+
  with assms(3) show ?thesis
    by (auto simp: toMempoolTx_def Let_def identified_def to_lower_def)
qed

lemma in_room_shorter:
  "in_room S \<Longrightarrow> sb_pendingC S = h # q \<Longrightarrow> in_room (S\<lparr>sb_pendingC := q\<rparr>)"
  "in_room S \<Longrightarrow> sb_headC S = g # r \<Longrightarrow> in_room (S\<lparr>sb_headC := r\<rparr>)"
  by (simp_all add: in_room_def)

lemma bounded_steps:
  assumes "bounded_tracker N T"
  shows "bounded_tracker N (OnHead keys head T)"
    and "bounded_tracker N (fold (\<lambda>h. set_tracked h st) hs T)"
proof -
  have "tk_maxInflight (fold enqueueReceipt hs T) = tk_maxInflight T" for hs
    by (induction hs arbitrary: T) (simp_all add: frame)
  then show "bounded_tracker N (OnHead keys head T)"
    using assms by (simp add: bounded_tracker_def OnHead_def scheduleReceipts_def idle_fold)
  show "bounded_tracker N (fold (\<lambda>h. set_tracked h st) hs T)"
    using assms idle_same [of "fold (\<lambda>h. set_tracked h st) hs T" T] by (simp add: bounded_tracker_def frame)
qed

lemma bounded_receiptWorker:
  assumes "bounded_tracker N (mw_tracker w)"
  shows "bounded_tracker N (mw_tracker (receiptWorker E D w))"
proof -
  have "tk_maxInflight (mw_tracker (handleReceipt E D h w')) = tk_maxInflight (mw_tracker w')" for h w'
    using handleReceipt_tracker [of E D h w'] by (auto simp: frame)
  then have "tk_maxInflight (mw_tracker (receiptWorker E D w)) = tk_maxInflight (mw_tracker w)"
    by (simp add: receiptWorker_def split: list.splits)
  with assms show ?thesis by (simp add: bounded_tracker_def idle_receiptWorker)
qed

lemma service_step:
  assumes ok: "service_ok f N s" and nc: "node_consistent f D"
  shows "service_ok f N (svc_handle E D ev s)"
proof (cases ev)
  case (Announce msg)
  with ok on_message_room [of "sv_sub s" msg] on_message_effect [of "sv_sub s" msg] show ?thesis
    by (simp add: service_ok_def svc_handle_def)
next
  case ForwardHash
  with ok show ?thesis
    by (cases "sb_pendingC (sv_sub s)")
      (auto simp: service_ok_def svc_handle_def forward_hash_def in_room_shorter Enqueue_def)
next
  case (ForwardHead keys)
  have "one_pending f (OnHead keys head T) = one_pending f T" for head T by (simp add: OnHead_def)
  with ForwardHead ok bounded_steps(1) show ?thesis
    by (cases "sb_headC (sv_sub s)")
      (auto simp: service_ok_def svc_handle_def forward_head_def in_room_shorter)
next
  case FetchOne
  show ?thesis
  proof (cases "fe_pendingC (sv_fetcher s)")
    case Nil
    with FetchOne ok show ?thesis by (simp add: svc_handle_def fetch_worker_def)
  next
    case (Cons h q)
    let ?w = "handleHash E D (sv_fetcher s) (HandleTx E D) h (sv_world s)"
    have "bounded_tracker N (mw_tracker ?w)"
      by (rule queues.handleHash_inv) (use ok in \<open>simp_all add: service_ok_def\<close>)
    moreover have "one_pending f (mw_tracker ?w)"
      by (rule tracker.handleHash_inv) (use ok mapped_identified [OF nc] in \<open>simp_all add: service_ok_def\<close>)
    ultimately show ?thesis
      using ok Cons FetchOne by (simp add: service_ok_def svc_handle_def fetch_worker_def)
  qed
next
  case ReceiptOne
  have "one_pending f (mw_tracker (receiptWorker E D (sv_world s)))"
    using one_pending_handle [of f "sv_world s" TakeReceipt E D] ok by (simp add: service_ok_def mem_handle_def)
  with ok bounded_receiptWorker [of N "sv_world s" E D] ReceiptOne show ?thesis by (simp add: service_ok_def svc_handle_def)
next
  case (SweepOne keys)
  have "one_pending f (mw_tracker (dropExpired E D keys (sv_world s)))"
    using ok one_pending_handle [of f "sv_world s" "SweepNow keys" E D] by (simp add: service_ok_def mem_handle_def)
  moreover have "bounded_tracker N (mw_tracker (dropExpired E D keys (sv_world s)))"
    using ok bounded_steps(2) by (simp add: service_ok_def dropExpired_tracker)
  ultimately show ?thesis using ok SweepOne by (simp add: service_ok_def svc_handle_def)
qed

lemma service_run: "service_ok f N s \<Longrightarrow> node_consistent f D \<Longrightarrow> service_ok f N (svc_run E D evs s)"
  unfolding svc_run_def by (induction evs arbitrary: s) (simp_all add: service_step)

lemma mempool_flags_max:
  "mempool_flags c di tr ttl pw rw = Inr m \<Longrightarrow> mc_MaxInflightHashes m = mc_MaxInflightHashes c"
  by (auto simp: mempool_flags_def Let_def and_then_Inr split: if_splits)

lemma service_start_ok:
  assumes "mempool_cfg_ok (cf_Mempool cfg)"
    and "service_start cfg dec di tr ttl pw rw st = Inr s"
  shows "service_ok f (mc_MaxInflightHashes (cf_Mempool cfg)) s"
proof -
  from assms(2) obtain m where m: "mempool_flags (cf_Mempool cfg) di tr ttl pw rw = Inr m"
    by (auto simp: service_start_def and_then_Inr)
  then have "mc_MaxInflightHashes m = mc_MaxInflightHashes (cf_Mempool cfg)" by (rule mempool_flags_max)
  with m assms show ?thesis
    by (auto simp: service_start_def and_then_Inr service_ok_def NewSubscriber_def in_room_def NewFetcher_def
        bounded_tracker_def NewTracker_def idle_flight_def one_pending_def index_consistent_def is_status_def
        mempool_cfg_ok_def Let_def split: if_splits)
qed


text \<open>The sample configuration and a node that knows one transaction.\<close>

definition known_deps :: "db Deps" where
  "known_deps = (demo_deps 2 20)\<lparr>dp_RPC := (demo_rpc 2 20)\<lparr>
     rpc_GetTransactionByHash := \<lambda>t h. Inr (Some demo_known),
     rpc_GetTransactionReceipt := \<lambda>t h. Inr (Some \<lparr>rc_TransactionHash = h, rc_BlockHash = ''b'',
       rc_BlockNumber = Some 9, rc_TransactionIndex = Some 0, rc_Status = Some 1\<rparr>)\<rparr>\<rparr>"

lemma known_hash: "to_lower (tx_Hash demo_known) = ''0xab''" "to_lower (tx_From demo_known) = ''0xf''"
  by code_simp+

lemma known_node: "node_consistent (\<lambda>h. (''0xf'', 7)) known_deps"
  using known_hash by (simp add: node_consistent_def known_deps_def) (simp add: demo_known_def)

lemma sample_mempool:
  "cf_Mempool sample_validated = \<lparr>mc_WSURL = ''ws://h'', mc_HTTPURL = ''http://h'', mc_PendingWorkers = 32,
     mc_ReceiptWorkers = 16, mc_DroppedTTL = 600000000000, mc_DecodeInput = False, mc_TrackLifecycle = True,
     mc_MaxInflightHashes = 50000\<rparr>" "cc_ChainID (cf_Chain sample_validated) = 1"
  by (simp_all add: sample_validated_def sample_config_def Validate_def resolveNetwork_def
      applyMempoolDefaults_def applyUIDefaults_def Let_def deriveWSURL_def tenMinutes_def trim_prefix_def)

lemma sample_starts:
  "service_start sample_validated None False False '''' 0 0 empty_db = Inr
     \<lparr>sv_sub = NewSubscriber 50000 128, sv_fetcher = NewFetcher 1 32 50000 False None, sv_track = True,
      sv_world = \<lparr>mw_tick = 0, mw_tracker = NewTracker 600000000000 16 50000, mw_store = empty_db\<rparr>\<rparr>"
  by (simp add: service_start_def mempool_flags_def sample_mempool Let_def)


lemma receipt_mines:
  assumes "a_store (dp_Store D)" and "db_minv (mw_store w)" and "\<And>u i. en_faults E u i = None"
    and "tk_receiptC (mw_tracker w) = [h]" and "tk_inflight (mw_tracker w) = {h}"
    and "db_status (mw_store w) h \<noteq> None"
    and "\<And>t. mined_info (rpc_GetTransactionReceipt (dp_RPC D) t h) = Some mi"
    and "fits_int64 (mi_BlockNumber mi)" and "fits_int64 (mi_TxIndex mi)"
  shows "db_status (mw_store (receiptWorker E D w)) h = Some ''mined''
    \<and> tk_txs (mw_tracker (receiptWorker E D w)) h = None
    \<and> tk_inflight (mw_tracker (receiptWorker E D w)) = {}"
proof -
  let ?w = "w\<lparr>mw_tracker := (mw_tracker w)\<lparr>tk_receiptC := []\<rparr>\<rparr>"
  have rw: "receiptWorker E D w = handleReceipt E D h ?w" using assms(4) by (simp add: receiptWorker_def)
  have "fst (st_MarkMempoolMined (dp_Store D) (en_faults E u) now h mi s) = None" for u now s
    using assms(1,3,8,9)
    by (auto simp: a_store_def sqlite_store_def pg_store_def sqlite_MarkMempoolMined_def
        pg_MarkMempoolMined_def bind_u64s_def)
  then have mn: "mined_now E D h ?w" using assms(7) by (simp add: mined_now_def)
  have mi: "db_minv (mw_store ?w)" using assms(2) by simp
  have "db_status (mw_store (handleReceipt E D h ?w)) = set_status h ''mined'' (db_status (mw_store ?w))
      \<and> mw_tracker (handleReceipt E D h ?w) = release h (forget h (mw_tracker ?w))"
    using assms(1) mn sqlite_mem.receipt_store(2) [OF mi, of D E h] pg_mem.receipt_store(2) [OF mi, of D E h]
    unfolding a_store_def by auto
  with assms(5,6) show ?thesis by (simp add: rw set_status_def release_def frame forget_txs)
qed

text \<open>
  C8. A transaction through the whole service.  When the node announces a hash, tells the
  transaction on the first question and has it in a block by the time the receipt is asked for,
  then (with a database that does not fail and integers that fit its columns) the transaction is
  pending in the table after the hash has been forwarded and fetched, with its receipt in flight;
  and once a receipt worker has taken it, it is mined in the table, the tracker has forgotten
  it and nothing is in flight.
\<close>

theorem announced_to_mined:
  assumes "config_ok cfg" and "service_start cfg dec di tr ttl pw rw st = Inr s0"
    and "a_store (dp_Store D)" and "db_minv st" and "\<And>u i. en_faults E u i = None"
    and "fits_int64 (cc_ChainID (cf_Chain cfg))"
    and "announced msg = [hash]"
    and "rpc_GetTransactionByHash (dp_RPC D) 0 hash = Inr (Some tx)" and "storable tx"
    and "\<And>t. mined_info (rpc_GetTransactionReceipt (dp_RPC D) t (to_lower (tx_Hash tx))) = Some mi"
    and "fits_int64 (mi_BlockNumber mi)" and "fits_int64 (mi_TxIndex mi)"
    and "s1 = svc_run E D [Announce msg, ForwardHash, FetchOne] s0"
    and "s2 = svc_run E D [ReceiptOne] s1"
  shows "db_status (mw_store (sv_world s1)) (to_lower (tx_Hash tx)) = Some ''pending''
    \<and> tk_inflight (mw_tracker (sv_world s1)) = {to_lower (tx_Hash tx)}
    \<and> db_status (mw_store (sv_world s2)) (to_lower (tx_Hash tx)) = Some ''mined''
    \<and> tk_txs (mw_tracker (sv_world s2)) (to_lower (tx_Hash tx)) = None
    \<and> tk_inflight (mw_tracker (sv_world s2)) = {}"
proof -
  let ?h = "to_lower (tx_Hash tx)"
  have mok: "mempool_cfg_ok (cf_Mempool cfg)" using assms(1) by (simp add: config_ok_def)
  let ?N = "mc_MaxInflightHashes (cf_Mempool cfg)"
  have N: "1 \<le> ?N" using mok by (simp add: mempool_cfg_ok_def)
  obtain m where m: "mempool_flags (cf_Mempool cfg) di tr ttl pw rw = Inr m"
    and s0: "s0 = \<lparr>sv_sub = NewSubscriber ?N 128, sv_fetcher = NewFetcher (cc_ChainID (cf_Chain cfg))
        (mc_PendingWorkers m) ?N (mc_DecodeInput m) dec, sv_track = mc_TrackLifecycle m,
      sv_world = \<lparr>mw_tick = 0, mw_tracker = NewTracker (mc_DroppedTTL m) (mc_ReceiptWorkers m) ?N, mw_store = st\<rparr>\<rparr>"
    using assms(2) mempool_flags_max by (fastforce simp: service_start_def and_then_Inr split: if_splits)
  let ?F = "(sv_fetcher s0)\<lparr>fe_pendingC := [hash]\<rparr>" and ?w = "sv_world s0"
  have w0: "mw_tick ?w = 0" "mw_store ?w = st" "tk_inflight (mw_tracker ?w) = {}"
    "tk_receiptC (mw_tracker ?w) = []" "tk_maxInflight (mw_tracker ?w) = ?N" "fe_chainID ?F = cc_ChainID (cf_Chain cfg)"
    using N by (simp_all add: s0 NewTracker_def NewFetcher_def Let_def)
  have room: "in_room (sv_sub s0)" using N by (simp add: s0 NewSubscriber_def in_room_def)
  define y where "y = svc_run E D [Announce msg, ForwardHash] s0"
  have y: "sv_fetcher y = ?F" "sv_world y = ?w"
    using N by (simp_all add: y_def svc_run_def svc_handle_def on_message_effect [OF room] assms(7) forward_hash_def)
      (simp_all add: s0 NewSubscriber_def filled_def NewFetcher_def Enqueue_def Let_def)
  have l: "fetch_loop (en_cancelled E) (dp_RPC D) hash 6 200000000 (mw_tick ?w) = (Found tx, [], 1)"
    using assms(8) w0(1) by (simp add: eval_nat_numeral)
  let ?w1 = "handleHash E D ?F (HandleTx E D) hash ?w"
  have "fits_int64 (fe_chainID ?F)" using w0(6) assms(6) by simp
  from handleHash_found [OF assms(3) l assms(5) this assms(9)] obtain x where
    H: "HandleTx E D x (?w\<lparr>mw_tick := 1 + 1\<rparr>) = (None, ?w1)" and x: "mt_Hash x = ?h" by metis
  have "s1 = svc_handle E D FetchOne y" by (simp add: assms(13) y_def svc_run_def)
  then have s1: "sv_world s1 = ?w1" by (simp add: svc_handle_def fetch_worker_def y)
  have mi: "db_minv (mw_store (?w\<lparr>mw_tick := 1 + 1\<rparr>))" using assms(4) w0(2) by simp
  have st1: "db_minv (mw_store ?w1)" "db_status (mw_store ?w1) ?h = Some ''pending''"
    using handle_pending [OF assms(3) mi H] x by auto
  have "mw_tracker ?w1 = enqueueReceipt ?h (after_seen (en_now E (1 + 1)) (stamp (en_now E (1 + 1)) x) (mw_tracker ?w))"
    using HandleTx_tracker [of E D x "?w\<lparr>mw_tick := 1 + 1\<rparr>"] H x by (simp add: Let_def)
  then have fl: "tk_inflight (mw_tracker ?w1) = {?h}" "tk_receiptC (mw_tracker ?w1) = [?h]"
    using N w0(3-5) by (simp_all add: enqueueReceipt_def reserve_def offer_def frame)
  have "sv_world s2 = receiptWorker E D ?w1" by (simp add: assms(14) svc_run_def svc_handle_def s1)
  with receipt_mines [OF assms(3) st1(1) assms(5) fl(2,1) _ assms(10-12)] st1(2) fl(1) s1
  show ?thesis by simp
qed

theorem announced_to_mined_witness:
  "\<exists>s0. service_start sample_validated None False False '''' 0 0 empty_db = Inr s0
    \<and> db_status (mw_store (sv_world (svc_run demo_env known_deps [ReceiptOne]
        (svc_run demo_env known_deps [Announce (demo_note (JStr ''0xab'')), ForwardHash, FetchOne] s0)))) ''0xab''
      = Some ''mined''"
proof -
  let ?mi = "\<lparr>mi_BlockNumber = 9, mi_BlockHash = ''b'', mi_TxIndex = 0\<rparr>"
  have ok: "config_ok sample_validated" using Validate_config_ok [OF sample_validates] .
  have A: "a_store (dp_Store known_deps)" by (simp add: known_deps_def a_store_def demo_deps_def)
  have i: "db_minv empty_db" by (simp add: db_view_defs empty_db_def mem_ok_def)
  have F: "\<And>u i. en_faults demo_env u i = None" by (simp add: no_faults_def)
  have an: "announced (demo_note (JStr ''0xab'')) = [''0xab'']"
    by (simp add: announced_def notification_def demo_note_def unmarshal_msg_def is_object_def
        json_field_def unmarshal_string_def raw_field_def and_then_def)
  have r: "rpc_GetTransactionByHash (dp_RPC known_deps) 0 ''0xab'' = Inr (Some demo_known)"
    by (simp add: known_deps_def)
  have st: "storable demo_known" by (simp add: storable_def demo_known_def fits_int64_def)
  have c: "fits_int64 (cc_ChainID (cf_Chain sample_validated))" by (simp add: sample_mempool fits_int64_def)
  have mn: "\<And>t. mined_info (rpc_GetTransactionReceipt (dp_RPC known_deps) t (to_lower (tx_Hash demo_known))) = Some ?mi"
    by (simp add: known_deps_def mined_info_def)
  show ?thesis
    using announced_to_mined [OF ok sample_starts A i F c an r st mn _ _ refl refl]
    unfolding sample_starts by (simp add: known_hash fits_int64_def)
qed

end
