(* ===== verification/Tiling.thy ===== *)
theory Tiling
  imports Store "HOL-Library.Multiset"
begin

text \<open>
  Consecutive checkpoints.  A list of checkpoints tiles the blocks \<open>[a, b)\<close> when each starts
  where the one before ended; the properties of indexing, of following the chain and of
  backfilling are stated with it.
\<close>

section \<open>Tilings\<close>

text \<open>The checkpoints are consecutive ranges that together cover \<open>[a, b)\<close>, without a gap.\<close>

fun tiles :: "nat \<Rightarrow> Checkpoint list \<Rightarrow> nat \<Rightarrow> bool" where
  "tiles a [] b = (a = b)"
| "tiles a (c # cs) b = (unat (cp_StartBlock c) = a \<and> cp_StartBlock c \<le> cp_EndBlock c
     \<and> tiles (unat (cp_EndBlock c) + 1) cs b)"

lemma tiles_snoc: "tiles a (cs @ [c]) b \<longleftrightarrow> (\<exists>m. tiles a cs m \<and> unat (cp_StartBlock c) = m
    \<and> cp_StartBlock c \<le> cp_EndBlock c \<and> b = unat (cp_EndBlock c) + 1)"
  by (induction cs arbitrary: a) auto

lemma tiles_append: "tiles a (cs @ ds) b \<longleftrightarrow> (\<exists>m. tiles a cs m \<and> tiles m ds b)"
  by (induction cs arbitrary: a) auto

lemma tiles_le: "tiles a cs b \<Longrightarrow> a \<le> b"
proof (induction cs arbitrary: a)
  case Nil
  then show ?case by simp
next
  case (Cons c cs)
  then have "unat (cp_EndBlock c) + 1 \<le> b" by simp
  with Cons.prems show ?case by (simp add: u64_arith)
qed

text \<open>The blocks of a range, and that a tiling covers each block of \<open>[a, b)\<close> exactly once.\<close>

definition covers :: "Checkpoint \<Rightarrow> u64 \<Rightarrow> bool" where
  "covers c n \<longleftrightarrow> cp_StartBlock c \<le> n \<and> n \<le> cp_EndBlock c"

lemma tiles_covers_outside:
  "tiles a cs b \<Longrightarrow> c \<in> set cs \<Longrightarrow> covers c n \<Longrightarrow> a \<le> unat n \<and> unat n < b"
proof (induction cs arbitrary: a)
  case Nil
  then show ?case by simp
next
  case (Cons d cs)
  from Cons.prems(1) have d: "unat (cp_StartBlock d) = a" "cp_StartBlock d \<le> cp_EndBlock d"
    and t: "tiles (unat (cp_EndBlock d) + 1) cs b" by auto
  from tiles_le [OF t] have le: "unat (cp_EndBlock d) + 1 \<le> b" .
  show ?case
  proof (cases "c = d")
    case True
    with Cons.prems(3) d le show ?thesis by (simp add: covers_def u64_arith)
  next
    case False
    with Cons.prems(2) have "c \<in> set cs" by simp
    from Cons.IH [OF t this Cons.prems(3)] d show ?thesis by (simp add: u64_arith)
  qed
qed

lemma tiles_covers:
  "tiles a cs b \<Longrightarrow> a \<le> unat n \<Longrightarrow> unat n < b \<Longrightarrow> \<exists>c \<in> set cs. covers c n"
proof (induction cs arbitrary: a)
  case Nil
  then show ?case by simp
next
  case (Cons d cs)
  then show ?case
    by (cases "unat n \<le> unat (cp_EndBlock d)") (auto simp: covers_def u64_arith)
qed

lemma tiles_disjoint:
  "tiles a cs b \<Longrightarrow> distinct cs \<and> (\<forall>c \<in> set cs. \<forall>d \<in> set cs. covers c n \<longrightarrow> covers d n \<longrightarrow> c = d)"
proof (induction cs arbitrary: a)
  case Nil
  then show ?case by simp
next
  case (Cons d cs)
  then have t: "tiles (unat (cp_EndBlock d) + 1) cs b" and d: "cp_StartBlock d \<le> cp_EndBlock d"
    by auto
  have out: "\<And>c n. c \<in> set cs \<Longrightarrow> covers c n \<Longrightarrow> \<not> covers d n"
    using tiles_covers_outside [OF t] by (fastforce simp: covers_def u64_arith)
  have "covers d (cp_EndBlock d)" using d by (simp add: covers_def)
  with out have "d \<notin> set cs" by blast
  with Cons.IH [OF t] out show ?case by auto
qed

section \<open>The newest checkpoint of a tiling\<close>

lemma tiles_before: "tiles a cs b \<Longrightarrow> c \<in> set cs \<Longrightarrow> unat (cp_EndBlock c) < b \<and> cp_StartBlock c \<le> cp_EndBlock c"
proof (induction cs arbitrary: a)
  case Nil
  then show ?case by simp
next
  case (Cons d cs)
  then have "unat (cp_EndBlock d) + 1 \<le> b" by (auto dest: tiles_le)
  with Cons show ?case by auto
qed

text \<open>The checkpoint with the largest end block is the last of the list.\<close>

lemma tiles_last_of:
  assumes "tiles a cs b" and "last_of cs (Some c)"
  obtains init where "cs = init @ [c]"
proof (cases cs rule: rev_cases)
  case Nil
  with assms(2) show ?thesis by (simp add: last_of_def)
next
  case (snoc init d)
  with assms(1) have t: "tiles a init (unat (cp_StartBlock d))" and d: "cp_StartBlock d \<le> cp_EndBlock d"
    by (auto simp: tiles_snoc)
  have "c \<notin> set init"
  proof
    assume "c \<in> set init"
    with tiles_before [OF t] have "unat (cp_EndBlock c) < unat (cp_StartBlock d)" by blast
    moreover have "cp_EndBlock d \<le> cp_EndBlock c" using assms(2) snoc by (auto simp: last_of_def)
    ultimately show False using d by (simp add: u64_arith)
  qed
  with assms(2) snoc have "c = d" by (auto simp: last_of_def)
  with snoc that show ?thesis by blast
qed

lemma tiles_filter_end:
  assumes "tiles a (init @ [c]) b"
  shows "filter (\<lambda>d. cp_EndBlock d < cp_StartBlock c) (init @ [c]) = init"
    and "filter (\<lambda>d. cp_StartBlock d < cp_StartBlock c) (init @ [c]) = init"
proof -
  from assms have t: "tiles a init (unat (cp_StartBlock c))" and c: "cp_StartBlock c \<le> cp_EndBlock c"
    by (auto simp: tiles_snoc)
  from tiles_before [OF t] have "\<forall>d \<in> set init. cp_EndBlock d < cp_StartBlock c \<and> cp_StartBlock d < cp_StartBlock c"
    by (fastforce simp: u64_arith)
  with c show "filter (\<lambda>d. cp_EndBlock d < cp_StartBlock c) (init @ [c]) = init"
    and "filter (\<lambda>d. cp_StartBlock d < cp_StartBlock c) (init @ [c]) = init"
    by (auto simp: filter_id_conv not_less)
qed

text \<open>The block after the checkpoint before the newest is the start of the newest.\<close>

lemma tiles_prev_end:
  assumes "tiles a (init @ [c]) b"
    and "last_of (filter (\<lambda>d. cp_EndBlock d < cp_StartBlock c) (init @ [c])) prev"
  shows "(case prev of None \<Rightarrow> cp_StartBlock c | Some p \<Rightarrow> cp_EndBlock p + 1) = cp_StartBlock c"
proof (cases prev)
  case None
  then show ?thesis by simp
next
  case (Some p)
  with assms(2) have "last_of init (Some p)" unfolding tiles_filter_end(1) [OF assms(1)] by simp
  moreover from assms(1) have t: "tiles a init (unat (cp_StartBlock c))" by (auto simp: tiles_snoc)
  ultimately obtain init' where "init = init' @ [p]" by (elim tiles_last_of)
  with t have s: "unat (cp_StartBlock c) = unat (cp_EndBlock p) + 1" by (simp add: tiles_snoc)
  with unat_u64_le [of "cp_StartBlock c"] have "unat (cp_EndBlock p) < 2 ^ 64 - 1" by simp
  with s Some show ?thesis by (simp add: u64_eq_iff unat_plus_one_lt)
qed

section \<open>Tilings in the order of the blocks\<close>

text \<open>
  The workers of a backfill save their checkpoints in any order: \<open>tiled\<close> asks for a tiling once
  they are sorted by their start blocks.
\<close>

definition tiled :: "nat \<Rightarrow> Checkpoint list \<Rightarrow> nat \<Rightarrow> bool" where
  "tiled a cs b \<longleftrightarrow> tiles a (sort_key cp_StartBlock cs) b"

lemma tiles_starts: "tiles a cs b \<Longrightarrow> c \<in> set cs \<Longrightarrow> a \<le> unat (cp_StartBlock c)"
  using tiles_covers_outside [of a cs b c "cp_StartBlock c"] tiles_before [of a cs b c]
  by (auto simp: covers_def)

lemma tiles_sorted: "tiles a cs b \<Longrightarrow> sorted (map cp_StartBlock cs) \<and> distinct (map cp_StartBlock cs)"
proof (induction cs arbitrary: a)
  case Nil
  then show ?case by simp
next
  case (Cons d cs)
  then have t: "tiles (unat (cp_EndBlock d) + 1) cs b" and d: "cp_StartBlock d \<le> cp_EndBlock d" by auto
  have "\<forall>c \<in> set cs. cp_StartBlock d < cp_StartBlock c"
    using tiles_starts [OF t] d by (fastforce simp: u64_arith)
  with Cons.IH [OF t] show ?case by (auto simp: order.strict_implies_order)
qed

lemma tiled_iff: "tiled a cs b \<longleftrightarrow> (\<exists>ds. mset ds = mset cs \<and> tiles a ds b)"
proof
  assume "tiled a cs b"
  then show "\<exists>ds. mset ds = mset cs \<and> tiles a ds b" unfolding tiled_def by (metis mset_sort)
next
  assume "\<exists>ds. mset ds = mset cs \<and> tiles a ds b"
  then obtain ds where ds: "mset ds = mset cs" "tiles a ds b" by blast
  have "sort_key cp_StartBlock cs = ds"
    using tiles_sorted [OF ds(2)] ds(1)
    by (intro sort_key_inj_key_eq) (auto simp: distinct_map dest: mset_eq_setD)
  with ds(2) show "tiled a cs b" by (simp add: tiled_def)
qed

lemma tiles_tiled: "tiles a cs b \<Longrightarrow> tiled a cs b"
  by (auto simp: tiled_iff)

lemma tiled_Nil [simp]: "tiled a [] b \<longleftrightarrow> a = b"
  by (simp add: tiled_def)

lemma tiled_append: "tiled a cs b \<Longrightarrow> tiles b ds d \<Longrightarrow> tiled a (cs @ ds) d"
  unfolding tiled_iff by (metis mset_append tiles_append)

lemma tiled_le: "tiled a cs b \<Longrightarrow> a \<le> b"
  using tiles_le by (auto simp: tiled_iff)

lemma last_of_mset: "mset cs = mset ds \<Longrightarrow> last_of cs r \<longleftrightarrow> last_of ds r"
  by (auto simp: last_of_def split: option.splits dest: mset_eq_setD)

text \<open>The newest checkpoint ends the tiling; the rest is tiled up to its start.\<close>

lemma tiled_last_of:
  assumes "tiled a cs b" and "last_of cs (Some c)"
  obtains init where "mset cs = mset (init @ [c])" and "tiles a (init @ [c]) b"
proof -
  from assms(1) obtain ds where ds: "mset ds = mset cs" "tiles a ds b" by (auto simp: tiled_iff)
  from assms(2) have "last_of ds (Some c)" by (simp add: last_of_mset [OF ds(1)])
  from tiles_last_of [OF ds(2) this] obtain init where "ds = init @ [c]" .
  with ds that show thesis by metis
qed

lemma tiled_prev_end:
  assumes "tiled a cs b" and "last_of cs (Some c)"
    and "last_of (filter (\<lambda>d. cp_EndBlock d < cp_StartBlock c) cs) prev"
  shows "(case prev of None \<Rightarrow> cp_StartBlock c | Some p \<Rightarrow> cp_EndBlock p + 1) = cp_StartBlock c"
proof -
  from tiled_last_of [OF assms(1,2)] obtain init where init: "mset cs = mset (init @ [c])" "tiles a (init @ [c]) b" .
  have "mset (filter P cs) = mset (filter P (init @ [c]))" for P
    using init(1) by (metis mset_filter)
  from last_of_mset [OF this] assms(3)
  have "last_of (filter (\<lambda>d. cp_EndBlock d < cp_StartBlock c) (init @ [c])) prev" by blast
  from tiles_prev_end [OF init(2) this] show ?thesis .
qed

lemma tiled_remove_last:
  assumes "tiled a cs b" and "last_of cs (Some c)"
  shows "filter (\<lambda>d. cp_StartBlock d < cp_StartBlock c) cs = remove1 c cs"
    and "tiled a (remove1 c cs) (unat (cp_StartBlock c))"
    and "d \<in> set (remove1 c cs) \<Longrightarrow> cp_EndBlock d < cp_StartBlock c"
    and "unat (cp_EndBlock c) + 1 = b"
proof -
  from tiled_last_of [OF assms] obtain init where init: "mset cs = mset (init @ [c])" "tiles a (init @ [c]) b" .
  then have t: "tiles a init (unat (cp_StartBlock c))" and b: "unat (cp_EndBlock c) + 1 = b"
    and c: "cp_StartBlock c \<le> cp_EndBlock c"
    by (auto simp: tiles_snoc)
  have m: "mset (remove1 c cs) = mset init" using init(1) by simp
  with t show "tiled a (remove1 c cs) (unat (cp_StartBlock c))" by (auto simp: tiled_iff)
  have before: "cp_EndBlock d < cp_StartBlock c" if "d \<in> set (remove1 c cs)" for d
    using that tiles_before [OF t] mset_eq_setD [OF m] by (auto simp: u64_arith)
  then show "d \<in> set (remove1 c cs) \<Longrightarrow> cp_EndBlock d < cp_StartBlock c" .
  from b show "unat (cp_EndBlock c) + 1 = b" .
  have "cp_StartBlock d < cp_StartBlock c" if "d \<in> set (remove1 c cs)" for d
    using that tiles_before [OF t] mset_eq_setD [OF m] by (fastforce simp: u64_arith)
  moreover have "distinct cs"
    using tiles_disjoint [OF init(2)] mset_eq_imp_distinct_iff [OF init(1)] by blast
  ultimately have "filter (\<lambda>d. cp_StartBlock d < cp_StartBlock c) cs = filter (\<lambda>d. d \<noteq> c) cs"
    by (intro filter_cong refl) (auto simp: set_remove1_eq)
  also have "\<dots> = remove1 c cs" using \<open>distinct cs\<close> by (simp add: distinct_remove1_removeAll removeAll_filter_not_eq eq_commute)
  finally show "filter (\<lambda>d. cp_StartBlock d < cp_StartBlock c) cs = remove1 c cs" .
qed

section \<open>How often a block is covered\<close>

definition cover_count :: "Checkpoint list \<Rightarrow> u64 \<Rightarrow> nat" where
  "cover_count cs n = length (filter (\<lambda>c. covers c n) cs)"

lemma cover_count_append [simp]: "cover_count (cs @ ds) n = cover_count cs n + cover_count ds n"
  by (simp add: cover_count_def)

lemma cover_count_one: "cover_count [c] n = (if covers c n then 1 else 0)"
  by (simp add: cover_count_def)

lemma cover_count_remove1:
  "c \<in> set cs \<Longrightarrow> cover_count cs n = cover_count (remove1 c cs) n + (if covers c n then 1 else 0)"
  unfolding cover_count_def by (induction cs) auto

lemma cover_count_0: "cover_count cs n = 0 \<longleftrightarrow> (\<forall>c \<in> set cs. \<not> covers c n)"
  by (auto simp: cover_count_def filter_empty_conv)

text \<open>Ranges that cover every block of \<open>[a, b)\<close> once, and no other, tile it.\<close>

lemma covered_once_tiled:
  assumes "\<And>n. cover_count cs n = (if a \<le> unat n \<and> unat n < b then 1 else 0)"
    and "\<And>c. c \<in> set cs \<Longrightarrow> cp_StartBlock c \<le> cp_EndBlock c"
    and "a \<le> b" and "b \<le> 2 ^ 64"
  shows "tiled a cs b"
  using assms
proof (induction "length cs" arbitrary: a cs rule: less_induct)
  case less
  have inside: "a \<le> unat n \<and> unat n < b" if "c \<in> set cs" "covers c n" for c n
    using less.prems(1) [of n] that cover_count_0 [of cs n] by (auto split: if_splits)
  show ?case
  proof (cases "a = b")
    case True
    have "cs = []"
    proof (rule ccontr)
      assume "cs \<noteq> []"
      then obtain c where c: "c \<in> set cs" by (cases cs) auto
      from inside [OF c, of "cp_StartBlock c"] less.prems(2) [OF c] True show False by (auto simp: covers_def)
    qed
    with True show ?thesis by simp
  next
    case False
    let ?n = "of_nat a :: u64"
    have n: "unat ?n = a" using False less.prems(3,4) by (simp add: unat_of_nat)
    with less.prems(1) [of ?n] False less.prems(3) have "cover_count cs ?n \<noteq> 0" by simp
    then obtain c where c: "c \<in> set cs" "covers c ?n" by (auto simp: cover_count_0)
    have v: "cp_StartBlock c \<le> cp_EndBlock c" using less.prems(2) c(1) by blast
    from c(2) n have sn: "unat (cp_StartBlock c) \<le> a" by (simp add: covers_def u64_arith)
    from inside [OF c(1), of "cp_StartBlock c"] inside [OF c(1), of "cp_EndBlock c"] v
    have st: "unat (cp_StartBlock c) = a" and e: "unat (cp_EndBlock c) + 1 \<le> b"
      using sn by (auto simp: covers_def)
    have cv: "covers c n \<longleftrightarrow> a \<le> unat n \<and> unat n < unat (cp_EndBlock c) + 1" for n
      using st by (auto simp: covers_def u64_arith)
    have "tiled (unat (cp_EndBlock c) + 1) (remove1 c cs) b"
    proof (rule less.hyps)
      show "length (remove1 c cs) < length cs" using c(1) length_pos_if_in_set [OF c(1)] by (simp add: length_remove1)
      show "cover_count (remove1 c cs) n = (if unat (cp_EndBlock c) + 1 \<le> unat n \<and> unat n < b then 1 else 0)" for n
        using cover_count_remove1 [OF c(1), of n] less.prems(1) [of n] cv [of n] e v st
        by (auto simp: u64_arith split: if_splits)
      show "cp_StartBlock d \<le> cp_EndBlock d" if "d \<in> set (remove1 c cs)" for d
        using that less.prems(2) by (meson set_remove1_subset subsetD)
    qed (use e less.prems(4) in simp_all)
    then obtain ds where ds: "mset ds = mset (remove1 c cs)" "tiles (unat (cp_EndBlock c) + 1) ds b"
      by (auto simp: tiled_iff)
    have "mset (c # ds) = mset cs" using ds(1) c(1) by simp
    moreover have "tiles a (c # ds) b" using ds(2) st v by simp
    ultimately show ?thesis unfolding tiled_iff by blast
  qed
qed

end
