(* ===== verification/Range_Correct.thy ===== *)
theory Range_Correct
  imports Demo Tiling Store_Correct
begin

text \<open>
  What \<open>processRangeAdaptive\<close> guarantees, proved over the contract of the log index
  (\<open>log_store\<close>), so for both databases: the checkpoints it saves tile a prefix of the range,
  each is saved after the logs the node answered for it, and where the node does not refuse
  small ranges for ever the loop returns.
\<close>

section \<open>Arithmetic of one chunk\<close>

lemma chunk_bounds:
  assumes "chunker_ok (rs_chunker st)" and "rs_current st \<le> to" and "to \<noteq> maxU64"
  shows "1 \<le> unat (chunk_size to st)"
    and "unat (chunk_size to st) \<le> unat (Current (rs_chunker st))"
    and "unat (rs_current st) + unat (chunk_size to st) \<le> unat to + 1"
    and "unat (chunk_end to st) = unat (rs_current st) + unat (chunk_size to st) - 1"
    and "unat (chunk_end to st + 1) = unat (rs_current st) + unat (chunk_size to st)"
proof -
  let ?c = "rs_current st" and ?n = "chunk_size to st"
  have to: "unat to < 2 ^ 64 - 1"
    using assms(3) unat_u64_le [of to] by (auto simp: u64_arith)
  have "unat (to - ?c) = unat to - unat ?c"
    using assms(2) by (rule unat_minus_ok)
  with to have rem: "unat (to - ?c + 1) = unat to - unat ?c + 1"
    by (simp add: unat_plus_one_lt)
  have pos: "1 \<le> unat (Current (rs_chunker st))"
    using assms(1) by (simp add: chunker_ok_def Current_def u64_arith)
  have n: "unat ?n = min (unat (Current (rs_chunker st))) (unat to - unat ?c + 1)"
    by (auto simp: chunk_size_def Let_def u64_arith rem)
  then show n1: "1 \<le> unat ?n" and "unat ?n \<le> unat (Current (rs_chunker st))"
    using pos by auto
  show le: "unat ?c + unat ?n \<le> unat to + 1"
    using n assms(2) by (simp add: u64_arith)
  from le to have sum: "unat (?c + ?n) = unat ?c + unat ?n"
    by (intro unat_plus_ok) simp
  have "1 \<le> ?c + ?n" using sum n1 by (simp add: u64_arith)
  then show ce: "unat (chunk_end to st) = unat ?c + unat ?n - 1"
    unfolding chunk_end_def by (simp add: unat_minus_ok sum)
  then show "unat (chunk_end to st + 1) = unat ?c + unat ?n"
    unfolding chunk_end_def by (simp add: sum)
qed

section \<open>Records of a batch\<close>

definition key_of :: "'v Env \<Rightarrow> 's Deps \<Rightarrow> eth_log \<Rightarrow> log_key" where
  "key_of E D l = (dp_ChainID D, HashHex (en_lib E) (l_TxHash l), l_Index l)"

lemma make_record_key [simp]: "log_key (make_record E D l d a h t) = key_of E D l"
  by (simp add: make_record_def log_key_def key_of_def Let_def)

lemma make_record_block [simp]: "lr_BlockNumber (make_record E D l d a h t) = l_BlockNumber l"
  by (simp add: make_record_def Let_def)

text \<open>One record for each log, in order, each under its key and its block.\<close>

lemma buildRecords_keys:
  "buildRecords E D c t logs = (Inr recs, c', t') \<Longrightarrow>
   list_all2 (\<lambda>r l. log_key r = key_of E D l \<and> lr_BlockNumber r = l_BlockNumber l) recs logs"
proof (induction logs arbitrary: c t recs c' t')
  case Nil
  then show ?case by simp
next
  case (Cons l ls)
  from Cons.prems obtain d a h c1 t1 rs where
    "cache_Get (dp_RPC D) c t (l_BlockNumber l) = (Inr h, c1, t1)"
    and rest: "buildRecords E D c1 (Suc t1) ls = (Inr rs, c', t')"
    and recs: "recs = make_record E D l d a h (en_now E t1) # rs"
    by (auto simp: Let_def split: sum.splits prod.splits)
  from Cons.IH [OF rest] recs show ?case by simp
qed

lemma buildRecords_length:
  "buildRecords E D c t logs = (Inr recs, c', t') \<Longrightarrow> length recs = length logs"
  using buildRecords_keys list_all2_lengthD by blast

lemma buildRecords_member:
  assumes "buildRecords E D c t logs = (Inr recs, c', t')" and "l \<in> set logs"
  shows "\<exists>r \<in> set recs. log_key r = key_of E D l"
  using buildRecords_keys [OF assms(1)] assms(2)
  by (induction rule: list_all2_induct) auto

text \<open>The cache answers what the node answered, and only remembers such answers.\<close>

definition cache_sound :: "Rpc \<Rightarrow> BlockCache \<Rightarrow> bool" where
  "cache_sound rpc c \<longleftrightarrow> (\<forall>n h. c n = Some h \<longrightarrow> (\<exists>t. rpc_GetBlockByNumber rpc t n = Inr h))"

lemma cache_Get_sound:
  assumes "cache_sound rpc c" and "cache_Get rpc c t n = (r, c', t')"
  shows "cache_sound rpc c' \<and> (\<forall>h. r = Inr h \<longrightarrow> c' n = Some h) \<and> c \<subseteq>\<^sub>m c'"
  using assms
  by (auto simp: cache_Get_def cache_sound_def map_le_def split: option.splits sum.splits if_splits)

section \<open>The loop invariant\<close>

text \<open>A checkpoint whose range the node has answered, with every log of the answer stored.\<close>

definition chunk_supported :: "'v Env \<Rightarrow> 's Deps \<Rightarrow> (log_key \<Rightarrow> LogRecord option) \<Rightarrow>
    Checkpoint \<Rightarrow> bool" where
  "chunk_supported E D m c \<longleftrightarrow> (\<exists>t logs.
     rpc_GetLogs (dp_RPC D) t
       (buildFilter (en_lib E) (cp_StartBlock c) (cp_EndBlock c) (dp_Decoder D)) = Inr logs
     \<and> (\<forall>l \<in> set logs. m (key_of E D l) \<noteq> None))"

definition width_ok :: "u64 \<Rightarrow> Checkpoint \<Rightarrow> bool" where
  "width_ok mx c \<longleftrightarrow> unat (cp_EndBlock c) - unat (cp_StartBlock c) < unat mx"

lemma chunk_supported_mono:
  assumes "chunk_supported E D m c" and "\<And>k r. m k = Some r \<Longrightarrow> m' k = Some r"
  shows "chunk_supported E D m' c"
  using assms unfolding chunk_supported_def by (metis not_None_eq)

lemma same_range_supported:
  "same_range c' c \<Longrightarrow> chunk_supported E D m c' = chunk_supported E D m c"
  by (simp add: same_range_def chunk_supported_def)

lemma same_range_width: "same_range c' c \<Longrightarrow> width_ok mx c' = width_ok mx c"
  by (simp add: same_range_def width_ok_def)

text \<open>
  \<open>base\<close> is the table of checkpoints and \<open>m0\<close> the counter of blocks when the range was
  started at block \<open>lo\<close>; \<open>mx\<close> is the chunker's maximum.
\<close>

definition range_inv where
  "range_inv iv lv cv E D base m0 lo mx to st \<longleftrightarrow>
     iv (wd_store (rs_world st)) \<and> chunker_ok (rs_chunker st) \<and> ch_max (rs_chunker st) = mx
     \<and> lo \<le> rs_current st \<and> unat (rs_current st) \<le> unat to + 1
     \<and> processedBlocks (wd_metrics (rs_world st)) = m0 + (rs_current st - lo)
     \<and> (\<exists>new. cv (wd_store (rs_world st)) = base @ new
          \<and> tiles (unat lo) new (unat (rs_current st))
          \<and> (\<forall>c \<in> set new. chunk_supported E D (lv (wd_store (rs_world st))) c \<and> width_ok mx c))"

text \<open>
  The rule for the loop: what every pass that goes on keeps holds when the loop returns without
  an error, having passed the end of the range; an error comes from a pass that started in it.
\<close>

lemma range_loop_cases:
  assumes "range_loop E D to st = Some (st', r)"
    and "I st"
    and "\<And>st st'. I st \<Longrightarrow> rs_current st \<le> to \<Longrightarrow> range_iter E D to st = (st', Next) \<Longrightarrow> I st'"
  shows "r = None \<Longrightarrow> I st' \<and> to < rs_current st'"
    and "r = Some e \<Longrightarrow> \<exists>st. I st \<and> rs_current st \<le> to \<and> range_iter E D to st = (st', Fail e)"
proof -
  define Q where "Q out \<longleftrightarrow> (snd out = None \<longrightarrow> I (fst out) \<and> to < rs_current (fst out))
      \<and> (\<forall>e. snd out = Some e \<longrightarrow>
           (\<exists>st. I st \<and> rs_current st \<le> to \<and> range_iter E D to st = (fst out, Fail e)))"
    for out :: "'a RangeState \<times> go_error option"
  define P where "P E' D' to' st out \<longleftrightarrow> (E' = E \<and> D' = D \<and> to' = to \<and> I st \<longrightarrow> Q out)"
    for E' D' to' st and out :: "'a RangeState \<times> go_error option"
  have "P E D to st (st', r)"
  proof (rule range_loop.raw_induct [of P, OF _ assms(1)])
    fix f E' D' to' st out
    assume IH: "\<And>E' D' to' st out. f E' D' to' st = Some out \<Longrightarrow> P E' D' to' st out"
      and eq: "(if rs_current st \<le> to' then
          (case range_iter E' D' to' st of (st', Next) \<Rightarrow> f E' D' to' st'
           | (st', Fail e) \<Rightarrow> Some (st', Some e))
        else Some (st, None)) = Some out"
    show "P E' D' to' st out"
    proof (cases "E' = E \<and> D' = D \<and> to' = to \<and> I st")
      case True
      obtain st1 fl where it: "range_iter E D to st = (st1, fl)" by (metis surj_pair)
      show ?thesis
      proof (cases "rs_current st \<le> to")
        case le: True
        have "fl = Next \<Longrightarrow> I st1" using assms(3) [OF _ le] it True by blast
        with eq True it le IH [of E D to st1] show ?thesis
          by (cases fl) (auto simp: P_def Q_def)
      next
        case False
        with eq True show ?thesis by (auto simp: P_def Q_def)
      qed
    qed (auto simp: P_def)
  qed
  with assms(2) have "Q (st', r)" by (simp add: P_def)
  then show "r = None \<Longrightarrow> I st' \<and> to < rs_current st'"
    and "r = Some e \<Longrightarrow> \<exists>st. I st \<and> rs_current st \<le> to \<and> range_iter E D to st = (st', Fail e)"
    by (auto simp: Q_def)
qed

text \<open>What every pass keeps, whatever its outcome, holds of the state the loop returns.\<close>

lemma range_loop_rule:
  assumes "range_loop E D to st = Some (st', r)"
    and "I st"
    and "\<And>st st' fl. I st \<Longrightarrow> rs_current st \<le> to \<Longrightarrow> range_iter E D to st = (st', fl) \<Longrightarrow> I st'"
  shows "I st'" and "r = None \<Longrightarrow> to < rs_current st'"
    and "r = Some e \<Longrightarrow> \<exists>st. I st \<and> rs_current st \<le> to \<and> range_iter E D to st = (st', Fail e)"
proof -
  note R = range_loop_cases [where I = I, OF assms(1,2), OF assms(3) [where fl = Next]]
  show "r = None \<Longrightarrow> to < rs_current st'"
    and e: "\<And>e. r = Some e \<Longrightarrow> \<exists>st. I st \<and> rs_current st \<le> to \<and> range_iter E D to st = (st', Fail e)"
    using R by simp_all
  show "I st'"
  proof (cases r)
    case None
    with R(1) show ?thesis by simp
  next
    case (Some e')
    from e [OF Some] obtain st1 where "I st1" "rs_current st1 \<le> to"
      "range_iter E D to st1 = (st', Fail e')" by blast
    then show ?thesis by (rule assms(3))
  qed
qed

text \<open>The two ways a pass can go on: a refused range, or a range stored.\<close>

lemma store_chunk_Next:
  assumes "store_chunk E D to st logs = (st', Next)"
  shows "rs_current st' = chunk_end to st + 1" and "rs_chunker st' = OnSuccess (rs_chunker st)"
  using assms by (auto simp: store_chunk_def Let_def split: prod.splits sum.splits option.splits)

lemma range_iter_Next:
  assumes "range_iter E D to st = (st', Next)"
  obtains (refused) "rpc_GetLogs (dp_RPC D) (wd_tick (rs_world st)) (chunk_filter E D to st)
      = Inl ErrTooManyResults" "rs_current st' = rs_current st"
      "rs_chunker st' = OnError (rs_chunker st)"
  | (stored) "rs_current st' = chunk_end to st + 1" "rs_chunker st' = OnSuccess (rs_chunker st)"
proof (cases "rpc_GetLogs (dp_RPC D) (wd_tick (rs_world st)) (chunk_filter E D to st)")
  case (Inl e)
  with assms refused show ?thesis by (auto simp: range_iter_def Let_def split: if_splits)
next
  case (Inr logs)
  with assms stored show ?thesis by (auto simp: range_iter_def dest: store_chunk_Next)
qed

section \<open>Termination\<close>

text \<open>The node never refuses a range of at most \<open>n\<close> blocks as having too many results.\<close>

definition answers_small :: "'v Env \<Rightarrow> 's Deps \<Rightarrow> u64 \<Rightarrow> bool" where
  "answers_small E D n \<longleftrightarrow> (\<forall>t a b. unat b - unat a < unat n \<longrightarrow>
     rpc_GetLogs (dp_RPC D) t (buildFilter (en_lib E) a b (dp_Decoder D)) \<noteq> Inl ErrTooManyResults)"

lemma range_loop_returns:
  assumes "answers_small E D mn" and "to \<noteq> maxU64"
    and "chunker_ok (rs_chunker st)" and "ch_min (rs_chunker st) = mn"
    and "growth_ok (ch_max (rs_chunker st))"
  shows "\<exists>out. range_loop E D to st = Some out"
  using assms(3-5)
proof (induction st rule: wf_induct_rule [OF wf_measures [of
    "[\<lambda>st. unat to + 1 - unat (rs_current st), \<lambda>st. unat (ch_current (rs_chunker st))]"]])
  case (1 st)
  obtain st' fl where it: "range_iter E D to st = (st', fl)" by (metis surj_pair)
  show ?case
  proof (cases "rs_current st \<le> to \<and> fl = Next")
    case False
    with it show ?thesis
      by (subst range_loop.simps) (auto split: flow.splits)
  next
    case True
    then have le: "rs_current st \<le> to" and fl: "fl = Next" by auto
    note cb = chunk_bounds [OF "1.prems"(1) le assms(2)]
    from it fl have next_: "range_iter E D to st = (st', Next)" by simp
    then have "\<exists>out. range_loop E D to st' = Some out"
    proof (cases rule: range_iter_Next)
      case refused
      have "ch_min (rs_chunker st) < ch_current (rs_chunker st)"
      proof (rule ccontr)
        assume "\<not> ?thesis"
        with cb(1,2,4) "1.prems"(2) have "unat (chunk_end to st) - unat (rs_current st) < unat mn"
          by (auto simp: Current_def u64_arith)
        with assms(1) refused(1) show False
          by (auto simp: answers_small_def chunk_filter_def)
      qed
      from OnError_decreases [OF "1.prems"(1) this] refused(2,3)
      show ?thesis using "1.prems" by (intro "1.IH") (auto simp: OnError_ok OnError_bounds)
    next
      case stored
      then show ?thesis using "1.prems" cb(1,3,5) le
        by (intro "1.IH") (auto simp: OnSuccess_ok OnSuccess_bounds u64_arith)
    qed
    with next_ le show ?thesis by (subst range_loop.simps) simp
  qed
qed

text \<open>A node that refuses even the smallest range starting at a block keeps the loop there.\<close>

lemma range_loop_stuck:
  assumes refuses: "\<And>t b. rpc_GetLogs (dp_RPC D) t
      (buildFilter (en_lib E) (rs_current st) b (dp_Decoder D)) = Inl ErrTooManyResults"
    and "rs_current st \<le> to"
  shows "range_loop E D to st = None"
proof (rule ccontr)
  let ?I = "\<lambda>st'. rs_current st' = rs_current st"
  assume "range_loop E D to st \<noteq> None"
  then obtain st' r where ret: "range_loop E D to st = Some (st', r)" by auto
  have it: "\<And>st1. ?I st1 \<Longrightarrow> \<exists>st2. range_iter E D to st1 = (st2, Next) \<and> ?I st2"
    using refuses by (simp add: range_iter_def chunk_filter_def Let_def)
  then have step: "\<And>st1 st2 fl. ?I st1 \<Longrightarrow> rs_current st1 \<le> to \<Longrightarrow>
      range_iter E D to st1 = (st2, fl) \<Longrightarrow> ?I st2" by fastforce
  have same: "?I st'"
    by (rule range_loop_rule(1) [OF ret, where I = ?I]) (rule refl, rule step)
  show False
  proof (cases r)
    case None
    have "to < rs_current st'"
      by (rule range_loop_rule(2) [OF ret, where I = ?I]) (rule refl, rule step, assumption+, rule None)
    with same assms(2) show False by simp
  next
    case (Some e)
    have "\<exists>st1. ?I st1 \<and> rs_current st1 \<le> to \<and> range_iter E D to st1 = (st', Fail e)"
      by (rule range_loop_rule(3) [OF ret, where I = ?I]) (rule refl, rule step, assumption+, rule Some)
    with it show False by fastforce
  qed
qed

text \<open>
  The two ways a stored answer ends: with an error, after which the loop state is as before but
  for the logs, which may have grown, or with one more checkpoint.
\<close>

definition logs_grow where
  "logs_grow lv s s' \<longleftrightarrow> (\<forall>k r. lv s k = Some r \<longrightarrow> lv s' k = Some r)"

definition chunk_failed where
  "chunk_failed iv lv cv st st' \<longleftrightarrow>
     (let s = wd_store (rs_world st); s' = wd_store (rs_world st') in
      iv s' \<and> cv s' = cv s \<and> logs_grow lv s s'
      \<and> rs_current st' = rs_current st \<and> rs_chunker st' = rs_chunker st
      \<and> wd_metrics (rs_world st') = wd_metrics (rs_world st))"

definition chunk_stored where
  "chunk_stored iv lv cv E D to st logs st' \<longleftrightarrow>
     (let s = wd_store (rs_world st); s' = wd_store (rs_world st') in
      \<exists>recs c t c1. buildRecords E D (rs_cache st) (Suc (wd_tick (rs_world st))) logs = (Inr recs, c, t)
      \<and> iv s' \<and> lv s' = insert_spec recs (lv s) \<and> cv s' = cv s @ [c1]
      \<and> cp_StartBlock c1 = rs_current st \<and> cp_EndBlock c1 = chunk_end to st
      \<and> rs_current st' = chunk_end to st + 1 \<and> rs_chunker st' = OnSuccess (rs_chunker st)
      \<and> wd_metrics (rs_world st') = AddLogs (of_nat (length recs))
          (AddBlocks (chunk_size to st) (wd_metrics (rs_world st))))"

lemma insert_spec_keeps: "m k = Some r \<Longrightarrow> insert_spec ls m k = Some r"
  by (simp add: insert_spec_def)

lemma logs_grow_refl [simp]: "logs_grow lv s s"
  by (simp add: logs_grow_def)

lemma logs_grow_insert: "lv s' = insert_spec recs (lv s) \<Longrightarrow> logs_grow lv s s'"
  by (simp add: logs_grow_def insert_spec_keeps)

text \<open>Every log of an answer is in the index once the records built from it are.\<close>

lemma answer_found:
  assumes "buildRecords E D c t logs = (Inr recs, c', t')" and "l \<in> set logs"
  shows "insert_spec recs m (key_of E D l) \<noteq> None"
proof -
  obtain r where "r \<in> set recs" "log_key r = key_of E D l"
    using buildRecords_member [OF assms] by blast
  then have "List.find (\<lambda>x. log_key x = key_of E D l) recs \<noteq> None"
    by (auto simp: find_None_iff)
  then show ?thesis by (auto simp: insert_spec_def split: option.splits)
qed

lemma answer_supported:
  assumes "buildRecords E D c t logs = (Inr recs, c', t')"
    and "rpc_GetLogs (dp_RPC D) u (chunk_filter E D to st) = Inr logs"
    and "cp_StartBlock c1 = rs_current st" and "cp_EndBlock c1 = chunk_end to st"
  shows "chunk_supported E D (insert_spec recs m) c1"
proof -
  have "rpc_GetLogs (dp_RPC D) u (buildFilter (en_lib E) (cp_StartBlock c1) (cp_EndBlock c1) (dp_Decoder D))
      = Inr logs"
    using assms(2-4) by (simp add: chunk_filter_def)
  with answer_found [OF assms(1)] show ?thesis unfolding chunk_supported_def by blast
qed

context log_store
begin

lemma store_chunk_cases:
  assumes st: "store_chunk E D to st logs = (st', fl)" and S: "dp_Store D = S"
    and iv: "inv (wd_store (rs_world st))"
  obtains (failed) e where "fl = Fail e" "chunk_failed inv logv cpv st st'"
  | (stored) "fl = Next" "chunk_stored inv logv cpv E D to st logs st'"
proof -
  let ?s = "wd_store (rs_world st)"
  obtain rr c t where br: "buildRecords E D (rs_cache st) (Suc (wd_tick (rs_world st))) logs = (rr, c, t)"
    by (metis prod_cases3)
  show thesis
  proof (cases rr)
    case (Inl e)
    show thesis
      by (rule failed [of e]) (use st br Inl iv in \<open>auto simp: store_chunk_def Let_def chunk_failed_def\<close>)
  next
    case (Inr recs)
    obtain r1 s1 where ins: "st_InsertLogs S (en_faults E t) recs ?s = (r1, s1)" by (metis surj_pair)
    have i1: "inv s1" "cpv s1 = cpv ?s" "logs_grow logv ?s s1"
      using insert_inv [OF iv ins] insert_keeps [OF iv ins] by (auto simp: logs_grow_def)
    note so_far = st br Inr ins S i1
    consider e where "fl = Fail e" "wd_store (rs_world st') = s1" "rs_current st' = rs_current st"
        "rs_chunker st' = rs_chunker st" "wd_metrics (rs_world st') = wd_metrics (rs_world st)"
      | header where "r1 = None" "rpc_GetBlockByNumber (dp_RPC D) (Suc t) (chunk_end to st) = Inr header"
      using so_far by (cases r1; cases "rpc_GetBlockByNumber (dp_RPC D) (Suc t) (chunk_end to st)")
        (auto simp: store_chunk_def Let_def)
    then show thesis
    proof cases
      case 1
      with i1 show thesis by (intro failed [of e]) (auto simp: chunk_failed_def)
    next
      case 2
      let ?cp = "\<lparr>cp_ID = 0, cp_StartBlock = rs_current st, cp_EndBlock = chunk_end to st,
        cp_BlockHash = bh_Hash header, cp_InsertedAt = en_now E (t + 2)\<rparr>"
      obtain r2 s2 where sv: "st_SaveRangeCheckpoint S (en_faults E (t + 3)) ?cp s1 = (r2, s2)" by (metis surj_pair)
      show thesis
      proof (cases r2)
        case (Some e)
        with save_err [OF i1(1)] sv have "s2 = s1" by simp
        with Some so_far 2 sv show thesis
          by (intro failed [of "ErrWrap ''save checkpoint'' e"]) (auto simp: store_chunk_def Let_def chunk_failed_def)
      next
        case None
        with save_ok [OF i1(1)] sv obtain c' where "inv s2" "logv s2 = logv s1"
          "same_range c' ?cp" "cpv s2 = cpv s1 @ [c']" by blast
        moreover have "logv s1 = insert_spec recs (logv ?s)" using insert_ok [OF iv] ins 2(1) by blast
        ultimately show thesis
          using None so_far 2 sv
          by (intro stored) (auto simp: store_chunk_def Let_def chunk_stored_def same_range_def)
      qed
    qed
  qed
qed

lemma store_chunk_inv:
  assumes st: "store_chunk E D to st logs = (st', fl)"
    and S: "dp_Store D = S"
    and inv: "range_inv inv logv cpv E D base m0 lo mx to st"
    and le: "rs_current st \<le> to" and to: "to \<noteq> maxU64" and gr: "growth_ok mx"
    and ans: "rpc_GetLogs (dp_RPC D) t0 (chunk_filter E D to st) = Inr logs"
  shows "range_inv inv logv cpv E D base m0 lo mx to st'"
proof -
  let ?s = "wd_store (rs_world st)" and ?s' = "wd_store (rs_world st')"
  from inv have iv: "inv ?s" and ck: "chunker_ok (rs_chunker st)" and mx: "ch_max (rs_chunker st) = mx"
    and lo: "lo \<le> rs_current st" and pb: "processedBlocks (wd_metrics (rs_world st)) = m0 + (rs_current st - lo)"
    by (auto simp: range_inv_def)
  obtain new where new: "cpv ?s = base @ new" "tiles (unat lo) new (unat (rs_current st))"
    "\<And>c. c \<in> set new \<Longrightarrow> chunk_supported E D (logv ?s) c \<and> width_ok mx c"
    using inv by (auto simp: range_inv_def)
  have sup: "c \<in> set new \<Longrightarrow> chunk_supported E D (logv ?s') c \<and> width_ok mx c" if "logs_grow logv ?s ?s'" for c
    using new(3) chunk_supported_mono that unfolding logs_grow_def by blast
  note cb = chunk_bounds [OF ck le to]
  from st S iv show ?thesis
  proof (cases rule: store_chunk_cases)
    case failed
    with inv new sup show ?thesis by (auto simp: range_inv_def chunk_failed_def Let_def)
  next
    case stored
    then obtain recs c t c1 where
      br: "buildRecords E D (rs_cache st) (Suc (wd_tick (rs_world st))) logs = (Inr recs, c, t)"
      and db: "inv ?s'" "logv ?s' = insert_spec recs (logv ?s)" "cpv ?s' = cpv ?s @ [c1]"
      and c1: "cp_StartBlock c1 = rs_current st" "cp_EndBlock c1 = chunk_end to st"
      and nx: "rs_current st' = chunk_end to st + 1" "rs_chunker st' = OnSuccess (rs_chunker st)"
        "wd_metrics (rs_world st') = AddLogs (of_nat (length recs))
          (AddBlocks (chunk_size to st) (wd_metrics (rs_world st)))"
      unfolding chunk_stored_def Let_def by blast
    have "chunk_supported E D (logv ?s') c1 \<and> width_ok mx c1"
      using answer_supported [OF br ans c1, of "logv ?s"] cb mx ck c1
      by (auto simp: db(2) width_ok_def chunker_ok_def Current_def u64_arith)
    moreover have "tiles (unat lo) (new @ [c1]) (unat (chunk_end to st + 1))"
      using new(2) cb c1 by (auto simp: tiles_snoc u64_arith)
    moreover have "m0 + (rs_current st - lo) + chunk_size to st = m0 + (chunk_end to st + 1 - lo)"
      by (simp add: chunk_end_def)
    ultimately show ?thesis
      using db new(1) sup [OF logs_grow_insert [where lv = logv, OF db(2)]] pb cb lo ck mx gr nx
      by (auto simp: range_inv_def OnSuccess_ok OnSuccess_bounds u64_le_iff intro!: exI [of _ "new @ [c1]"])
  qed
qed

lemma range_iter_inv:
  assumes "range_iter E D to st = (st', fl)" and "dp_Store D = S"
    and "range_inv inv logv cpv E D base m0 lo mx to st"
    and "rs_current st \<le> to" and "to \<noteq> maxU64" and "growth_ok mx"
  shows "range_inv inv logv cpv E D base m0 lo mx to st'"
proof (cases "rpc_GetLogs (dp_RPC D) (wd_tick (rs_world st)) (chunk_filter E D to st)")
  case (Inl e)
  with assms(1,3) show ?thesis
    by (auto simp: range_iter_def Let_def range_inv_def OnError_ok OnError_bounds split: if_splits)
next
  case (Inr logs)
  with assms(1) have "store_chunk E D to st logs = (st', fl)"
    by (simp add: range_iter_def)
  from store_chunk_inv [OF this assms(2-6) Inr] show ?thesis by simp
qed

lemma range_loop_inv:
  assumes "range_loop E D to st = Some (st', r)" and "dp_Store D = S"
    and "range_inv inv logv cpv E D base m0 lo mx to st"
    and "to \<noteq> maxU64" and "growth_ok mx"
  shows "range_inv inv logv cpv E D base m0 lo mx to st'"
  using range_loop_rule [OF assms(1), of "range_inv inv logv cpv E D base m0 lo mx to"]
    range_iter_inv assms(2-5) by blast

end

section \<open>The properties, for both databases\<close>

lemma range_start_inv:
  assumes "iv (wd_store w)" and "chunker_ok ch" and "lo \<le> to"
  shows "range_inv iv lv cv E D (cv (wd_store w)) (processedBlocks (wd_metrics w)) lo (ch_max ch) to
    (range_start ch lo w)"
  using assms by (auto simp: range_inv_def range_start_def u64_arith intro!: exI [of _ "[]"])

lemma range_result:
  assumes "a_store (dp_Store D)" and "db_inv (wd_store w)"
    and "chunker_ok ch" and "growth_ok (ch_max ch)" and "lo \<le> to" and "to \<noteq> maxU64"
    and "processRangeAdaptive E D ch lo to w = Some (st, r)"
  shows "range_inv db_inv db_logs db_cps E D (db_cps (wd_store w))
      (processedBlocks (wd_metrics w)) lo (ch_max ch) to st"
    and "r = None \<Longrightarrow> unat (rs_current st) = unat to + 1"
proof -
  note loop = assms(7) [unfolded processRangeAdaptive_def]
  have st: "range_inv db_inv db_logs db_cps E D (db_cps (wd_store w))
      (processedBlocks (wd_metrics w)) lo (ch_max ch) to (range_start ch lo w)"
    using assms by (intro range_start_inv) auto
  show R: "range_inv db_inv db_logs db_cps E D (db_cps (wd_store w))
      (processedBlocks (wd_metrics w)) lo (ch_max ch) to st"
    using assms(1) sqlite.range_loop_inv [OF loop _ st assms(6,4)]
      pg.range_loop_inv [OF loop _ st assms(6,4)] by (auto simp: a_store_def)
  show "unat (rs_current st) = unat to + 1" if "r = None"
  proof -
    have "to < rs_current st"
      by (rule range_loop_rule(2) [OF loop, where I = "\<lambda>_. True"]) (simp_all add: that)
    with R show ?thesis by (simp add: range_inv_def u64_arith)
  qed
qed

text \<open>
  C1. Indexing a range.  When \<open>processRangeAdaptive\<close> returns, with or without an error, the
  checkpoints it added to the store tile the blocks from \<open>from\<close> to just below the block it
  reached, without a gap or an overlap; each is no wider than the chunker's maximum; and for
  each the node had answered \<open>eth_getLogs\<close> for exactly that range and every log of the answer
  is in the store.  A return without an error has covered the whole range.
\<close>

theorem range_checkpoints_tile:
  assumes "a_store (dp_Store D)" and "db_inv (wd_store w)"
    and "chunker_ok ch" and "growth_ok (ch_max ch)" and "from \<le> to" and "to \<noteq> maxU64"
    and "processRangeAdaptive E D ch from to w = Some (st, r)"
  shows "\<exists>new. db_cps (wd_store (rs_world st)) = db_cps (wd_store w) @ new
    \<and> tiles (unat from) new (unat (rs_current st))
    \<and> (\<forall>c \<in> set new. chunk_supported E D (db_logs (wd_store (rs_world st))) c
         \<and> width_ok (ch_max ch) c)
    \<and> (r = None \<longrightarrow> unat (rs_current st) = unat to + 1)"
  using range_result [OF assms] unfolding range_inv_def by blast

lemma demo_range_pre:
  "a_store (dp_Store (demo_deps 2 20))" "db_inv (wd_store demo_world)"
  "chunker_ok (NewChunker 1 4 4)" "growth_ok (ch_max (NewChunker 1 4 4))"
  "(6 :: u64) \<le> 6" "(6 :: u64) \<noteq> maxU64"
  by (simp_all add: a_store_def db_view_defs demo_world_def empty_db_def chunker_ok_def
      growth_ok_def NewChunker_def maxU64_def)

theorem range_checkpoints_tile_witness:
  "\<exists>new. db_cps (wd_store (rs_world (fst demo_after))) = db_cps (wd_store demo_world) @ new
    \<and> tiles 6 new 7
    \<and> (\<forall>c \<in> set new. chunk_supported demo_env (demo_deps 2 20)
         (db_logs (wd_store (rs_world (fst demo_after)))) c \<and> width_ok 4 c)"
  using range_checkpoints_tile [OF demo_range_pre demo_range] demo_iter
  by (simp add: NewChunker_def)

text \<open>
  C18. The loop returns.  If the node never refuses a range of at most the minimum chunk size
  with "too many results", \<open>processRangeAdaptive\<close> returns, whatever else the node and the
  database do.
\<close>

theorem range_returns:
  assumes "answers_small E D (ch_min ch)" and "to \<noteq> maxU64"
    and "chunker_ok ch" and "growth_ok (ch_max ch)"
  shows "\<exists>st r. processRangeAdaptive E D ch from to w = Some (st, r)"
  using range_loop_returns [of E D "ch_min ch" to "range_start ch from w"] assms
  by (auto simp: processRangeAdaptive_def range_start_def)

theorem range_returns_witness:
  "\<exists>st r. processRangeAdaptive demo_env (demo_deps 2 20) (NewChunker 1 4 4) 5 9 demo_world
     = Some (st, r)"
proof (rule range_returns)
  show "answers_small demo_env (demo_deps 2 20) (ch_min (NewChunker 1 4 4))"
    by (simp add: answers_small_def NewChunker_def buildFilter_def Let_def)
qed (simp_all add: demo_range_pre maxU64_def)

text \<open>
  C20. The loop can spin for ever.  If the node answers "too many results" to every request
  that starts at the first block of the range, even for that block alone,
  \<open>processRangeAdaptive\<close> never returns: at the minimum size \<open>OnError\<close> changes nothing and the
  loop repeats the same request without a pause, an error or a bound on the attempts.
\<close>

theorem range_livelock:
  assumes "\<And>t b. rpc_GetLogs (dp_RPC D) t (buildFilter (en_lib E) from b (dp_Decoder D))
      = Inl ErrTooManyResults"
    and "from \<le> to"
  shows "processRangeAdaptive E D ch from to w = None"
  unfolding processRangeAdaptive_def
  by (rule range_loop_stuck) (simp_all add: assms range_start_def)

theorem range_livelock_witness:
  "processRangeAdaptive demo_env (demo_deps 0 20) (NewChunker 1 4 4) 5 9 demo_world = None"
proof (rule range_livelock)
  show "rpc_GetLogs (dp_RPC (demo_deps 0 20)) t
      (buildFilter (en_lib demo_env) 5 b (dp_Decoder (demo_deps 0 20))) = Inl ErrTooManyResults" for t b
    by (simp add: buildFilter_def Let_def)
qed simp

text \<open>
  The block counter.  A range indexed without an error adds exactly its number of blocks
  to \<open>processedBlocks\<close>, however the chunks were cut and whatever ranges were refused.
\<close>

theorem range_counts_blocks:
  assumes "a_store (dp_Store D)" and "db_inv (wd_store w)"
    and "chunker_ok ch" and "growth_ok (ch_max ch)" and "from \<le> to" and "to \<noteq> maxU64"
    and "processRangeAdaptive E D ch from to w = Some (st, None)"
  shows "processedBlocks (wd_metrics (rs_world st))
      = processedBlocks (wd_metrics w) + (to - from + 1)"
proof -
  have "unat (rs_current st) = unat (to + 1)"
    using range_result(2) [OF assms] assms(6) by (simp add: unat_plus_one)
  then have "rs_current st = to + 1" by (simp add: u64_eq_iff)
  with range_result(1) [OF assms] show ?thesis
    by (simp add: range_inv_def)
qed

theorem range_counts_blocks_witness:
  "processedBlocks (wd_metrics (rs_world (fst demo_after)))
     = processedBlocks (wd_metrics demo_world) + (6 - 6 + 1)"
  by (rule range_counts_blocks [OF demo_range_pre demo_range])

end
