(* ===== verification/Range_Kept.thy ===== *)
theory Range_Kept
  imports Range_Correct
begin

text \<open>
  What a checkpoint keeps promising after later passes.  \<open>supported_in\<close> strengthens
  \<open>chunk_supported\<close>: the rows of the logs of a range lie at or below its end block, so a
  rollback to a later block does not delete them.
\<close>

section \<open>Supported checkpoints\<close>

definition supported_in :: "'v Env \<Rightarrow> 's Deps \<Rightarrow> (log_key \<Rightarrow> LogRecord option) \<Rightarrow>
    Checkpoint \<Rightarrow> bool" where
  "supported_in E D m c \<longleftrightarrow> (\<exists>t logs.
     rpc_GetLogs (dp_RPC D) t
       (buildFilter (en_lib E) (cp_StartBlock c) (cp_EndBlock c) (dp_Decoder D)) = Inr logs
     \<and> (\<forall>l \<in> set logs. \<exists>r. m (key_of E D l) = Some r \<and> lr_BlockNumber r \<le> cp_EndBlock c))"

text \<open>The node answers \<open>eth_getLogs\<close> with logs of blocks inside the range it was asked for.\<close>

definition logs_in_range :: "'v Env \<Rightarrow> 's Deps \<Rightarrow> bool" where
  "logs_in_range E D \<longleftrightarrow> (\<forall>t a b logs.
     rpc_GetLogs (dp_RPC D) t (buildFilter (en_lib E) a b (dp_Decoder D)) = Inr logs \<longrightarrow>
     (\<forall>l \<in> set logs. a \<le> l_BlockNumber l \<and> l_BlockNumber l \<le> b))"

text \<open>Every record that can be built from an answer of the node is good.\<close>

definition good_answers :: "'v Env \<Rightarrow> 's Deps \<Rightarrow> (LogRecord \<Rightarrow> bool) \<Rightarrow> bool" where
  "good_answers E D good \<longleftrightarrow> (\<forall>u q logs c t recs c' t'. rpc_GetLogs (dp_RPC D) u q = Inr logs \<longrightarrow>
     buildRecords E D c t logs = (Inr recs, c', t') \<longrightarrow> (\<forall>r \<in> set recs. good r))"

text \<open>The node numbers the logs of a block below \<open>2 ^ 63\<close>.\<close>

definition small_indexes :: "'s Deps \<Rightarrow> bool" where
  "small_indexes D \<longleftrightarrow> (\<forall>u q logs. rpc_GetLogs (dp_RPC D) u q = Inr logs \<longrightarrow> (\<forall>l \<in> set logs. fits_int64 (l_Index l)))"

lemma records_indexes:
  "buildRecords E D c t logs = (Inr recs, c', t') \<Longrightarrow> r \<in> set recs \<Longrightarrow> \<exists>l \<in> set logs. lr_LogIndex r = l_Index l"
proof (induction logs arbitrary: c t recs c' t')
  case Nil
  then show ?case by simp
next
  case (Cons l ls)
  then show ?case by (fastforce simp: Let_def make_record_def split: sum.splits prod.splits)
qed

lemma small_good: "small_indexes D \<Longrightarrow> good_answers E D (\<lambda>l. fits_int64 (lr_LogIndex l))"
  using records_indexes unfolding small_indexes_def good_answers_def by metis

definition rows_below :: "(log_key \<Rightarrow> LogRecord option) \<Rightarrow> nat \<Rightarrow> bool" where
  "rows_below m n \<longleftrightarrow> (\<forall>k r. m k = Some r \<longrightarrow> unat (lr_BlockNumber r) < n)"

lemma rows_belowD: "rows_below m n \<Longrightarrow> m k = Some r \<Longrightarrow> unat (lr_BlockNumber r) < n"
  unfolding rows_below_def by blast

lemma supported_in_mono:
  assumes "supported_in E D m c" and "\<And>k r. m k = Some r \<Longrightarrow> m' k = Some r"
  shows "supported_in E D m' c"
proof -
  from assms(1) obtain t logs where
    ans: "rpc_GetLogs (dp_RPC D) t (buildFilter (en_lib E) (cp_StartBlock c) (cp_EndBlock c)
       (dp_Decoder D)) = Inr logs"
    and "\<forall>l \<in> set logs. \<exists>r. m (key_of E D l) = Some r \<and> lr_BlockNumber r \<le> cp_EndBlock c"
    unfolding supported_in_def by blast
  then have "\<forall>l \<in> set logs. \<exists>r. m' (key_of E D l) = Some r \<and> lr_BlockNumber r \<le> cp_EndBlock c"
    using assms(2) by blast
  with ans show ?thesis unfolding supported_in_def by blast
qed

lemma supported_below:
  assumes "chunk_supported E D m c" and "\<And>k r. m k = Some r \<Longrightarrow> lr_BlockNumber r \<le> cp_EndBlock c"
  shows "supported_in E D m c"
proof -
  from assms(1) obtain t logs where
    ans: "rpc_GetLogs (dp_RPC D) t (buildFilter (en_lib E) (cp_StartBlock c) (cp_EndBlock c)
       (dp_Decoder D)) = Inr logs"
    and "\<And>l. l \<in> set logs \<Longrightarrow> m (key_of E D l) \<noteq> None"
    by (auto simp: chunk_supported_def)
  with assms(2) have "\<forall>l \<in> set logs. \<exists>r. m (key_of E D l) = Some r \<and> lr_BlockNumber r \<le> cp_EndBlock c"
    by (metis not_None_eq)
  with ans show ?thesis unfolding supported_in_def by blast
qed

lemma supported_in_chunk: "supported_in E D m c \<Longrightarrow> chunk_supported E D m c"
  unfolding supported_in_def chunk_supported_def by (metis not_None_eq)

text \<open>A rollback to a block after the checkpoint leaves it supported.\<close>

lemma supported_in_rollback:
  assumes "supported_in E D m c" and "cp_EndBlock c < b"
  shows "supported_in E D (rollback_spec b m) c"
proof -
  from assms(1) obtain t logs where
    ans: "rpc_GetLogs (dp_RPC D) t (buildFilter (en_lib E) (cp_StartBlock c) (cp_EndBlock c)
       (dp_Decoder D)) = Inr logs"
    and row: "\<And>l. l \<in> set logs \<Longrightarrow> \<exists>r. m (key_of E D l) = Some r \<and> lr_BlockNumber r \<le> cp_EndBlock c"
    by (auto simp: supported_in_def)
  have "\<exists>r. rollback_spec b m (key_of E D l) = Some r \<and> lr_BlockNumber r \<le> cp_EndBlock c"
    if "l \<in> set logs" for l
  proof -
    from row [OF that] obtain r where r: "m (key_of E D l) = Some r" "lr_BlockNumber r \<le> cp_EndBlock c"
      by blast
    with assms(2) have "lr_BlockNumber r < b" by simp
    with r show ?thesis by (simp add: rollback_spec_def)
  qed
  with ans show ?thesis unfolding supported_in_def by blast
qed

lemma rows_below_rollback: "rows_below (rollback_spec b m) (unat b)"
  by (auto simp: rows_below_def rollback_spec_def u64_less_iff split: option.splits if_splits)

section \<open>What one batch of records does\<close>

lemma find_record_block:
  assumes "buildRecords E D c t logs = (Inr recs, c', t')"
    and "List.find (\<lambda>r. log_key r = k) recs = Some r"
  shows "\<exists>l \<in> set logs. lr_BlockNumber r = l_BlockNumber l"
proof -
  from assms(2) have "r \<in> set recs" by (auto simp: find_Some_iff)
  then obtain i where "i < length recs" "recs ! i = r" by (auto simp: in_set_conv_nth)
  with buildRecords_keys [OF assms(1)] show ?thesis
    by (auto simp: list_all2_conv_all_nth)
qed

lemma batch_rows:
  assumes "buildRecords E D c t logs = (Inr recs, c', t')"
    and "\<And>l. l \<in> set logs \<Longrightarrow> unat (l_BlockNumber l) < n" and "rows_below m n"
  shows "rows_below (insert_spec recs m) n"
  unfolding rows_below_def
proof (intro allI impI)
  fix k r
  assume r: "insert_spec recs m k = Some r"
  show "unat (lr_BlockNumber r) < n"
  proof (cases "m k")
    case (Some r')
    with r have "m k = Some r" by (simp add: insert_spec_def)
    with assms(3) show ?thesis by (rule rows_belowD)
  next
    case None
    with r obtain x where "List.find (\<lambda>l. log_key l = k) recs = Some x" "r = stored_log x"
      by (auto simp: insert_spec_def)
    with find_record_block [OF assms(1)] assms(2) show ?thesis by fastforce
  qed
qed

section \<open>The three outcomes of a pass\<close>

text \<open>The range was refused as too large, it was stored, or the loop ends with an error.\<close>

definition pass_stored where
  "pass_stored lv cv E D to st st' \<longleftrightarrow> (\<exists>c1.
     cv (wd_store (rs_world st')) = cv (wd_store (rs_world st)) @ [c1]
     \<and> cp_StartBlock c1 = rs_current st \<and> cp_EndBlock c1 = chunk_end to st
     \<and> chunk_supported E D (lv (wd_store (rs_world st'))) c1
     \<and> rs_current st' = chunk_end to st + 1 \<and> rs_chunker st' = OnSuccess (rs_chunker st))"

lemma stored_pass:
  assumes "chunk_stored iv lv cv E D to st logs st'"
    and "rpc_GetLogs (dp_RPC D) u (chunk_filter E D to st) = Inr logs"
  shows "iv (wd_store (rs_world st'))" and "logs_grow lv (wd_store (rs_world st)) (wd_store (rs_world st'))"
    and "pass_stored lv cv E D to st st'"
  using assms(1) answer_supported [OF _ assms(2)] logs_grow_insert [of lv "wd_store (rs_world st')"]
  unfolding chunk_stored_def pass_stored_def Let_def by (metis (no_types))+

context log_store
begin

lemma range_iter_outcomes:
  assumes it: "range_iter E D to st = (st', fl)" and S: "dp_Store D = S"
    and iv: "inv (wd_store (rs_world st))"
  shows "inv (wd_store (rs_world st'))"
    and "logs_grow logv (wd_store (rs_world st)) (wd_store (rs_world st'))"
    and "(\<exists>e. fl = Fail e) \<and> cpv (wd_store (rs_world st')) = cpv (wd_store (rs_world st))
       \<or> fl = Next \<and> wd_store (rs_world st') = wd_store (rs_world st)
         \<and> rs_current st' = rs_current st \<and> rs_chunker st' = OnError (rs_chunker st)
         \<and> rpc_GetLogs (dp_RPC D) (wd_tick (rs_world st)) (chunk_filter E D to st) = Inl ErrTooManyResults
       \<or> fl = Next \<and> pass_stored logv cpv E D to st st'"
proof -
  let ?s = "wd_store (rs_world st)" and ?s' = "wd_store (rs_world st')"
  let ?ans = "rpc_GetLogs (dp_RPC D) (wd_tick (rs_world st)) (chunk_filter E D to st)"
  consider "?s' = ?s" "\<exists>e. fl = Fail e"
    | "?s' = ?s" "fl = Next" "rs_current st' = rs_current st" "rs_chunker st' = OnError (rs_chunker st)"
        "?ans = Inl ErrTooManyResults"
    | e where "fl = Fail e" "chunk_failed inv logv cpv st st'"
    | logs where "fl = Next" "?ans = Inr logs" "chunk_stored inv logv cpv E D to st logs st'"
  proof (cases ?ans)
    case (Inl e)
    with it that(1,2) show thesis by (auto simp: range_iter_def Let_def split: if_splits)
  next
    case (Inr logs)
    with it have "store_chunk E D to st logs = (st', fl)" by (simp add: range_iter_def)
    with Inr that(3,4) show thesis by (elim store_chunk_cases [OF _ S iv])
  qed
  note cases = this
  show "inv ?s'" by (rule cases) (use iv stored_pass(1) in \<open>auto simp: chunk_failed_def Let_def\<close>)
  show "logs_grow logv ?s ?s'" by (rule cases) (use stored_pass(2) in \<open>auto simp: chunk_failed_def Let_def\<close>)
  show "(\<exists>e. fl = Fail e) \<and> cpv ?s' = cpv ?s
       \<or> fl = Next \<and> ?s' = ?s \<and> rs_current st' = rs_current st \<and> rs_chunker st' = OnError (rs_chunker st)
         \<and> ?ans = Inl ErrTooManyResults
       \<or> fl = Next \<and> pass_stored logv cpv E D to st st'"
    by (rule cases) (use stored_pass(3) in \<open>auto simp: chunk_failed_def Let_def\<close>)
qed

end

text \<open>The state of the loop between passes, and what is left of it after a failed one.\<close>

definition kept_inv where
  "kept_inv iv lv cv E D to st \<longleftrightarrow>
     iv (wd_store (rs_world st)) \<and> chunker_ok (rs_chunker st) \<and> growth_ok (ch_max (rs_chunker st))
     \<and> rows_below (lv (wd_store (rs_world st))) (unat (rs_current st))
     \<and> (\<forall>c \<in> set (cv (wd_store (rs_world st))). supported_in E D (lv (wd_store (rs_world st))) c)"

context log_store
begin

lemma chunk_stored_kept:
  assumes K: "kept_inv inv logv cpv E D to st" and st: "chunk_stored inv logv cpv E D to st logs st'"
    and ans: "rpc_GetLogs (dp_RPC D) u (chunk_filter E D to st) = Inr logs"
    and le: "rs_current st \<le> to" and to: "to \<noteq> maxU64" and hon: "logs_in_range E D"
  shows "kept_inv inv logv cpv E D to st'"
proof -
  let ?s = "wd_store (rs_world st)" and ?s' = "wd_store (rs_world st')"
  from K have ck: "chunker_ok (rs_chunker st)" and gr: "growth_ok (ch_max (rs_chunker st))"
    and rb: "rows_below (logv ?s) (unat (rs_current st))"
    and sup: "\<And>c. c \<in> set (cpv ?s) \<Longrightarrow> supported_in E D (logv ?s) c"
    by (auto simp: kept_inv_def)
  note cb = chunk_bounds [OF ck le to]
  from st obtain recs c t c1 where
    br: "buildRecords E D (rs_cache st) (Suc (wd_tick (rs_world st))) logs = (Inr recs, c, t)"
    and i': "inv ?s'" and l': "logv ?s' = insert_spec recs (logv ?s)" and c': "cpv ?s' = cpv ?s @ [c1]"
    and c1: "cp_StartBlock c1 = rs_current st" "cp_EndBlock c1 = chunk_end to st"
    and nx: "rs_current st' = chunk_end to st + 1" "rs_chunker st' = OnSuccess (rs_chunker st)"
    unfolding chunk_stored_def Let_def by blast
  have blk: "unat (l_BlockNumber l) < unat (rs_current st')" if "l \<in> set logs" for l
    using hon [unfolded logs_in_range_def] ans [unfolded chunk_filter_def] that cb(1,4,5) nx(1)
    by (fastforce simp: u64_arith)
  have "rows_below (logv ?s) (unat (rs_current st'))"
    using rb nx(1) cb(1,5) by (fastforce simp: rows_below_def)
  from batch_rows [OF br blk this] have rows: "rows_below (logv ?s') (unat (rs_current st'))"
    by (simp add: l')
  have "supported_in E D (logv ?s') c1"
  proof (rule supported_below)
    show "chunk_supported E D (logv ?s') c1" unfolding l' by (rule answer_supported [OF br ans c1])
    show "lr_BlockNumber x \<le> cp_EndBlock c1" if "logv ?s' k = Some x" for k x
      using rows_belowD [OF rows that] nx(1) cb(4,5) c1(2) by (simp add: u64_arith)
  qed
  moreover have "supported_in E D (logv ?s') d" if "d \<in> set (cpv ?s)" for d
    by (rule supported_in_mono [OF sup [OF that]]) (simp add: l' insert_spec_keeps)
  ultimately have "\<forall>d \<in> set (cpv ?s'). supported_in E D (logv ?s') d" by (auto simp: c')
  moreover have "chunker_ok (rs_chunker st')" "growth_ok (ch_max (rs_chunker st'))"
    using ck gr by (simp_all add: nx(2) OnSuccess_ok OnSuccess_bounds)
  ultimately show ?thesis using rows i' unfolding kept_inv_def by simp
qed

lemma range_iter_kept:
  assumes it: "range_iter E D to st = (st', fl)" and S: "dp_Store D = S"
    and K: "kept_inv inv logv cpv E D to st"
    and le: "rs_current st \<le> to" and to: "to \<noteq> maxU64" and hon: "logs_in_range E D"
  shows "\<forall>c \<in> set (cpv (wd_store (rs_world st'))). supported_in E D (logv (wd_store (rs_world st'))) c"
    and "fl = Next \<Longrightarrow> kept_inv inv logv cpv E D to st'"
proof -
  let ?s' = "wd_store (rs_world st')"
  have "(\<forall>c \<in> set (cpv ?s'). supported_in E D (logv ?s') c)
    \<and> (fl = Next \<longrightarrow> kept_inv inv logv cpv E D to st')"
  proof (cases "rpc_GetLogs (dp_RPC D) (wd_tick (rs_world st)) (chunk_filter E D to st)")
    case (Inl e)
    with it K show ?thesis
      by (auto simp: range_iter_def Let_def kept_inv_def OnError_ok OnError_bounds split: if_splits)
  next
    case (Inr logs)
    with it have "store_chunk E D to st logs = (st', fl)" by (simp add: range_iter_def)
    moreover have "inv (wd_store (rs_world st))" using K by (simp add: kept_inv_def)
    ultimately show ?thesis
    proof (cases rule: store_chunk_cases [OF _ S, consumes 2, case_names failed stored])
      case (failed e)
      with K supported_in_mono show ?thesis
        unfolding kept_inv_def chunk_failed_def logs_grow_def Let_def by (metis flow.distinct(1))
    next
      case stored
      from chunk_stored_kept [OF K stored(2) Inr le to hon] show ?thesis by (auto simp: kept_inv_def)
    qed
  qed
  then show "\<forall>c \<in> set (cpv ?s'). supported_in E D (logv ?s') c"
    and "fl = Next \<Longrightarrow> kept_inv inv logv cpv E D to st'" by auto
qed

lemma range_loop_kept:
  assumes loop: "range_loop E D to st = Some (st', r)" and S: "dp_Store D = S"
    and K: "kept_inv inv logv cpv E D to st" and to: "to \<noteq> maxU64" and hon: "logs_in_range E D"
  shows "\<forall>c \<in> set (cpv (wd_store (rs_world st'))). supported_in E D (logv (wd_store (rs_world st'))) c"
    and "r = None \<Longrightarrow> kept_inv inv logv cpv E D to st'"
proof -
  let ?I = "kept_inv inv logv cpv E D to"
  note C = range_loop_cases [where I = ?I, OF loop K]
  show ok: "?I st'" if "r = None"
    by (rule C(1) [THEN conjunct1]) (rule range_iter_kept(2) [OF _ S _ _ to hon], assumption+, simp, rule that)
  show "\<forall>c \<in> set (cpv (wd_store (rs_world st'))). supported_in E D (logv (wd_store (rs_world st'))) c"
  proof (cases r)
    case None
    with ok show ?thesis by (simp add: kept_inv_def)
  next
    case (Some e)
    have "\<exists>st1. ?I st1 \<and> rs_current st1 \<le> to \<and> range_iter E D to st1 = (st', Fail e)"
      by (rule C(2)) (rule range_iter_kept(2) [OF _ S _ _ to hon], assumption+, simp, rule Some)
    then obtain st1 where "?I st1" "rs_current st1 \<le> to" "range_iter E D to st1 = (st', Fail e)"
      by blast
    from range_iter_kept(1) [OF this(3) S this(1,2) to hon] show ?thesis .
  qed
qed

end

end
