(* ===== verification/Follow.thy ===== *)
theory Follow
  imports Range_Kept Config
begin

text \<open>
  \<open>internal/extract/follow.go\<close>: the loop that keeps the index up to date.  One pass checks the
  newest checkpoint against the chain, rolls back if it is stale, asks for the head and indexes
  up to the confirmed part of the chain.  The loop never returns without an error, so what it
  guarantees is stated of every state it reaches.
\<close>

section \<open>The loop\<close>

record 's FollowState =
  fs_start :: u64
  fs_chunker :: Chunker
  fs_world :: "'s World"

text \<open>Before the loop: resume after the last checkpoint, or at the configured block.\<close>

definition follow_init :: "'v Env \<Rightarrow> Config \<Rightarrow> 's Deps \<Rightarrow> 's World \<Rightarrow> 's FollowState result" where
  "follow_init E cfg D w =
     (case st_LastCheckpoint (dp_Store D) (en_faults E (wd_tick w)) (wd_store w) of
        Inl e \<Rightarrow> Inl (ErrWrap ''load checkpoint'' e)
      | Inr cp \<Rightarrow> Inr \<lparr>fs_start = (case cp of None \<Rightarrow> ix_StartBlock (cf_Indexer cfg)
                                    | Some c \<Rightarrow> cp_EndBlock c + 1),
                       fs_chunker = cfg_chunker cfg, fs_world = w\<lparr>wd_tick := Suc (wd_tick w)\<rparr>\<rparr>)"

text \<open>The part of a pass after the check for a reorganisation: head, lag, and the indexing.\<close>

definition follow_index :: "'v Env \<Rightarrow> Config \<Rightarrow> 's Deps \<Rightarrow> 's FollowState \<Rightarrow>
    ('s FollowState \<times> flow) option" where
  "follow_index E cfg D st =
     (let w = fs_world st; t = wd_tick w; conf = ix_Confirmations (cf_Indexer cfg);
          w1 = w\<lparr>wd_tick := Suc t\<rparr> in
      case rpc_GetBlockNumber (dp_RPC D) t of
        Inl e \<Rightarrow> Some (st\<lparr>fs_world := w1\<lparr>wd_metrics := AddRPCErrors 1 (wd_metrics w)\<rparr>\<rparr>, Next)
      | Inr head \<Rightarrow>
          if head \<le> conf then Some (st\<lparr>fs_world := w1\<rparr>, Next)
          else (let safeHead = head - conf in
            if safeHead < fs_start st
            then Some (st\<lparr>fs_world := w1\<lparr>wd_metrics := SetLag 0 (wd_metrics w)\<rparr>\<rparr>, Next)
            else (let w2 = w1\<lparr>wd_metrics := SetLag (safeHead - fs_start st) (wd_metrics w)\<rparr> in
              case processRangeAdaptive E D (fs_chunker st) (fs_start st) safeHead w2 of
                None \<Rightarrow> None
              | Some (rs, Some e) \<Rightarrow>
                  Some (st\<lparr>fs_chunker := rs_chunker rs, fs_world := rs_world rs\<rparr>, Fail e)
              | Some (rs, None) \<Rightarrow>
                  Some (\<lparr>fs_start = safeHead + 1, fs_chunker = rs_chunker rs,
                         fs_world = rs_world rs\<rparr>, Next))))"

text \<open>One pass through the body of \<open>for\<close>; \<open>None\<close> if the indexing inside it never ends.\<close>

definition follow_pass :: "'v Env \<Rightarrow> Config \<Rightarrow> 's Deps \<Rightarrow> 's FollowState \<Rightarrow>
    ('s FollowState \<times> flow) option" where
  "follow_pass E cfg D st =
     (let w = fs_world st; t = wd_tick w; later = (\<lambda>k s. w\<lparr>wd_tick := t + k, wd_store := s\<rparr>);
          s = wd_store w in
      if en_cancelled E t then Some (st, Fail ErrCanceled)
      else case Detect (dp_RPC D) (dp_Store D) (en_faults E) t s of
        Inl e \<Rightarrow> Some (st\<lparr>fs_world := later 3 s\<rparr>, Fail e)
      | Inr (rollbackFrom, reorged) \<Rightarrow>
          if reorged then
            (case Rollback (dp_Store D) (en_faults E (t + 3)) rollbackFrom s of
               (Some e, s1) \<Rightarrow> Some (st\<lparr>fs_world := later 4 s1\<rparr>, Fail e)
             | (None, s1) \<Rightarrow>
                 follow_index E cfg D (st\<lparr>fs_start := rollbackFrom, fs_world := later 4 s1\<rparr>))
          else follow_index E cfg D (st\<lparr>fs_world := later 3 s\<rparr>))"

text \<open>\<open>Follow\<close>: an error is the only way it returns.\<close>

partial_function (option) follow_loop :: "'v Env \<Rightarrow> Config \<Rightarrow> 's Deps \<Rightarrow> 's FollowState \<Rightarrow>
    ('s FollowState \<times> go_error) option" where
  "follow_loop E cfg D st =
     (case follow_pass E cfg D st of
        None \<Rightarrow> None
      | Some (st', Fail e) \<Rightarrow> Some (st', e)
      | Some (st', Next) \<Rightarrow> follow_loop E cfg D st')"

definition Follow :: "'v Env \<Rightarrow> Config \<Rightarrow> 's Deps \<Rightarrow> 's World \<Rightarrow> ('s World \<times> go_error) option" where
  "Follow E cfg D w =
     (case follow_init E cfg D w of
        Inl e \<Rightarrow> Some (w\<lparr>wd_tick := Suc (wd_tick w)\<rparr>, e)
      | Inr st \<Rightarrow> (case follow_loop E cfg D st of
          None \<Rightarrow> None | Some (st', e) \<Rightarrow> Some (fs_world st', e)))"

text \<open>The states at the head of the loop.\<close>

inductive follow_reaches :: "'v Env \<Rightarrow> Config \<Rightarrow> 's Deps \<Rightarrow> 's World \<Rightarrow> 's FollowState \<Rightarrow> bool"
  for E cfg D w where
  started: "follow_init E cfg D w = Inr st \<Longrightarrow> follow_reaches E cfg D w st"
| passed: "follow_reaches E cfg D w st \<Longrightarrow> follow_pass E cfg D st = Some (st', Next) \<Longrightarrow>
    follow_reaches E cfg D w st'"

section \<open>The check for a reorganisation, on a tiled index\<close>

context log_store
begin

lemma detect_tiled:
  assumes "inv s" and "tiled a (cpv s) b" and "Detect rpc S df t s = Inr (x, True)"
  obtains c where "last_of (cpv s) (Some c)" and "x = cp_StartBlock c"
    and "\<exists>h. GetBlockHashByNumber rpc (t + 1) (cp_EndBlock c) = Inr h \<and> h \<noteq> cp_BlockHash c"
proof -
  from assms(3) obtain cp hash prev where l: "st_LastCheckpoint S (df t) s = Inr (Some cp)"
    and h: "GetBlockHashByNumber rpc (t + 1) (cp_EndBlock cp) = Inr hash" "hash \<noteq> cp_BlockHash cp"
    and p: "st_CheckpointBefore S (df (t + 2)) (cp_StartBlock cp) s = Inr prev"
    and x: "x = (case prev of None \<Rightarrow> cp_StartBlock cp | Some p \<Rightarrow> cp_EndBlock p + 1)"
    by (rule Detect_True)
  note last = last_ok [OF assms(1) l]
  from tiled_prev_end [OF assms(2) last before_ok [OF assms(1) p]] x
  have "x = cp_StartBlock cp" by simp
  with last h that show ?thesis by blast
qed

lemma rollback_tiled:
  assumes "inv s" and "tiled a (cpv s) b" and "last_of (cpv s) (Some c)"
    and "st_RollbackFrom S f (cp_StartBlock c) s = (None, s')"
  shows "inv s'" and "cpv s' = remove1 c (cpv s)" and "tiled a (cpv s') (unat (cp_StartBlock c))"
    and "logv s' = rollback_spec (cp_StartBlock c) (logv s)"
  using rollback_ok [OF assms(1,4)] tiled_remove_last(1,2) [OF assms(2,3)] by simp_all

end

section \<open>The invariant\<close>

text \<open>The node's answers to \<open>eth_blockNumber\<close> are block numbers, so below \<open>2 ^ 64 - 1\<close>.\<close>

definition heads_ok :: "'s Deps \<Rightarrow> bool" where
  "heads_ok D \<longleftrightarrow> (\<forall>t h. rpc_GetBlockNumber (dp_RPC D) t = Inr h \<longrightarrow> h \<noteq> maxU64)"

text \<open>The blocks of \<open>c\<close> had the configured confirmations under some head the node reported.\<close>

definition confirmed :: "Config \<Rightarrow> 's Deps \<Rightarrow> Checkpoint \<Rightarrow> bool" where
  "confirmed cfg D c \<longleftrightarrow> (\<exists>t h. rpc_GetBlockNumber (dp_RPC D) t = Inr h
     \<and> unat (cp_EndBlock c) + unat (ix_Confirmations (cf_Indexer cfg)) \<le> unat h)"

text \<open>The invariant, with any property \<open>P\<close> of checkpoints that follows from their confirmations.\<close>

definition follow_inv where
  "follow_inv iv cv cfg P a st \<longleftrightarrow>
     iv (wd_store (fs_world st)) \<and> chunker_ok (fs_chunker st)
     \<and> ch_max (fs_chunker st) = ch_max (cfg_chunker cfg)
     \<and> tiled a (cv (wd_store (fs_world st))) (unat (fs_start st))
     \<and> (\<forall>c \<in> set (cv (wd_store (fs_world st))). P c)"

text \<open>What is left of it when the loop returns an error: the range may have been left halfway.\<close>

definition stopped_inv where
  "stopped_inv iv cv P a st \<longleftrightarrow>
     iv (wd_store (fs_world st))
     \<and> (\<exists>b. tiled a (cv (wd_store (fs_world st))) b)
     \<and> (\<forall>c \<in> set (cv (wd_store (fs_world st))). P c)"

text \<open>The four ways through a pass, up to its indexing.\<close>

lemma follow_pass_cases:
  assumes "follow_pass E cfg D st = Some (st', fl)"
  obtains (stopped) e where "fl = Fail e" "wd_store (fs_world st') = wd_store (fs_world st)"
  | (checked) t where "follow_index E cfg D (st\<lparr>fs_world := (fs_world st)\<lparr>wd_tick := t\<rparr>\<rparr>) = Some (st', fl)"
  | (rollback_failed) e e' f u x where "fl = Fail e"
      "Detect (dp_RPC D) (dp_Store D) (en_faults E) u (wd_store (fs_world st)) = Inr (x, True)"
      "st_RollbackFrom (dp_Store D) f x (wd_store (fs_world st)) = (Some e', wd_store (fs_world st'))"
  | (rolled_back) t f u x s1 where
      "Detect (dp_RPC D) (dp_Store D) (en_faults E) u (wd_store (fs_world st)) = Inr (x, True)"
      "st_RollbackFrom (dp_Store D) f x (wd_store (fs_world st)) = (None, s1)"
      "follow_index E cfg D (st\<lparr>fs_start := x, fs_world := (fs_world st)\<lparr>wd_tick := t, wd_store := s1\<rparr>\<rparr>)
         = Some (st', fl)"
proof -
  let ?w = "fs_world st" let ?t = "wd_tick ?w"
  let ?d = "Detect (dp_RPC D) (dp_Store D) (en_faults E) ?t (wd_store ?w)"
  consider (no) "en_cancelled E ?t \<or> (\<exists>e. ?d = Inl e)"
    | (keep) x where "\<not> en_cancelled E ?t" "?d = Inr (x, False)"
    | (undo) x r s1 where "\<not> en_cancelled E ?t" "?d = Inr (x, True)"
        "st_RollbackFrom (dp_Store D) (en_faults E (?t + 3)) x (wd_store ?w) = (r, s1)"
    by (cases ?d) (auto, metis surj_pair)
  then show thesis
  proof cases
    case no
    with assms stopped show thesis by (auto simp: follow_pass_def Let_def split: if_splits)
  next
    case keep
    with assms checked [of "?t + 3"] show thesis by (simp add: follow_pass_def Let_def)
  next
    case undo
    then show thesis
      using assms rollback_failed [OF _ undo(2), of _ "en_faults E (?t + 3)"]
        rolled_back [OF undo(2), of "en_faults E (?t + 3)" s1 "?t + 4"]
      by (cases r) (auto simp: follow_pass_def Let_def Rollback_def)
  qed
qed

lemma follow_index_cases [consumes 2, case_names idle indexed]:
  assumes fi: "follow_index E cfg D st = Some (st', fl)" and hd: "heads_ok D"
  obtains "wd_store (fs_world st') = wd_store (fs_world st)" and "fs_start st' = fs_start st"
      and "fs_chunker st' = fs_chunker st" and "fl = Next"
  | h to w2 rs r where "rpc_GetBlockNumber (dp_RPC D) (wd_tick (fs_world st)) = Inr h"
      and "unat to + unat (ix_Confirmations (cf_Indexer cfg)) = unat h" and "fs_start st \<le> to" and "to \<noteq> maxU64"
      and "wd_store w2 = wd_store (fs_world st)"
      and "processRangeAdaptive E D (fs_chunker st) (fs_start st) to w2 = Some (rs, r)"
      and "fl = (case r of None \<Rightarrow> Next | Some e \<Rightarrow> Fail e)" and "fs_world st' = rs_world rs"
      and "fs_chunker st' = rs_chunker rs" and "r = None \<Longrightarrow> fs_start st' = to + 1"
proof (cases "\<exists>h. rpc_GetBlockNumber (dp_RPC D) (wd_tick (fs_world st)) = Inr h
    \<and> ix_Confirmations (cf_Indexer cfg) < h \<and> fs_start st \<le> h - ix_Confirmations (cf_Indexer cfg)")
  case False
  with fi show ?thesis
    by (intro that(1)) (auto simp: follow_index_def Let_def not_less split: sum.splits if_splits)
next
  case True
  let ?w = "fs_world st" and ?conf = "ix_Confirmations (cf_Indexer cfg)"
  from True obtain h where h: "rpc_GetBlockNumber (dp_RPC D) (wd_tick ?w) = Inr h" "?conf < h"
    "fs_start st \<le> h - ?conf" by blast
  let ?w2 = "?w\<lparr>wd_tick := Suc (wd_tick ?w), wd_metrics := SetLag (h - ?conf - fs_start st) (wd_metrics ?w)\<rparr>"
  have to: "unat (h - ?conf) + unat ?conf = unat h" using h(2) by (simp add: unat_minus_ok u64_arith)
  have "h \<noteq> maxU64" using hd h(1) by (auto simp: heads_ok_def)
  then have "unat h < 2 ^ 64 - 1" using unat_u64_le [of h] by (auto simp: u64_arith)
  with to have "h - ?conf \<noteq> maxU64" by (auto simp: u64_arith)
  moreover from h fi obtain rs r where "processRangeAdaptive E D (fs_chunker st) (fs_start st) (h - ?conf) ?w2 = Some (rs, r)"
    "fl = (case r of None \<Rightarrow> Next | Some e \<Rightarrow> Fail e)" "fs_world st' = rs_world rs" "fs_chunker st' = rs_chunker rs"
    "r = None \<Longrightarrow> fs_start st' = h - ?conf + 1"
    by (auto simp: follow_index_def Let_def linorder_not_le [symmetric] split: option.splits)
  ultimately show ?thesis using h to by (intro that(2) [of h "h - ?conf" ?w2 rs r]) simp_all
qed

context log_store
begin

lemma range_indexes:
  assumes "inv (wd_store w)" and "dp_Store D = S" and "chunker_ok ch" and "growth_ok (ch_max ch)"
    and "lo \<le> to" and "to \<noteq> maxU64"
    and "processRangeAdaptive E D ch lo to w = Some (rs, r)"
  obtains new where "inv (wd_store (rs_world rs))" and "chunker_ok (rs_chunker rs)"
    and "ch_max (rs_chunker rs) = ch_max ch"
    and "cpv (wd_store (rs_world rs)) = cpv (wd_store w) @ new"
    and "tiles (unat lo) new (unat (rs_current rs))"
    and "\<forall>c \<in> set new. unat (cp_EndBlock c) \<le> unat to"
    and "r = None \<longrightarrow> unat (rs_current rs) = unat (to + 1)"
proof -
  note loop = assms(7) [unfolded processRangeAdaptive_def]
  have st: "range_inv inv logv cpv E D (cpv (wd_store w)) (processedBlocks (wd_metrics w)) lo
      (ch_max ch) to (range_start ch lo w)"
    using assms by (intro range_start_inv) auto
  from range_loop_inv [OF loop assms(2) st assms(6,4)]
  obtain new where R: "inv (wd_store (rs_world rs))" "chunker_ok (rs_chunker rs)"
      "ch_max (rs_chunker rs) = ch_max ch" "unat (rs_current rs) \<le> unat to + 1"
      "cpv (wd_store (rs_world rs)) = cpv (wd_store w) @ new"
      "tiles (unat lo) new (unat (rs_current rs))"
    unfolding range_inv_def by blast
  have "r = None \<Longrightarrow> to < rs_current rs"
    by (rule range_loop_rule(2) [OF loop, where I = "\<lambda>_. True"]) simp_all
  with R(4) have "r = None \<longrightarrow> unat (rs_current rs) = unat (to + 1)"
    using assms(6) by (auto simp: unat_plus_one u64_less_iff)
  moreover have "\<forall>c \<in> set new. unat (cp_EndBlock c) \<le> unat to"
    using tiles_before [OF R(6)] R(4) by fastforce
  ultimately show ?thesis using R that by blast
qed

lemma follow_index_inv:
  assumes "follow_inv inv cpv cfg P a st" and "dp_Store D = S"
    and "growth_ok (ch_max (cfg_chunker cfg))" and "heads_ok D"
    and "confirmed cfg D \<le> P"
    and "follow_index E cfg D st = Some (st', fl)"
  shows "stopped_inv inv cpv P a st'" and "fl = Next \<Longrightarrow> follow_inv inv cpv cfg P a st'"
proof -
  have I: "inv (wd_store (fs_world st))" "chunker_ok (fs_chunker st)" "ch_max (fs_chunker st) = ch_max (cfg_chunker cfg)"
    "tiled a (cpv (wd_store (fs_world st))) (unat (fs_start st))" "\<forall>c \<in> set (cpv (wd_store (fs_world st))). P c"
    using assms(1) by (auto simp: follow_inv_def)
  from assms(6,4) have "stopped_inv inv cpv P a st' \<and> (fl = Next \<longrightarrow> follow_inv inv cpv cfg P a st')"
  proof (cases rule: follow_index_cases)
    case idle
    with I show ?thesis by (auto simp: follow_inv_def stopped_inv_def)
  next
    case (indexed h to w2 rs r)
    have gr: "growth_ok (ch_max (fs_chunker st))" using assms(3) I(3) by simp
    have iw: "inv (wd_store w2)" using I(1) indexed(5) by simp
    obtain new where N: "inv (wd_store (rs_world rs))" "chunker_ok (rs_chunker rs)"
      "ch_max (rs_chunker rs) = ch_max (fs_chunker st)" "cpv (wd_store (rs_world rs)) = cpv (wd_store w2) @ new"
      "tiles (unat (fs_start st)) new (unat (rs_current rs))" "\<forall>c \<in> set new. unat (cp_EndBlock c) \<le> unat to"
      "r = None \<longrightarrow> unat (rs_current rs) = unat (to + 1)"
      by (rule range_indexes [OF iw assms(2) I(2) gr indexed(3,4,6)])
    have tl: "tiled a (cpv (wd_store (rs_world rs))) (unat (rs_current rs))"
      using N(4) tiled_append [OF I(4) N(5)] indexed(5) by simp
    have "\<forall>c \<in> set new. confirmed cfg D c" using N(6) indexed(1,2) unfolding confirmed_def by fastforce
    with assms(5) have "\<forall>c \<in> set new. P c" by blast
    with N(4) I(5) indexed(5) have cf: "\<forall>c \<in> set (cpv (wd_store (rs_world rs))). P c" by auto
    show ?thesis
      using N(1-3,7) tl cf I(3) indexed(7-10) by (cases r) (auto simp: follow_inv_def stopped_inv_def)
  qed
  then show "stopped_inv inv cpv P a st'" and "fl = Next \<Longrightarrow> follow_inv inv cpv cfg P a st'" by auto
qed

lemma follow_rolled_back:
  assumes I: "follow_inv inv cpv cfg P a st" and S: "dp_Store D = S"
    and dt: "Detect (dp_RPC D) (dp_Store D) (en_faults E) u (wd_store (fs_world st)) = Inr (x, True)"
    and rb: "st_RollbackFrom (dp_Store D) f x (wd_store (fs_world st)) = (None, s1)"
  shows "follow_inv inv cpv cfg P a (st\<lparr>fs_start := x, fs_world := (fs_world st)\<lparr>wd_tick := t, wd_store := s1\<rparr>\<rparr>)"
    and "set (cpv s1) \<subseteq> set (cpv (wd_store (fs_world st)))"
    and "d \<in> set (cpv s1) \<Longrightarrow> cp_EndBlock d < x"
    and "logv s1 = rollback_spec x (logv (wd_store (fs_world st)))"
proof -
  let ?s = "wd_store (fs_world st)"
  have i: "inv ?s" "tiled a (cpv ?s) (unat (fs_start st))" using I by (auto simp: follow_inv_def)
  from detect_tiled [OF i dt [unfolded S]] obtain c where l: "last_of (cpv ?s) (Some c)" and x: "x = cp_StartBlock c"
    by blast
  note R = rollback_tiled [OF i l rb [unfolded x S]]
  show sub: "set (cpv s1) \<subseteq> set (cpv ?s)" unfolding R(2) by (rule set_remove1_subset)
  show "follow_inv inv cpv cfg P a (st\<lparr>fs_start := x, fs_world := (fs_world st)\<lparr>wd_tick := t, wd_store := s1\<rparr>\<rparr>)"
    using R(1,3) x I sub by (auto simp: follow_inv_def)
  show "cp_EndBlock d < x" if "d \<in> set (cpv s1)"
    using tiled_remove_last(3) [OF i(2) l] that R(2) by (simp add: x)
  show "logv s1 = rollback_spec x (logv ?s)" using R(4) x by simp
qed

lemma follow_pass_inv:
  assumes I: "follow_inv inv cpv cfg P a st" and S: "dp_Store D = S"
    and gr: "growth_ok (ch_max (cfg_chunker cfg))" and hd: "heads_ok D" and cf: "confirmed cfg D \<le> P"
    and fp: "follow_pass E cfg D st = Some (st', fl)"
  shows "stopped_inv inv cpv P a st'" and "fl = Next \<Longrightarrow> follow_inv inv cpv cfg P a st'"
proof -
  have stop: "stopped_inv inv cpv P a st1"
    if "inv (wd_store (fs_world st1))" "cpv (wd_store (fs_world st1)) = cpv (wd_store (fs_world st))" for st1
    using I that by (auto simp: stopped_inv_def follow_inv_def)
  have iv: "inv (wd_store (fs_world st))" using I by (simp add: follow_inv_def)
  from fp have "stopped_inv inv cpv P a st' \<and> (fl = Next \<longrightarrow> follow_inv inv cpv cfg P a st')"
  proof (cases rule: follow_pass_cases)
    case stopped
    with stop [of st'] iv show ?thesis by simp
  next
    case (checked t)
    have "follow_inv inv cpv cfg P a (st\<lparr>fs_world := (fs_world st)\<lparr>wd_tick := t\<rparr>\<rparr>)"
      using I by (simp add: follow_inv_def)
    from follow_index_inv [OF this S gr hd cf checked] show ?thesis by blast
  next
    case (rollback_failed e e' f u x)
    with rollback_err [OF iv] S have "inv (wd_store (fs_world st')) \<and>
        cpv (wd_store (fs_world st')) = cpv (wd_store (fs_world st))" by blast
    with stop [of st'] rollback_failed(1) show ?thesis by simp
  next
    case (rolled_back t f u x s1)
    from follow_index_inv [OF follow_rolled_back(1) [OF I S rolled_back(1,2)] S gr hd cf rolled_back(3)]
    show ?thesis by blast
  qed
  then show "stopped_inv inv cpv P a st'" and "fl = Next \<Longrightarrow> follow_inv inv cpv cfg P a st'" by auto
qed

end

section \<open>The logs stay\<close>

definition follow_kept where
  "follow_kept lv cv E D st \<longleftrightarrow>
     rows_below (lv (wd_store (fs_world st))) (unat (fs_start st))
     \<and> (\<forall>c \<in> set (cv (wd_store (fs_world st))). supported_in E D (lv (wd_store (fs_world st))) c)"

context log_store
begin

lemma follow_index_kept:
  assumes inv: "follow_inv inv cpv cfg P a st" and K: "follow_kept logv cpv E D st"
    and S: "dp_Store D = S" and gr: "growth_ok (ch_max (cfg_chunker cfg))"
    and hd: "heads_ok D" and hon: "logs_in_range E D"
    and fi: "follow_index E cfg D st = Some (st', Next)"
  shows "follow_kept logv cpv E D st'"
  using fi hd
proof (cases rule: follow_index_cases)
  case idle
  with K show ?thesis by (simp add: follow_kept_def)
next
  case (indexed h to w2 rs r)
  then have r: "r = None" by (simp split: option.splits)
  have ck: "chunker_ok (fs_chunker st)" "growth_ok (ch_max (fs_chunker st))"
    and iw: "inv (wd_store w2)" using inv gr indexed(5) by (auto simp: follow_inv_def)
  have "kept_inv inv logv cpv E D to (range_start (fs_chunker st) (fs_start st) w2)"
    using K ck iw indexed(5) by (simp add: kept_inv_def range_start_def follow_kept_def)
  from range_loop_kept(2) [OF indexed(6) [unfolded r processRangeAdaptive_def] S this indexed(4) hon]
  have R: "kept_inv inv logv cpv E D to rs" by simp
  have "unat (rs_current rs) = unat (to + 1)"
    using range_indexes [OF iw S ck indexed(3,4) indexed(6) [unfolded r]] by metis
  with R r indexed(8,10) show ?thesis by (simp add: kept_inv_def follow_kept_def)
qed

lemma follow_pass_kept:
  assumes inv: "follow_inv inv cpv cfg P a st" and K: "follow_kept logv cpv E D st"
    and S: "dp_Store D = S" and gr: "growth_ok (ch_max (cfg_chunker cfg))"
    and hd: "heads_ok D" and hon: "logs_in_range E D"
    and fp: "follow_pass E cfg D st = Some (st', Next)"
  shows "follow_kept logv cpv E D st'"
  using fp
proof (cases rule: follow_pass_cases)
  case (checked t)
  have "follow_inv inv cpv cfg P a (st\<lparr>fs_world := (fs_world st)\<lparr>wd_tick := t\<rparr>\<rparr>)"
    "follow_kept logv cpv E D (st\<lparr>fs_world := (fs_world st)\<lparr>wd_tick := t\<rparr>\<rparr>)"
    using inv K by (simp_all add: follow_inv_def follow_kept_def)
  from follow_index_kept [OF this S gr hd hon checked] show ?thesis .
next
  case (rolled_back t f u x s1)
  let ?s = "wd_store (fs_world st)"
  let ?st1 = "st\<lparr>fs_start := x, fs_world := (fs_world st)\<lparr>wd_tick := t, wd_store := s1\<rparr>\<rparr>"
  note R = follow_rolled_back [OF inv S rolled_back(1,2)]
  have "supported_in E D (logv s1) d" if "d \<in> set (cpv s1)" for d
  proof -
    have "supported_in E D (logv ?s) d" using K R(2) that by (auto simp: follow_kept_def)
    then show ?thesis unfolding R(4) using R(3) [OF that] by (rule supported_in_rollback)
  qed
  moreover have "rows_below (logv s1) (unat x)" unfolding R(4) by (rule rows_below_rollback)
  ultimately have "follow_kept logv cpv E D ?st1" by (simp add: follow_kept_def)
  from follow_index_kept [OF R(1) this S gr hd hon rolled_back(3)] show ?thesis .
qed simp_all

end

section \<open>The properties, for both databases\<close>

text \<open>
  An index that \<open>Follow\<close> can start from: empty, or left behind by an earlier run.  The
  checkpoints tile the blocks from the configured start block on.
\<close>

definition index_ok :: "Config \<Rightarrow> 's Deps \<Rightarrow> db \<Rightarrow> bool" where
  "index_ok cfg D s \<longleftrightarrow> db_inv s
     \<and> (\<exists>b. tiled (unat (ix_StartBlock (cf_Indexer cfg))) (db_cps s) b)
     \<and> (\<forall>c \<in> set (db_cps s). confirmed cfg D c)"

text \<open>The same with any property of the checkpoints; the weakest that \<open>Follow\<close> needs is \<open>below_max\<close>.\<close>

definition index_on :: "nat \<Rightarrow> (Checkpoint \<Rightarrow> bool) \<Rightarrow> db \<Rightarrow> bool" where
  "index_on a P s \<longleftrightarrow> db_inv s \<and> (\<exists>b. tiled a (db_cps s) b) \<and> (\<forall>c \<in> set (db_cps s). P c)"

definition below_max :: "Checkpoint \<Rightarrow> bool" where
  "below_max c \<longleftrightarrow> unat (cp_EndBlock c) < 2 ^ 64 - 1"

lemma index_ok_on: "index_ok cfg D s \<longleftrightarrow> index_on (unat (ix_StartBlock (cf_Indexer cfg))) (confirmed cfg D) s"
  by (simp add: index_ok_def index_on_def)

lemma stopped_index_on: "stopped_inv db_inv db_cps P a st \<longleftrightarrow> index_on a P (wd_store (fs_world st))"
  by (simp add: stopped_inv_def index_on_def)

lemma confirmed_below: "heads_ok D \<Longrightarrow> confirmed cfg D \<le> below_max"
proof (rule predicate1I)
  fix c assume "heads_ok D" and "confirmed cfg D c"
  then obtain h where "h \<noteq> maxU64" "unat (cp_EndBlock c) \<le> unat h"
    unfolding confirmed_def heads_ok_def by (metis add_leD1)
  then show "below_max c" using unat_u64_le [of h] by (auto simp: below_max_def u64_arith)
qed

lemma a_store_last: "a_store S \<Longrightarrow> db_inv s \<Longrightarrow> st_LastCheckpoint S f s = Inr r \<Longrightarrow> last_of (db_cps s) r"
  using sqlite.last_ok pg.last_ok by (auto simp: a_store_def)

lemma follow_init_inv:
  assumes "a_store (dp_Store D)" and "index_on (unat (ix_StartBlock (cf_Indexer cfg))) P (wd_store w)"
    and "P \<le> below_max"
    and "follow_init E cfg D w = Inr st"
  shows "follow_inv db_inv db_cps cfg P (unat (ix_StartBlock (cf_Indexer cfg))) st"
    and "wd_store (fs_world st) = wd_store w"
proof -
  let ?a = "unat (ix_StartBlock (cf_Indexer cfg))" and ?s = "wd_store w"
  from assms(2) obtain b where I: "db_inv ?s" "tiled ?a (db_cps ?s) b"
    "\<forall>c \<in> set (db_cps ?s). P c" by (auto simp: index_on_def)
  from assms(4) obtain r where l: "st_LastCheckpoint (dp_Store D) (en_faults E (wd_tick w)) ?s = Inr r"
    and st: "st = \<lparr>fs_start = (case r of None \<Rightarrow> ix_StartBlock (cf_Indexer cfg)
                                    | Some c \<Rightarrow> cp_EndBlock c + 1),
                       fs_chunker = cfg_chunker cfg, fs_world = w\<lparr>wd_tick := Suc (wd_tick w)\<rparr>\<rparr>"
    by (auto simp: follow_init_def split: sum.splits)
  have last: "last_of (db_cps ?s) r" using a_store_last [OF assms(1) I(1) l] .
  have "tiled ?a (db_cps ?s) (unat (fs_start st))"
  proof (cases r)
    case None
    with last have "db_cps ?s = []" by (simp add: last_of_def)
    with None st show ?thesis by simp
  next
    case (Some c)
    have "P c" using I(3) last Some by (auto simp: last_of_def)
    with assms(3) have "unat (cp_EndBlock c) < 2 ^ 64 - 1" by (auto simp: below_max_def)
    then have "unat (cp_EndBlock c + 1) = unat (cp_EndBlock c) + 1" by (rule unat_plus_one_lt)
    with I(2) tiled_remove_last(4) [OF I(2) last [unfolded Some]] Some st show ?thesis by simp
  qed
  with I st show "follow_inv db_inv db_cps cfg P ?a st" by (simp add: follow_inv_def cfg_chunker_ok)
  from st show "wd_store (fs_world st) = wd_store w" by simp
qed

lemma follow_pass_db:
  assumes "a_store (dp_Store D)" and "follow_inv db_inv db_cps cfg P a st"
    and "growth_ok (ch_max (cfg_chunker cfg))" and "heads_ok D" and "confirmed cfg D \<le> P"
    and "follow_pass E cfg D st = Some (st', fl)"
  shows "stopped_inv db_inv db_cps P a st'"
    and "fl = Next \<Longrightarrow> follow_inv db_inv db_cps cfg P a st'"
  using log_store.follow_pass_inv [OF a_store_log_store [OF assms(1)] assms(2) HOL.refl assms(3-6)] by blast+

lemma follow_reaches_inv:
  assumes "follow_reaches E cfg D w st"
    and "a_store (dp_Store D)" and "index_on (unat (ix_StartBlock (cf_Indexer cfg))) P (wd_store w)"
    and "P \<le> below_max" and "growth_ok (ch_max (cfg_chunker cfg))" and "heads_ok D" and "confirmed cfg D \<le> P"
  shows "follow_inv db_inv db_cps cfg P (unat (ix_StartBlock (cf_Indexer cfg))) st"
  using assms(1)
proof (induction rule: follow_reaches.induct)
  case (started st)
  then show ?case using follow_init_inv assms(2-4) by blast
next
  case (passed st st')
  then show ?case using follow_pass_db(2) assms(2,5,6,7) by blast
qed

text \<open>An error that ends \<open>Follow\<close> comes from its start or from a pass it reached.\<close>

lemma follow_loop_returns:
  fixes D :: "'s Deps"
  assumes "follow_loop E cfg D st = Some (st', e)" and "follow_reaches E cfg D w st"
  shows "\<exists>st. follow_reaches E cfg D w st \<and> follow_pass E cfg D st = Some (st', Fail e)"
proof -
  define P where "P E' cfg' D' st out \<longleftrightarrow> (E' = E \<and> cfg' = cfg \<and> D' = D \<and> follow_reaches E cfg D w st \<longrightarrow>
      (\<exists>st. follow_reaches E cfg D w st \<and> follow_pass E cfg D st = Some (fst out, Fail (snd out))))"
    for E' cfg' D' st and out :: "'s FollowState \<times> go_error"
  have "P E cfg D st (st', e)"
  proof (rule follow_loop.raw_induct [of P, OF _ assms(1)])
    fix f E' cfg' D' st out
    assume IH: "\<And>E' cfg' D' st out. f E' cfg' D' st = Some out \<Longrightarrow> P E' cfg' D' st out"
      and eq: "(case follow_pass E' cfg' D' st of None \<Rightarrow> None
         | Some (st', Next) \<Rightarrow> f E' cfg' D' st' | Some (st', Fail e) \<Rightarrow> Some (st', e)) = Some out"
    show "P E' cfg' D' st out"
    proof (cases "E' = E \<and> cfg' = cfg \<and> D' = D \<and> follow_reaches E cfg D w st")
      case True
      with eq obtain st1 fl where fp: "follow_pass E cfg D st = Some (st1, fl)"
        by (auto split: option.splits)
      show ?thesis
      proof (cases fl)
        case Next
        with True fp have "follow_reaches E cfg D w st1" by (auto intro: follow_reaches.passed)
        with eq True fp Next IH [of E cfg D st1] show ?thesis by (auto simp: P_def)
      next
        case (Fail e)
        with eq True fp show ?thesis by (auto simp: P_def)
      qed
    qed (auto simp: P_def)
  qed
  with assms(2) show ?thesis by (simp add: P_def)
qed

lemma follow_returns:
  assumes "Follow E cfg D w = Some (w', e)"
  shows "wd_store w' = wd_store w \<and> follow_init E cfg D w = Inl e
    \<or> (\<exists>st st'. follow_reaches E cfg D w st \<and> follow_pass E cfg D st = Some (st', Fail e)
         \<and> w' = fs_world st')"
proof (cases "follow_init E cfg D w")
  case (Inl e')
  with assms show ?thesis by (auto simp: Follow_def)
next
  case (Inr st)
  with assms obtain st' where "follow_loop E cfg D st = Some (st', e)" "w' = fs_world st'"
    by (auto simp: Follow_def split: option.splits)
  with follow_loop_returns follow_reaches.started [OF Inr] show ?thesis by metis
qed

text \<open>
  C2. Following the chain.  Whenever \<open>Follow\<close> is at the head of its loop, the checkpoints,
  sorted by their start blocks (a backfill may have saved them in another order), tile the blocks from
  the configured start block to just below the next block to index, without a gap or an overlap, through any number of reorganisations, rollbacks, refused
  ranges and failing heads; and each indexed block had the configured number of confirmations
  under some head the node reported.
\<close>

theorem follow_tiles:
  assumes "a_store (dp_Store D)" and "config_ok cfg"
    and "growth_ok (ix_MaxChunkSize (cf_Indexer cfg))" and "heads_ok D"
    and "index_ok cfg D (wd_store w)"
    and "follow_reaches E cfg D w st"
  shows "tiled (unat (ix_StartBlock (cf_Indexer cfg))) (db_cps (wd_store (fs_world st)))
       (unat (fs_start st))
    \<and> (\<forall>c \<in> set (db_cps (wd_store (fs_world st))). confirmed cfg D c)"
  using follow_reaches_inv [OF assms(6,1) assms(5) [unfolded index_ok_on] confirmed_below [OF assms(4)] _ assms(4) order.refl]
    assms(3) cfg_chunker_validated [OF assms(2)]
  by (simp add: follow_inv_def)

lemma Follow_index_on:
  assumes "a_store (dp_Store D)" and "config_ok cfg"
    and "growth_ok (ix_MaxChunkSize (cf_Indexer cfg))" and "heads_ok D"
    and "index_on (unat (ix_StartBlock (cf_Indexer cfg))) P (wd_store w)"
    and P: "confirmed cfg D \<le> P" "P \<le> below_max"
    and "Follow E cfg D w = Some (w', e)"
  shows "index_on (unat (ix_StartBlock (cf_Indexer cfg))) P (wd_store w')"
proof -
  have gr: "growth_ok (ch_max (cfg_chunker cfg))"
    using assms(3) cfg_chunker_validated [OF assms(2)] by simp
  from follow_returns [OF assms(8)] show ?thesis
  proof (elim disjE exE conjE)
    assume "wd_store w' = wd_store w"
    with assms(5) show ?thesis by simp
  next
    fix st st'
    assume "follow_reaches E cfg D w st" "follow_pass E cfg D st = Some (st', Fail e)"
      and w': "w' = fs_world st'"
    from follow_pass_db(1) [OF assms(1) follow_reaches_inv [OF this(1) assms(1,5) P(2) gr assms(4) P(1)]
        gr assms(4) P(1) this(2)]
    show ?thesis by (simp add: stopped_index_on w')
  qed
qed

lemmas Follow_index_ok =
  Follow_index_on [of _ _ "confirmed cfg D" for cfg D, OF _ _ _ _ _ order.refl confirmed_below, folded index_ok_on]

text \<open>
  C12. Stopping and starting again.  Whatever error \<open>Follow\<close> returns with (a cancelled context,
  a failing node, a database that fails in the middle of a range or of a rollback), it leaves
  an index it can start from: the next run begins at the first block that no checkpoint covers.
\<close>

theorem follow_restart:
  assumes "a_store (dp_Store D)" and "config_ok cfg"
    and "growth_ok (ix_MaxChunkSize (cf_Indexer cfg))" and "heads_ok D"
    and "index_ok cfg D (wd_store w)"
    and "Follow E cfg D w = Some (w', e)"
  shows "index_ok cfg D (wd_store w')
    \<and> (\<forall>E2 st. follow_init E2 cfg D w' = Inr st \<longrightarrow>
         tiled (unat (ix_StartBlock (cf_Indexer cfg))) (db_cps (wd_store w')) (unat (fs_start st)))"
proof -
  have ix: "index_ok cfg D (wd_store w')" by (rule Follow_index_ok [OF assms(1-5,4,6)])
  with follow_init_inv [OF assms(1) ix [unfolded index_ok_on] confirmed_below [OF assms(4)]] show ?thesis by (fastforce simp: follow_inv_def)
qed

lemma follow_reaches_kept:
  assumes "a_store (dp_Store D)" and "config_ok cfg"
    and "growth_ok (ix_MaxChunkSize (cf_Indexer cfg))" and "heads_ok D"
    and "logs_in_range E D" and "wd_store w = empty_db"
    and "follow_reaches E cfg D w st"
  shows "db_inv (wd_store (fs_world st))"
    and "c \<in> set (db_cps (wd_store (fs_world st))) \<Longrightarrow> chunk_supported E D (db_logs (wd_store (fs_world st))) c"
proof -
  have gr: "growth_ok (ch_max (cfg_chunker cfg))"
    using assms(3) cfg_chunker_validated [OF assms(2)] by simp
  have ix: "index_on (unat (ix_StartBlock (cf_Indexer cfg))) (confirmed cfg D) (wd_store w)"
    by (simp add: assms(6) index_on_def empty_db_def db_view_defs)
  note bm = confirmed_below [OF assms(4)]
  have "follow_kept db_logs db_cps E D st"
    using assms(7)
  proof (induction rule: follow_reaches.induct)
    case (started st)
    from follow_init_inv(2) [OF assms(1) ix bm started] assms(6)
    have "wd_store (fs_world st) = empty_db" by simp
    then show ?case
      by (simp add: follow_kept_def rows_below_def empty_db_def db_view_defs view_logs_def)
  next
    case (passed st st')
    from follow_reaches_inv [OF passed(1) assms(1) ix bm gr assms(4) order.refl] passed(2,3)
      sqlite.follow_pass_kept [OF _ _ _ gr assms(4,5)] pg.follow_pass_kept [OF _ _ _ gr assms(4,5)]
    show ?case using assms(1) unfolding a_store_def by blast
  qed
  then show "c \<in> set (db_cps (wd_store (fs_world st))) \<Longrightarrow> chunk_supported E D (db_logs (wd_store (fs_world st))) c"
    by (auto simp: follow_kept_def intro: supported_in_chunk)
  from follow_reaches_inv [OF assms(7,1) ix bm gr assms(4) order.refl]
  show "db_inv (wd_store (fs_world st))" by (simp add: follow_inv_def)
qed


text \<open>
  C17. A detected reorganisation.  On a tiled index, \<open>Detect\<close> answers with the start of the
  newest checkpoint, whose block the chain now has under another hash, and \<open>Rollback\<close> from
  there removes exactly that checkpoint and the rows of its blocks and later ones: all other
  checkpoints and every row below it stay.
\<close>

theorem reorg_rolls_back:
  assumes "a_store S" and "db_inv s" and "tiled a (db_cps s) b"
    and "Detect rpc S df t s = Inr (x, True)" and "Rollback S f x s = (None, s')"
  shows "\<exists>c. last_of (db_cps s) (Some c) \<and> x = cp_StartBlock c
    \<and> (\<exists>h. GetBlockHashByNumber rpc (t + 1) (cp_EndBlock c) = Inr h \<and> h \<noteq> cp_BlockHash c)
    \<and> db_cps s' = remove1 c (db_cps s) \<and> tiled a (db_cps s') (unat x)
    \<and> db_logs s' = rollback_spec x (db_logs s)"
proof -
  note S = a_store_log_store [OF assms(1)]
  from log_store.detect_tiled [OF S assms(2,3,4)] obtain c where c: "last_of (db_cps s) (Some c)" "x = cp_StartBlock c"
    "\<exists>h. GetBlockHashByNumber rpc (t + 1) (cp_EndBlock c) = Inr h \<and> h \<noteq> cp_BlockHash c" .
  from assms(5) c(2) have "st_RollbackFrom S f (cp_StartBlock c) s = (None, s')" by (simp add: Rollback_def)
  from log_store.rollback_tiled [OF S assms(2,3) c(1) this] c show ?thesis by auto
qed

text \<open>
  Only the newest checkpoint is verified.  If the chain still has the newest checkpoint's
  block under the stored hash, \<open>Detect\<close> reports no reorganisation, whatever became of the
  blocks of the older checkpoints.
\<close>

theorem detect_newest_only:
  assumes "a_store S" and "db_inv s" and "db_cps s = init @ [c]" and "tiles a (db_cps s) b"
    and "df t 0 = None"
    and "GetBlockHashByNumber rpc (t + 1) (cp_EndBlock c) = Inr (cp_BlockHash c)"
  shows "Detect rpc S df t s = Inr (0, False)"
proof -
  have "\<exists>r. st_LastCheckpoint S (df t) s = Inr r"
    using assms(1,5) by (auto simp: a_store_def sqlite_store_def pg_store_def
        sqlite_LastCheckpoint_def pg_LastCheckpoint_def scanCheckpoint_def split: option.splits)
  then obtain r where r: "st_LastCheckpoint S (df t) s = Inr r" by blast
  from a_store_last [OF assms(1,2) r] have l: "last_of (db_cps s) r" .
  then obtain c' where c': "r = Some c'" using assms(3) by (cases r) (auto simp: last_of_def)
  from tiles_last_of [OF assms(4) l [unfolded c']] assms(3) have "c' = c" by auto
  with r c' assms(6) show ?thesis by (simp add: Detect_def)
qed

section \<open>A run\<close>

text \<open>The head is block 6; the context is cancelled at the moment 4, after the first pass.\<close>

definition demo_stop :: "string Env" where
  "demo_stop = demo_env\<lparr>en_cancelled := (\<lambda>t. 4 \<le> t)\<rparr>"

definition demo_follow0 :: "string list \<Rightarrow> db FollowState" where
  "demo_follow0 q = \<lparr>fs_start = 6, fs_chunker = NewChunker 50 500 200,
     fs_world = (schema_world q)\<lparr>wd_tick := 1\<rparr>\<rparr>"

definition demo_follow1 :: "string list \<Rightarrow> db FollowState" where
  "demo_follow1 q = (case follow_pass demo_stop sample_validated (demo_deps 2 6) (demo_follow0 q) of
     Some (st, fl) \<Rightarrow> st | None \<Rightarrow> (demo_follow0 q))"

lemma demo_stop_simps [simp]:
  "en_lib demo_stop = demo_lib" "en_faults demo_stop t = no_faults" "en_now demo_stop t = 0"
  "en_cancelled demo_stop t = (4 \<le> t)"
  by (simp_all add: demo_stop_def)

lemma demo_follow_init: "follow_init demo_stop sample_validated (demo_deps 2 6) (schema_world q) = Inr (demo_follow0 q)"
  by (simp add: follow_init_def demo_follow0_def cfg_chunker_def sample_simps schema_world_def empty_db_def
      sqlite_store_def sqlite_LastCheckpoint_def scanCheckpoint_def no_faults_def)

lemma demo_follow_pass:
  "follow_pass demo_stop sample_validated (demo_deps 2 6) (demo_follow0 q) = Some ((demo_follow1 q), Next)"
  "fs_start (demo_follow1 q) = 7"
  "wd_tick (fs_world (demo_follow1 q)) = 12"
  "map (\<lambda>c. (cp_StartBlock c, cp_EndBlock c)) (db_cps (wd_store (fs_world (demo_follow1 q)))) = [(6, 6)]"
  by (simp_all add: demo_follow1_def schema_world_def follow_pass_def demo_follow0_def Detect_def follow_index_def
      sample_simps SetLag_def sqlite_LastCheckpoint_def scanCheckpoint_def processRangeAdaptive_def
      range_loop.simps demo_run)

lemma demo_follow_reaches: "follow_reaches demo_stop sample_validated (demo_deps 2 6) (schema_world q) (demo_follow1 q)"
  by (rule follow_reaches.passed [OF follow_reaches.started [OF demo_follow_init] demo_follow_pass(1)])

lemma demo_follow_returns:
  "Follow demo_stop sample_validated (demo_deps 2 6) (schema_world q) = Some (fs_world (demo_follow1 q), ErrCanceled)"
proof -
  have "follow_loop demo_stop sample_validated (demo_deps 2 6) (demo_follow1 q) = Some ((demo_follow1 q), ErrCanceled)"
    by (subst follow_loop.simps) (simp add: follow_pass_def demo_follow_pass(3))
  then have "follow_loop demo_stop sample_validated (demo_deps 2 6) (demo_follow0 q)
      = Some ((demo_follow1 q), ErrCanceled)"
    by (subst follow_loop.simps) (simp add: demo_follow_pass(1))
  then show ?thesis by (simp add: Follow_def demo_follow_init)
qed

lemma demo_follow_pre:
  "a_store (dp_Store (demo_deps 2 6))" "config_ok sample_validated"
  "growth_ok (ix_MaxChunkSize (cf_Indexer sample_validated))" "heads_ok (demo_deps 2 6)"
  "index_ok sample_validated (demo_deps 2 6) (wd_store (schema_world q))"
  using Validate_config_ok [OF sample_validates]
  by (simp_all add: a_store_def sample_simps growth_ok_def heads_ok_def maxU64_def index_ok_def
      schema_world_def empty_db_def db_view_defs)

lemma demo_logs_in_range: "logs_in_range demo_env (demo_deps cap head)"
  unfolding logs_in_range_def
proof (intro allI impI ballI)
  fix t a b logs l
  assume "rpc_GetLogs (dp_RPC (demo_deps cap head)) t
      (buildFilter (en_lib demo_env) a b (dp_Decoder (demo_deps cap head))) = Inr logs" "l \<in> set logs"
  then obtain n where n: "unat a \<le> n" "n \<le> unat b" "l_BlockNumber l = of_nat n"
    by (auto simp: buildFilter_def Let_def demo_logs_def split: if_splits)
  with unat_lt_2_64 [of b] have "unat (l_BlockNumber l) = n"
    by (simp add: unat_of_nat)
  with n show "a \<le> l_BlockNumber l \<and> l_BlockNumber l \<le> b" by (simp add: u64_arith)
qed

lemma demo_logs_in_range_stop: "logs_in_range demo_stop (demo_deps cap head)"
  using demo_logs_in_range [of cap head] by (simp add: logs_in_range_def)

theorem follow_tiles_witness: "tiled 6 (db_cps (wd_store (fs_world (demo_follow1 [])))) 7"
  using follow_tiles [OF demo_follow_pre demo_follow_reaches, THEN conjunct1]
  by (simp add: sample_simps demo_follow_pass(2))

theorem follow_restart_witness:
  "index_ok sample_validated (demo_deps 2 6) (wd_store (fs_world (demo_follow1 [])))"
  by (rule follow_restart [OF demo_follow_pre demo_follow_returns, THEN conjunct1])


text \<open>An index of two checkpoints; the chain has block \<open>n\<close> under the hash \<open>unary n\<close>.\<close>

definition demo_index :: "string \<Rightarrow> string \<Rightarrow> db" where
  "demo_index h5 h6 = empty_db\<lparr>d_cps := [
     \<lparr>w_id = 1, w_start_block = 1, w_end_block = 5, w_cp_hash = h5, w_cp_inserted_at = 0\<rparr>,
     \<lparr>w_id = 2, w_start_block = 6, w_end_block = 6, w_cp_hash = h6, w_cp_inserted_at = 0\<rparr>]\<rparr>"

lemma demo_index_ok: "db_inv (demo_index h5 h6)" "tiles 1 (db_cps (demo_index h5 h6)) 7"
  by (simp_all add: demo_index_def empty_db_def db_view_defs cp_of_row_def)

theorem reorg_rolls_back_witness:
  "db_cps (snd (Rollback sqlite_store no_faults 6 (demo_index (unary 5) ''stale'')))
     = [\<lparr>cp_ID = 1, cp_StartBlock = 1, cp_EndBlock = 5, cp_BlockHash = unary 5, cp_InsertedAt = 0\<rparr>]"
proof -
  let ?s = "demo_index (unary 5) ''stale''" and ?s' = "snd (Rollback sqlite_store no_faults 6 (demo_index (unary 5) ''stale''))"
  have st: "a_store sqlite_store" by (simp add: a_store_def)
  have det: "Detect (demo_rpc 2 6) sqlite_store (\<lambda>t. no_faults) 0 ?s = Inr (6, True)"
    by (simp add: Detect_def sqlite_store_def sqlite_LastCheckpoint_def sqlite_CheckpointBefore_def
        scanCheckpoint_def no_faults_def demo_index_def empty_db_def cp_of_row_def Let_def
        GetBlockHashByNumber_def bind_u64s_def fits_int64_def)
  have rb: "Rollback sqlite_store no_faults 6 ?s = (None, ?s')"
    by (simp add: Rollback_def sqlite_store_def sqlite_RollbackFrom_def no_faults_def bind_u64s_def
        fits_int64_def Let_def)
  have cps: "db_cps ?s = [\<lparr>cp_ID = 1, cp_StartBlock = 1, cp_EndBlock = 5, cp_BlockHash = unary 5, cp_InsertedAt = 0\<rparr>]
      @ [\<lparr>cp_ID = 2, cp_StartBlock = 6, cp_EndBlock = 6, cp_BlockHash = ''stale'', cp_InsertedAt = 0\<rparr>]"
    by (simp add: demo_index_def empty_db_def db_view_defs cp_of_row_def time_Unix_def)
  from reorg_rolls_back [OF st demo_index_ok(1) tiles_tiled [OF demo_index_ok(2)] det rb] show ?thesis
    unfolding cps by (auto simp: last_of_def)
qed

theorem detect_newest_only_witness:
  "Detect (demo_rpc 2 6) sqlite_store (\<lambda>t. no_faults) 0 (demo_index ''stale'' (unary 6)) = Inr (0, False)
   \<and> GetBlockHashByNumber (demo_rpc 2 6) 1 5 \<noteq> Inr ''stale''"
proof
  show "Detect (demo_rpc 2 6) sqlite_store (\<lambda>t. no_faults) 0 (demo_index ''stale'' (unary 6)) = Inr (0, False)"
  proof (rule detect_newest_only [OF _ demo_index_ok(1) _ demo_index_ok(2)])
    show "a_store sqlite_store" by (simp add: a_store_def)
    show "db_cps (demo_index ''stale'' (unary 6))
        = [cp_of_row \<lparr>w_id = 1, w_start_block = 1, w_end_block = 5, w_cp_hash = ''stale'', w_cp_inserted_at = 0\<rparr>]
        @ [cp_of_row \<lparr>w_id = 2, w_start_block = 6, w_end_block = 6, w_cp_hash = unary 6, w_cp_inserted_at = 0\<rparr>]"
      by (simp add: demo_index_def empty_db_def db_view_defs)
  qed (simp_all add: no_faults_def GetBlockHashByNumber_def cp_of_row_def)
  show "GetBlockHashByNumber (demo_rpc 2 6) 1 5 \<noteq> Inr ''stale''"
    by (simp add: GetBlockHashByNumber_def)
qed

end
