(* ===== verification/Backfill.thy ===== *)
theory Backfill
  imports Range_Kept Config
begin

text \<open>
  \<open>internal/extract/backfill.go\<close>: a producer cuts the range into jobs and hands them over an
  unbuffered channel to concurrent workers, each of which indexes its jobs with its own
  chunker; the first error cancels the rest.  The interleavings are the runs of a step
  relation: at each step the producer or one worker moves.  A worker moves by one pass of its
  loop (one request and what is stored of the answer), so the workers interleave between the
  passes.
\<close>

section \<open>The range\<close>

definition backfill_range :: "Config \<Rightarrow> 's Deps \<Rightarrow> u64 option \<Rightarrow> u64 option \<Rightarrow> nat \<Rightarrow>
    (u64 \<times> u64) result" where
  "backfill_range cfg D fromOverride toOverride t =
     (let start = (case fromOverride of None \<Rightarrow> ix_StartBlock (cf_Indexer cfg) | Some b \<Rightarrow> b);
          conf = ix_Confirmations (cf_Indexer cfg) in
      case toOverride of
        Some b \<Rightarrow> Inr (start, b)
      | None \<Rightarrow> (case rpc_GetBlockNumber (dp_RPC D) t of
          Inl e \<Rightarrow> Inl (ErrWrap ''get head'' e)
        | Inr head \<Rightarrow>
            if head \<le> conf then Inl (ErrNew ''head too low for confirmations'')
            else Inr (start, head - conf)))"

text \<open>The job that starts at \<open>cur\<close>.\<close>

definition next_job :: "Config \<Rightarrow> u64 \<Rightarrow> u64 \<Rightarrow> Range" where
  "next_job cfg hi cur =
     (let rEnd = cur + ix_ChunkSize (cf_Indexer cfg) - 1;
          rEnd = (if rEnd > hi then hi else rEnd)
      in \<lparr>rg_From = cur, rg_To = rEnd\<rparr>)"

section \<open>Producer and workers\<close>

datatype producer = Checking | Sending Range | Closed

datatype worker = Idle Chunker | Busy Chunker Range u64 BlockCache | Exited

text \<open>\<open>bf_err\<close> is the content of \<open>errCh\<close>; the context is cancelled once it is filled.\<close>

record 's Backfill =
  bf_cur :: u64
  bf_producer :: producer
  bf_workers :: "worker list"
  bf_err :: "go_error option"
  bf_world :: "'s World"

definition backfill_start :: "Config \<Rightarrow> u64 \<Rightarrow> 's World \<Rightarrow> 's Backfill" where
  "backfill_start cfg start w = \<lparr>bf_cur = start, bf_producer = Checking,
     bf_workers = replicate (nat (ix_Concurrency (cf_Indexer cfg))) (Idle (cfg_chunker cfg)),
     bf_err = None, bf_world = w\<rparr>"

text \<open>The head of the producer's loop: end of the range, cancelled context, or the next job.\<close>

definition producer_check :: "'v Env \<Rightarrow> Config \<Rightarrow> u64 \<Rightarrow> 's Backfill \<Rightarrow> producer" where
  "producer_check E cfg hi s =
     (if bf_cur s \<le> hi then
        (if bf_err s \<noteq> None \<or> en_cancelled E (wd_tick (bf_world s)) then Closed
         else Sending (next_job cfg hi (bf_cur s)))
      else Closed)"

definition take_job :: "nat \<Rightarrow> Chunker \<Rightarrow> Range \<Rightarrow> 's Backfill \<Rightarrow> 's Backfill" where
  "take_job i ch r s = s\<lparr>bf_producer := Checking, bf_cur := rg_To r + 1,
     bf_workers := (bf_workers s)[i := Busy ch r (rg_From r) NewBlockCache]\<rparr>"

text \<open>The state of a worker's loop, over the shared world.\<close>

definition worker_state :: "Chunker \<Rightarrow> u64 \<Rightarrow> BlockCache \<Rightarrow> 's World \<Rightarrow> 's RangeState" where
  "worker_state ch cur c w = \<lparr>rs_current = cur, rs_chunker = ch, rs_cache = c, rs_world = w\<rparr>"

text \<open>A pass of worker \<open>i\<close>; after an error the worker fills \<open>errCh\<close> if it is the first and leaves.\<close>

definition worker_pass :: "'v Env \<Rightarrow> 's Deps \<Rightarrow> nat \<Rightarrow> Chunker \<Rightarrow> Range \<Rightarrow> u64 \<Rightarrow> BlockCache \<Rightarrow>
    's Backfill \<Rightarrow> 's Backfill" where
  "worker_pass E D i ch r cur c s =
     (case range_iter E D (rg_To r) (worker_state ch cur c (bf_world s)) of
        (st, Next) \<Rightarrow> s\<lparr>bf_world := rs_world st, bf_workers := (bf_workers s)
            [i := Busy (rs_chunker st) r (rs_current st) (rs_cache st)]\<rparr>
      | (st, Fail e) \<Rightarrow> s\<lparr>bf_world := rs_world st, bf_workers := (bf_workers s)[i := Exited],
            bf_err := (case bf_err s of None \<Rightarrow> Some e | Some e' \<Rightarrow> Some e')\<rparr>)"

inductive bf_step :: "'v Env \<Rightarrow> Config \<Rightarrow> 's Deps \<Rightarrow> u64 \<Rightarrow> 's Backfill \<Rightarrow> 's Backfill \<Rightarrow> bool"
  for E cfg D hi where
  check: "bf_producer s = Checking \<Longrightarrow>
    bf_step E cfg D hi s (s\<lparr>bf_producer := producer_check E cfg hi s\<rparr>)"
| hand: "bf_producer s = Sending r \<Longrightarrow> i < length (bf_workers s) \<Longrightarrow> bf_workers s ! i = Idle ch \<Longrightarrow>
    bf_step E cfg D hi s (take_job i ch r s)"
| pass: "i < length (bf_workers s) \<Longrightarrow> bf_workers s ! i = Busy ch r cur c \<Longrightarrow> cur \<le> rg_To r \<Longrightarrow>
    bf_step E cfg D hi s (worker_pass E D i ch r cur c s)"
| done_: "i < length (bf_workers s) \<Longrightarrow> bf_workers s ! i = Busy ch r cur c \<Longrightarrow> rg_To r < cur \<Longrightarrow>
    bf_step E cfg D hi s (s\<lparr>bf_workers := (bf_workers s)[i := Idle ch]\<rparr>)"
| leave: "i < length (bf_workers s) \<Longrightarrow> bf_workers s ! i = Idle ch \<Longrightarrow> bf_producer s = Closed \<Longrightarrow>
    bf_step E cfg D hi s (s\<lparr>bf_workers := (bf_workers s)[i := Exited]\<rparr>)"

inductive bf_reaches :: "'v Env \<Rightarrow> Config \<Rightarrow> 's Deps \<Rightarrow> u64 \<Rightarrow> 's Backfill \<Rightarrow> 's Backfill \<Rightarrow> bool"
  for E cfg D hi s where
  refl: "bf_reaches E cfg D hi s s"
| step: "bf_reaches E cfg D hi s s1 \<Longrightarrow> bf_step E cfg D hi s1 s2 \<Longrightarrow> bf_reaches E cfg D hi s s2"

text \<open>\<open>wg.Wait\<close> returns when every worker has left.\<close>

definition all_exited :: "'s Backfill \<Rightarrow> bool" where
  "all_exited s \<longleftrightarrow> list_all (\<lambda>w. w = Exited) (bf_workers s)"

text \<open>What \<open>Backfill\<close> returns: \<open>None\<close> is \<open>nil\<close>.\<close>

inductive Backfill_returns :: "'v Env \<Rightarrow> Config \<Rightarrow> 's Deps \<Rightarrow> u64 option \<Rightarrow> u64 option \<Rightarrow>
    's World \<Rightarrow> 's World \<Rightarrow> go_error option \<Rightarrow> bool"
  for E cfg D f t w where
  no_head: "backfill_range cfg D f t (wd_tick w) = Inl e \<Longrightarrow>
    Backfill_returns E cfg D f t w (w\<lparr>wd_tick := Suc (wd_tick w)\<rparr>) (Some e)"
| nothing: "backfill_range cfg D f t (wd_tick w) = Inr (start, hi) \<Longrightarrow> hi < start \<Longrightarrow>
    Backfill_returns E cfg D f t w (w\<lparr>wd_tick := Suc (wd_tick w)\<rparr>) None"
| waited: "backfill_range cfg D f t (wd_tick w) = Inr (start, hi) \<Longrightarrow> start \<le> hi \<Longrightarrow>
    bf_reaches E cfg D hi (backfill_start cfg start (w\<lparr>wd_tick := Suc (wd_tick w)\<rparr>)) s \<Longrightarrow>
    all_exited s \<Longrightarrow> Backfill_returns E cfg D f t w (bf_world s) (bf_err s)"

section \<open>Jobs\<close>

text \<open>The end of the range and the size of a job do not reach \<open>2 ^ 64\<close> together.\<close>

definition range_fits :: "Config \<Rightarrow> u64 \<Rightarrow> bool" where
  "range_fits cfg hi \<longleftrightarrow> unat hi + unat (ix_ChunkSize (cf_Indexer cfg)) < 2 ^ 64"

lemma next_job_bounds:
  assumes "range_fits cfg hi" and "config_ok cfg" and "cur \<le> hi"
  shows "rg_From (next_job cfg hi cur) = cur"
    and "cur \<le> rg_To (next_job cfg hi cur)" and "rg_To (next_job cfg hi cur) \<le> hi"
proof -
  let ?n = "ix_ChunkSize (cf_Indexer cfg)"
  have n: "1 \<le> unat ?n"
    using assms(2) by (auto simp: config_ok_def indexer_ok_def u64_arith)
  have s: "unat (cur + ?n) = unat cur + unat ?n"
    using assms(1,3) by (intro unat_plus_ok) (simp add: range_fits_def u64_arith)
  have "unat (cur + ?n - 1) = unat cur + unat ?n - 1"
    using n s by (subst unat_minus_ok) (simp_all add: u64_arith)
  with n assms(3) show "rg_From (next_job cfg hi cur) = cur"
    and "cur \<le> rg_To (next_job cfg hi cur)" and "rg_To (next_job cfg hi cur) \<le> hi"
    by (auto simp: next_job_def Let_def u64_arith)
qed

section \<open>The invariant\<close>

text \<open>The blocks a worker still has to index, and how often the checkpoints cover a block.\<close>

fun worker_has :: "worker \<Rightarrow> u64 \<Rightarrow> bool" where
  "worker_has (Busy ch r cur c) n = (cur \<le> n \<and> n \<le> rg_To r)"
| "worker_has _ n = False"

definition same_bounds :: "Chunker \<Rightarrow> Chunker \<Rightarrow> bool" where
  "same_bounds k ch \<longleftrightarrow> chunker_ok ch \<and> ch_min ch = ch_min k \<and> ch_max ch = ch_max k"

lemma same_bounds_OnError: "same_bounds k ch \<Longrightarrow> same_bounds k (OnError ch)"
  by (simp add: same_bounds_def OnError_ok OnError_bounds)

lemma same_bounds_OnSuccess: "same_bounds k ch \<Longrightarrow> growth_ok (ch_max k) \<Longrightarrow> same_bounds k (OnSuccess ch)"
  by (simp add: same_bounds_def OnSuccess_ok OnSuccess_bounds)

fun worker_ok :: "Chunker \<Rightarrow> u64 \<Rightarrow> u64 \<Rightarrow> worker \<Rightarrow> bool" where
  "worker_ok k start bd (Idle ch) = same_bounds k ch"
| "worker_ok k start bd (Busy ch r cur c) = (same_bounds k ch \<and> start \<le> cur
     \<and> unat cur \<le> unat (rg_To r) + 1 \<and> rg_To r \<noteq> maxU64 \<and> unat (rg_To r) < unat bd)"
| "worker_ok k start bd Exited = True"

definition pending :: "worker list \<Rightarrow> u64 \<Rightarrow> bool" where
  "pending ws n \<longleftrightarrow> (\<exists>i < length ws. worker_has (ws ! i) n)"

definition producer_ok :: "u64 \<Rightarrow> u64 \<Rightarrow> producer \<Rightarrow> bool" where
  "producer_ok hi cur p \<longleftrightarrow> (\<forall>r. p = Sending r \<longrightarrow> rg_From r = cur \<and> cur \<le> rg_To r \<and> rg_To r \<le> hi)"

definition saved_chunk where
  "saved_chunk E D L c \<longleftrightarrow> cp_StartBlock c \<le> cp_EndBlock c \<and> chunk_supported E D L c"

definition bf_inv where
  "bf_inv iv lv cv E D base k start hi s \<longleftrightarrow>
     iv (wd_store (bf_world s)) \<and> start \<le> bf_cur s \<and> unat (bf_cur s) \<le> unat hi + 1
     \<and> producer_ok hi (bf_cur s) (bf_producer s)
     \<and> (\<forall>i < length (bf_workers s). worker_ok k start (bf_cur s) (bf_workers s ! i))
     \<and> (\<forall>i j n. i < length (bf_workers s) \<longrightarrow> j < length (bf_workers s) \<longrightarrow>
          worker_has (bf_workers s ! i) n \<longrightarrow> worker_has (bf_workers s ! j) n \<longrightarrow> i = j)
     \<and> (\<exists>new. cv (wd_store (bf_world s)) = base @ new
          \<and> (\<forall>c \<in> set new. saved_chunk E D (lv (wd_store (bf_world s))) c)
          \<and> (\<forall>n. cover_count new n \<le> 1
               \<and> (pending (bf_workers s) n \<or> \<not> (start \<le> n \<and> n < bf_cur s) \<longrightarrow> cover_count new n = 0)
               \<and> (bf_err s = None \<and> start \<le> n \<and> n < bf_cur s \<and> \<not> pending (bf_workers s) n \<longrightarrow>
                    cover_count new n = 1)))"

lemma bf_start_inv:
  assumes "iv (wd_store w)" and "start \<le> hi"
  shows "bf_inv iv lv cv E D (cv (wd_store w)) (cfg_chunker cfg) start hi (backfill_start cfg start w)"
  using assms
  by (auto simp: bf_inv_def backfill_start_def producer_ok_def cfg_chunker_ok same_bounds_def
      pending_def u64_arith
      cover_count_def nth_append intro!: exI [of _ "[]"])

text \<open>Replacing one worker.\<close>

lemma pending_update:
  "i < length ws \<Longrightarrow> pending (ws[i := w]) n \<longleftrightarrow> worker_has w n \<or> (\<exists>j < length ws. j \<noteq> i \<and> worker_has (ws ! j) n)"
  by (auto simp: pending_def nth_list_update)

lemma pending_iff:
  "i < length ws \<Longrightarrow> pending ws n \<longleftrightarrow> worker_has (ws ! i) n \<or> (\<exists>j < length ws. j \<noteq> i \<and> worker_has (ws ! j) n)"
  by (auto simp: pending_def)

lemma worker_ok_mono: "worker_ok k start bd w \<Longrightarrow> bd \<le> bd' \<Longrightarrow> worker_ok k start bd' w"
  by (cases w) (auto simp: u64_arith)

lemma bf_invD:
  assumes "bf_inv iv lv cv E D base k start hi s"
  shows "iv (wd_store (bf_world s))" "start \<le> bf_cur s" "unat (bf_cur s) \<le> unat hi + 1"
    "producer_ok hi (bf_cur s) (bf_producer s)"
    "i < length (bf_workers s) \<Longrightarrow> worker_ok k start (bf_cur s) (bf_workers s ! i)"
    "i < length (bf_workers s) \<Longrightarrow> j < length (bf_workers s) \<Longrightarrow> worker_has (bf_workers s ! i) n \<Longrightarrow>
       worker_has (bf_workers s ! j) n \<Longrightarrow> i = j"
  using assms unfolding bf_inv_def by blast+

text \<open>
  Worker \<open>i\<close> moves: it keeps part of its blocks, and \<open>added\<close> are the checkpoints it adds, which
  cover each block at most once, only blocks it gives up, and all of them unless it failed.
\<close>

lemma bf_inv_move:
  assumes I: "bf_inv iv lv cv E D base k start hi s" and i: "i < length (bf_workers s)"
    and st: "iv (wd_store w')" "logs_grow lv (wd_store (bf_world s)) (wd_store w')"
      "cv (wd_store w') = cv (wd_store (bf_world s)) @ added"
      "\<And>c. c \<in> set added \<Longrightarrow> saved_chunk E D (lv (wd_store w')) c"
    and wk: "worker_ok k start (bf_cur s) wk" "\<And>n. worker_has wk n \<Longrightarrow> worker_has (bf_workers s ! i) n"
    and one: "\<And>n. cover_count added n \<le> 1"
      "\<And>n. cover_count added n \<noteq> 0 \<Longrightarrow> worker_has (bf_workers s ! i) n \<and> \<not> worker_has wk n"
    and err: "err = None \<Longrightarrow> bf_err s = None"
      "\<And>n. err = None \<Longrightarrow> worker_has (bf_workers s ! i) n \<Longrightarrow> \<not> worker_has wk n \<Longrightarrow> cover_count added n = 1"
  shows "bf_inv iv lv cv E D base k start hi
    (s\<lparr>bf_world := w', bf_workers := (bf_workers s)[i := wk], bf_err := err\<rparr>)"
proof -
  let ?ws = "(bf_workers s)[i := wk]" and ?rest = "\<lambda>n. \<exists>j < length (bf_workers s). j \<noteq> i \<and> worker_has (bf_workers s ! j) n"
  have pn: "pending ?ws n \<longleftrightarrow> worker_has wk n \<or> ?rest n"
    and po: "pending (bf_workers s) n \<longleftrightarrow> worker_has (bf_workers s ! i) n \<or> ?rest n" for n
    by (simp_all add: pending_update [OF i] pending_iff [OF i])
  have di: "worker_has (bf_workers s ! i) n \<Longrightarrow> \<not> ?rest n" for n
    using bf_invD(6) [OF I] i by blast
  have inside: "worker_has (bf_workers s ! i) n \<Longrightarrow> start \<le> n \<and> n < bf_cur s" for n
    using bf_invD(5) [OF I i] by (cases "bf_workers s ! i") (auto simp: u64_arith)
  have ok: "\<forall>j < length ?ws. worker_ok k start (bf_cur s) (?ws ! j)"
    using bf_invD(5) [OF I] wk(1) i by (simp add: nth_list_update)
  have dj: "\<forall>j k n. j < length ?ws \<longrightarrow> k < length ?ws \<longrightarrow> worker_has (?ws ! j) n \<longrightarrow>
      worker_has (?ws ! k) n \<longrightarrow> j = k"
    using bf_invD(6) [OF I] wk(2) i by (auto simp: nth_list_update split: if_splits)
  obtain new where new: "cv (wd_store (bf_world s)) = base @ new"
    "\<And>c. c \<in> set new \<Longrightarrow> saved_chunk E D (lv (wd_store (bf_world s))) c"
    "\<And>n. cover_count new n \<le> 1"
    "\<And>n. pending (bf_workers s) n \<or> \<not> (start \<le> n \<and> n < bf_cur s) \<Longrightarrow> cover_count new n = 0"
    "\<And>n. bf_err s = None \<and> start \<le> n \<and> n < bf_cur s \<and> \<not> pending (bf_workers s) n \<Longrightarrow> cover_count new n = 1"
    using I unfolding bf_inv_def by blast
  have sup: "\<forall>c \<in> set (new @ added). saved_chunk E D (lv (wd_store w')) c"
    using new(2) st(2,4) chunk_supported_mono unfolding logs_grow_def saved_chunk_def by (metis Un_iff set_append)
  have le1: "cover_count (new @ added) n \<le> 1" for n
    using one [of n] new(3,4) [of n] po [of n] by (cases "cover_count added n = 0") auto
  have z: "cover_count (new @ added) n = 0" if "pending ?ws n \<or> \<not> (start \<le> n \<and> n < bf_cur s)" for n
    using that one(2) [of n] new(4) [of n] pn [of n] po [of n] wk(2) [of n] di [of n] inside [of n]
    by (cases "cover_count added n = 0") auto
  have o: "cover_count (new @ added) n = 1"
    if "err = None \<and> start \<le> n \<and> n < bf_cur s \<and> \<not> pending ?ws n" for n
  proof (cases "worker_has (bf_workers s ! i) n")
    case True
    with that pn [of n] err(2) [of n] new(4) [of n] po [of n] show ?thesis by simp
  next
    case False
    with one(2) [of n] have "cover_count added n = 0" by blast
    with False that pn [of n] po [of n] err(1) new(5) [of n] show ?thesis by simp
  qed
  show ?thesis
    unfolding bf_inv_def
    using bf_invD(1-4) [OF I] st(1,3) ok dj new(1) sup le1 z o
    by (auto intro!: exI [of _ "new @ added"])
qed

text \<open>A worker without blocks changes into another one without blocks.\<close>

lemma bf_inv_idle:
  assumes I: "bf_inv iv lv cv E D base k start hi s" and i: "i < length (bf_workers s)"
    and e: "\<And>n. \<not> worker_has (bf_workers s ! i) n" "\<And>n. \<not> worker_has w n"
    and w: "worker_ok k start (bf_cur s) w"
  shows "bf_inv iv lv cv E D base k start hi (s\<lparr>bf_workers := (bf_workers s)[i := w]\<rparr>)"
  using bf_inv_move [OF I i, of "bf_world s" "[]" w "bf_err s"] bf_invD(1) [OF I] w e
  by (simp add: logs_grow_def cover_count_def)

lemma bf_inv_hand:
  assumes I: "bf_inv iv lv cv E D base k start hi s" and hi: "hi \<noteq> maxU64"
    and p: "bf_producer s = Sending r" and i: "i < length (bf_workers s)"
    and w: "bf_workers s ! i = Idle ch"
  shows "bf_inv iv lv cv E D base k start hi (take_job i ch r s)"
proof -
  let ?w = "Busy ch r (rg_From r) NewBlockCache" and ?cur = "rg_To r + 1"
  let ?ws = "(bf_workers s)[i := Busy ch r (rg_From r) NewBlockCache]"
  from bf_invD(4) [OF I] p have r: "rg_From r = bf_cur s" "bf_cur s \<le> rg_To r" "rg_To r \<le> hi"
    by (auto simp: producer_ok_def)
  have rm: "rg_To r \<noteq> maxU64" using r(3) hi unat_u64_le [of hi] by (auto simp: u64_arith)
  then have uc: "unat ?cur = unat (rg_To r) + 1" by (rule unat_plus_one)
  with r(2) have le: "bf_cur s \<le> ?cur" by (simp add: u64_arith)
  from bf_invD(5) [OF I i] w have ch: "same_bounds k ch" by simp
  have ok: "\<forall>j < length ?ws. worker_ok k start ?cur (?ws ! j)"
  proof (intro allI impI)
    fix j assume j: "j < length ?ws"
    show "worker_ok k start ?cur (?ws ! j)"
    proof (cases "j = i")
      case True
      with i ch r rm uc bf_invD(2) [OF I] show ?thesis by (simp add: u64_arith)
    next
      case False
      with j bf_invD(5) [OF I, of j] le show ?thesis by (simp add: worker_ok_mono)
    qed
  qed
  have out: "\<not> worker_has (bf_workers s ! j) n" if "j < length (bf_workers s)" "bf_cur s \<le> n" for j n
    using bf_invD(5) [OF I that(1)] that(2)
    by (cases "bf_workers s ! j") (auto simp: u64_arith)
  have pd: "pending ?ws n \<longleftrightarrow> pending (bf_workers s) n \<or> bf_cur s \<le> n \<and> n < ?cur" for n
    using i w r(1) uc by (auto simp: pending_update pending_iff u64_arith)
  have dj: "\<forall>j k n. j < length ?ws \<longrightarrow> k < length ?ws \<longrightarrow> worker_has (?ws ! j) n \<longrightarrow>
      worker_has (?ws ! k) n \<longrightarrow> j = k"
    using bf_invD(6) [OF I] out i w r(1) by (auto simp: nth_list_update split: if_splits)
  obtain new where new: "cv (wd_store (bf_world s)) = base @ new"
    "\<forall>c \<in> set new. saved_chunk E D (lv (wd_store (bf_world s))) c"
    "\<And>n. cover_count new n \<le> 1"
    "\<And>n. pending (bf_workers s) n \<or> \<not> (start \<le> n \<and> n < bf_cur s) \<Longrightarrow> cover_count new n = 0"
    "\<And>n. bf_err s = None \<and> start \<le> n \<and> n < bf_cur s \<and> \<not> pending (bf_workers s) n \<Longrightarrow> cover_count new n = 1"
    using I unfolding bf_inv_def by blast
  have z: "cover_count new n = 0" if "pending ?ws n \<or> \<not> (start \<le> n \<and> n < ?cur)" for n
  proof (rule new(4))
    from that le show "pending (bf_workers s) n \<or> \<not> (start \<le> n \<and> n < bf_cur s)"
      by (auto simp: pd u64_arith)
  qed
  have o: "cover_count new n = 1"
    if "bf_err s = None \<and> start \<le> n \<and> n < ?cur \<and> \<not> pending ?ws n" for n
    using that new(5) [of n] by (auto simp: pd)
  show ?thesis
    unfolding bf_inv_def take_job_def
    using bf_invD(1,2) [OF I] r uc le ok dj new(1-3) z o
    by (auto simp: producer_ok_def u64_le_iff intro!: exI [of _ new])
qed

context log_store
begin

text \<open>A pass that stores the first chunk of what the worker still has to do.\<close>

lemma bf_inv_stored:
  assumes I: "bf_inv inv logv cpv E D base k start hi s"
    and gr: "growth_ok (ch_max k)" and i: "i < length (bf_workers s)"
    and w: "bf_workers s ! i = Busy ch r cur c" and le: "cur \<le> rg_To r"
    and ps: "pass_stored logv cpv E D (rg_To r) (worker_state ch cur c (bf_world s)) st"
    and iv: "inv (wd_store (rs_world st))" and lg: "logs_grow logv (wd_store (bf_world s)) (wd_store (rs_world st))"
  shows "bf_inv inv logv cpv E D base k start hi (s\<lparr>bf_world := rs_world st,
      bf_workers := (bf_workers s)[i := Busy (rs_chunker st) r (rs_current st) (rs_cache st)], bf_err := bf_err s\<rparr>)"
proof -
  let ?st = "worker_state ch cur c (bf_world s)" and ?w = "Busy (rs_chunker st) r (rs_current st) (rs_cache st)"
  from bf_invD(5) [OF I i] w have ch: "same_bounds k ch" and tm: "rg_To r \<noteq> maxU64"
    and lo: "start \<le> cur" and to: "unat (rg_To r) < unat (bf_cur s)" by simp_all
  have cb: "1 \<le> unat (chunk_size (rg_To r) ?st)"
    "unat cur + unat (chunk_size (rg_To r) ?st) \<le> unat (rg_To r) + 1"
    "unat (chunk_end (rg_To r) ?st) = unat cur + unat (chunk_size (rg_To r) ?st) - 1"
    "unat (chunk_end (rg_To r) ?st + 1) = unat cur + unat (chunk_size (rg_To r) ?st)"
    using chunk_bounds [of ?st "rg_To r"] ch le tm by (simp_all add: worker_state_def same_bounds_def)
  from ps obtain c1 where c1: "cpv (wd_store (rs_world st)) = cpv (wd_store (bf_world s)) @ [c1]"
    "cp_StartBlock c1 = cur" "cp_EndBlock c1 = chunk_end (rg_To r) ?st"
    "chunk_supported E D (logv (wd_store (rs_world st))) c1"
    and nx: "rs_current st = chunk_end (rg_To r) ?st + 1" "rs_chunker st = OnSuccess ch"
    unfolding pass_stored_def by (auto simp: worker_state_def)
  show ?thesis
  proof (rule bf_inv_move [OF I i, where added = "[c1]"])
    show "worker_ok k start (bf_cur s) ?w"
      using same_bounds_OnSuccess [OF ch gr] lo cb tm to by (simp add: nx u64_le_iff)
    fix n
    show "worker_has ?w n \<Longrightarrow> worker_has (bf_workers s ! i) n"
      using cb by (simp add: w nx u64_arith)
    show "cover_count [c1] n \<noteq> 0 \<Longrightarrow> worker_has (bf_workers s ! i) n \<and> \<not> worker_has ?w n"
      using cb c1(2,3) by (auto simp: cover_count_one covers_def w nx u64_arith split: if_splits)
    show "worker_has (bf_workers s ! i) n \<Longrightarrow> \<not> worker_has ?w n \<Longrightarrow> cover_count [c1] n = 1"
      using cb c1(2,3) by (auto simp: cover_count_one covers_def w nx u64_arith)
  qed (use c1 cb iv lg in \<open>auto simp: cover_count_one saved_chunk_def u64_le_iff\<close>)
qed

lemma bf_inv_pass:
  assumes I: "bf_inv inv logv cpv E D base k start hi s" and S: "dp_Store D = S"
    and gr: "growth_ok (ch_max k)" and i: "i < length (bf_workers s)"
    and w: "bf_workers s ! i = Busy ch r cur c" and le: "cur \<le> rg_To r"
  shows "bf_inv inv logv cpv E D base k start hi (worker_pass E D i ch r cur c s)"
proof -
  let ?st = "worker_state ch cur c (bf_world s)"
  obtain st fl where it: "range_iter E D (rg_To r) ?st = (st, fl)" by (metis surj_pair)
  have iv: "inv (wd_store (rs_world ?st))" using bf_invD(1) [OF I] by (simp add: worker_state_def)
  note out = range_iter_outcomes [OF it S iv]
  have ws: "rs_world ?st = bf_world s" "rs_current ?st = cur" "rs_chunker ?st = ch"
    by (simp_all add: worker_state_def)
  from out(3) consider
      (failed) e where "fl = Fail e" "cpv (wd_store (rs_world st)) = cpv (wd_store (bf_world s))"
    | (refused) "fl = Next" "wd_store (rs_world st) = wd_store (bf_world s)" "rs_current st = cur"
        "rs_chunker st = OnError ch"
    | (stored) "fl = Next" "pass_stored logv cpv E D (rg_To r) ?st st"
    unfolding ws by blast
  then show ?thesis
  proof cases
    case failed
    have "bf_inv inv logv cpv E D base k start hi (s\<lparr>bf_world := rs_world st,
        bf_workers := (bf_workers s)[i := Exited],
        bf_err := (case bf_err s of None \<Rightarrow> Some e | Some e' \<Rightarrow> Some e')\<rparr>)"
      using out(1,2) failed(2) ws
      by (intro bf_inv_move [OF I i, where added = "[]"])
        (auto simp: cover_count_def split: option.splits)
    with it failed show ?thesis by (simp add: worker_pass_def)
  next
    case refused
    have "bf_inv inv logv cpv E D base k start hi (s\<lparr>bf_world := rs_world st,
        bf_workers := (bf_workers s)[i := Busy (OnError ch) r cur (rs_cache st)], bf_err := bf_err s\<rparr>)"
      using out(1) refused(2) w bf_invD(5) [OF I i] le
      by (intro bf_inv_move [OF I i, where added = "[]"])
        (auto simp: cover_count_def logs_grow_def same_bounds_OnError u64_le_iff)
    with it refused show ?thesis by (simp add: worker_pass_def)
  next
    case stored
    from bf_inv_stored [OF I gr i w le stored(2) out(1)] out(2) it stored(1) show ?thesis
      by (simp add: worker_pass_def ws)
  qed
qed

lemma bf_inv_step:
  assumes st: "bf_step E cfg D hi s s'" and I: "bf_inv inv logv cpv E D base k start hi s"
    and S: "dp_Store D = S" and gr: "growth_ok (ch_max k)"
    and fit: "range_fits cfg hi" and cfg: "config_ok cfg" and hm: "hi \<noteq> maxU64"
  shows "bf_inv inv logv cpv E D base k start hi s'"
  using st
proof cases
  case check
  have "producer_ok hi (bf_cur s) (producer_check E cfg hi s)"
    using next_job_bounds [OF fit cfg] by (auto simp: producer_ok_def producer_check_def)
  with I check show ?thesis unfolding bf_inv_def by simp
next
  case (hand r i ch)
  with bf_inv_hand [OF I hm] show ?thesis by simp
next
  case (pass i ch r cur c)
  with bf_inv_pass [OF I S gr] show ?thesis by simp
next
  case (done_ i ch r cur c)
  with bf_invD(5) [OF I done_(2)] show ?thesis
    by (simp only:, intro bf_inv_idle [OF I]) auto
next
  case (leave i ch)
  then show ?thesis by (simp only:, intro bf_inv_idle [OF I]) auto
qed

lemma bf_inv_reaches:
  assumes "bf_reaches E cfg D hi s s'" and "bf_inv inv logv cpv E D base k start hi s"
    and "dp_Store D = S" and "growth_ok (ch_max k)"
    and "range_fits cfg hi" and "config_ok cfg" and "hi \<noteq> maxU64"
  shows "bf_inv inv logv cpv E D base k start hi s'"
  using assms(1,2) by (induction rule: bf_reaches.induct) (auto intro: bf_inv_step [OF _ _ assms(3-7)])

end

section \<open>When every worker has left\<close>

text \<open>
  If the context given to \<open>Backfill\<close> is not cancelled, the producer stops only at the end of
  the range or after an error, and a worker leaves only after one of these.
\<close>

definition bf_ctrl :: "u64 \<Rightarrow> 's Backfill \<Rightarrow> bool" where
  "bf_ctrl hi s \<longleftrightarrow> bf_workers s \<noteq> []
     \<and> (bf_producer s = Closed \<longrightarrow> hi < bf_cur s \<or> bf_err s \<noteq> None)
     \<and> (Exited \<in> set (bf_workers s) \<longrightarrow> bf_producer s = Closed \<or> bf_err s \<noteq> None)"

lemma set_update_other: "Exited \<in> set (ws[i := w]) \<Longrightarrow> w = Exited \<or> Exited \<in> set ws"
  using set_update_subset_insert [of ws i w] by auto

lemma bf_ctrl_step:
  assumes "bf_step E cfg D hi s s'" and "bf_ctrl hi s" and "\<And>t. \<not> en_cancelled E t"
  shows "bf_ctrl hi s'"
  using assms(1)
proof cases
  case check
  with assms(2,3) show ?thesis by (auto simp: bf_ctrl_def producer_check_def)
next
  case (hand r i ch)
  with assms(2) show ?thesis by (auto simp: bf_ctrl_def take_job_def dest: set_update_other)
next
  case (pass i ch r cur c)
  obtain st fl where it: "range_iter E D (rg_To r) (worker_state ch cur c (bf_world s)) = (st, fl)"
    by (metis surj_pair)
  with assms(2) pass show ?thesis
    by (cases fl) (auto simp: bf_ctrl_def worker_pass_def dest: set_update_other split: option.splits)
next
  case (done_ i ch r cur c)
  with assms(2) show ?thesis by (auto simp: bf_ctrl_def dest: set_update_other)
next
  case (leave i ch)
  with assms(2) show ?thesis by (auto simp: bf_ctrl_def)
qed

lemma bf_ctrl_reaches:
  assumes "bf_reaches E cfg D hi s s'" and "bf_ctrl hi s" and "\<And>t. \<not> en_cancelled E t"
  shows "bf_ctrl hi s'"
  using assms(1,2) by (induction rule: bf_reaches.induct) (blast intro: bf_ctrl_step [OF _ _ assms(3)])+

lemma bf_ctrl_start: "config_ok cfg \<Longrightarrow> bf_ctrl hi (backfill_start cfg start w)"
  by (auto simp: bf_ctrl_def backfill_start_def config_ok_def indexer_ok_def)

lemma exited_not_pending: "all_exited s \<Longrightarrow> \<not> pending (bf_workers s) n"
  by (auto simp: all_exited_def pending_def list_all_length)

section \<open>Progress and termination\<close>

lemma bf_can_step:
  assumes "\<not> all_exited s"
  shows "\<exists>s'. bf_step E cfg D hi s s'"
proof -
  from assms obtain i where i: "i < length (bf_workers s)" "bf_workers s ! i \<noteq> Exited"
    by (auto simp: all_exited_def list_all_length)
  show ?thesis
  proof (cases "bf_workers s ! i")
    case (Idle ch)
    with i show ?thesis
      by (cases "bf_producer s") (blast intro: bf_step.check bf_step.hand bf_step.leave)+
  next
    case (Busy ch r cur c)
    with i show ?thesis
      by (cases "cur \<le> rg_To r") (auto simp: not_le intro: bf_step.pass bf_step.done_)
  next
    case Exited
    with i show ?thesis by simp
  qed
qed

fun worker_blocks :: "worker \<Rightarrow> nat" where
  "worker_blocks (Busy ch r cur c) = unat (rg_To r) + 1 - unat cur"
| "worker_blocks _ = 0"

fun worker_size :: "worker \<Rightarrow> nat" where
  "worker_size (Idle ch) = unat (ch_current ch)"
| "worker_size (Busy ch r cur c) = unat (ch_current ch)"
| "worker_size Exited = 0"

fun worker_rank :: "worker \<Rightarrow> nat" where
  "worker_rank (Busy ch r cur c) = 2"
| "worker_rank (Idle ch) = 1"
| "worker_rank Exited = 0"

fun producer_rank :: "producer \<Rightarrow> nat" where
  "producer_rank Checking = 2"
| "producer_rank (Sending r) = 1"
| "producer_rank Closed = 0"

definition total :: "(worker \<Rightarrow> nat) \<Rightarrow> 's Backfill \<Rightarrow> nat" where
  "total f s = sum_list (map f (bf_workers s))"

text \<open>Blocks left, chunk sizes, blocks not handed out, position of the producer, idle workers.\<close>

definition bf_measures :: "u64 \<Rightarrow> ('s Backfill \<Rightarrow> nat) list" where
  "bf_measures hi =
     [\<lambda>s. unat hi + 1 - unat (bf_cur s) + total worker_blocks s, total worker_size,
      \<lambda>s. unat hi + 1 - unat (bf_cur s), \<lambda>s. producer_rank (bf_producer s), total worker_rank]"

lemma total_update:
  "i < length (bf_workers s) \<Longrightarrow> bf_workers s' = (bf_workers s)[i := w] \<Longrightarrow>
   total f s' + f (bf_workers s ! i) = total f s + f w"
proof -
  assume i: "i < length (bf_workers s)" and u: "bf_workers s' = (bf_workers s)[i := w]"
  have "map f (bf_workers s) ! i \<le> sum_list (map f (bf_workers s))"
    using i by (intro elem_le_sum_list) simp
  with i u show ?thesis
    by (simp add: total_def map_update sum_list_update)
qed

lemma pass_decreases:
  assumes I: "bf_inv iv lv cv E D base k start hi s" and i: "i < length (bf_workers s)"
    and w: "bf_workers s ! i = Busy ch r cur c" and le: "cur \<le> rg_To r"
    and small: "answers_small E D (ch_min k)"
  shows "total worker_blocks (worker_pass E D i ch r cur c s) < total worker_blocks s
    \<or> total worker_blocks (worker_pass E D i ch r cur c s) = total worker_blocks s
      \<and> total worker_size (worker_pass E D i ch r cur c s) < total worker_size s"
proof -
  let ?st = "worker_state ch cur c (bf_world s)" and ?s' = "worker_pass E D i ch r cur c s"
  from bf_invD(5) [OF I i] w have ch: "chunker_ok ch" "ch_min ch = ch_min k" and tm: "rg_To r \<noteq> maxU64"
    by (auto simp: same_bounds_def)
  obtain st fl where it: "range_iter E D (rg_To r) ?st = (st, fl)" by (metis surj_pair)
  have ws: "rs_current ?st = cur" "rs_chunker ?st = ch" by (simp_all add: worker_state_def)
  note cb = chunk_bounds [of ?st "rg_To r", unfolded ws, OF ch(1) le tm]
  show ?thesis
  proof (cases fl)
    case (Fail e)
    with it have "bf_workers ?s' = (bf_workers s)[i := Exited]" by (simp add: worker_pass_def)
    from total_update [OF i this, of worker_blocks] w le
    have "total worker_blocks ?s' < total worker_blocks s" by (simp add: u64_le_iff)
    then show ?thesis ..
  next
    case Next
    with it have u: "bf_workers ?s' = (bf_workers s)[i := Busy (rs_chunker st) r (rs_current st) (rs_cache st)]"
      by (simp add: worker_pass_def)
    note tb = total_update [OF i this, of worker_blocks] and ts = total_update [OF i this, of worker_size]
    from it Next have "range_iter E D (rg_To r) ?st = (st, Next)" by simp
    then show ?thesis
    proof (cases rule: range_iter_Next)
      case refused
      have "ch_min ch < ch_current ch"
      proof (rule ccontr)
        assume "\<not> ?thesis"
        with cb(1,2,4) ch(2) have "unat (chunk_end (rg_To r) ?st) - unat cur < unat (ch_min k)"
          by (auto simp: Current_def u64_arith)
        with small refused(1) show False
          unfolding answers_small_def chunk_filter_def ws by blast
      qed
      with OnError_decreases [OF ch(1)] tb ts w refused(2,3) show ?thesis by (simp add: ws)
    next
      case stored
      then have "unat (rs_current st) = unat cur + unat (chunk_size (rg_To r) ?st)" using cb by (simp add: ws)
      moreover have "total worker_blocks ?s' + (unat (rg_To r) + 1 - unat cur)
          = total worker_blocks s + (unat (rg_To r) + 1 - unat (rs_current st))"
        using tb by (simp add: w)
      ultimately have "total worker_blocks ?s' < total worker_blocks s" using cb(1,3) by linarith
      then show ?thesis ..
    qed
  qed
qed

lemma bf_step_decreases:
  assumes st: "bf_step E cfg D hi s s'" and I: "bf_inv iv lv cv E D base k start hi s"
    and small: "answers_small E D (ch_min k)" and hm: "hi \<noteq> maxU64"
  shows "(s', s) \<in> measures (bf_measures hi)"
  using st
proof cases
  case check
  then have "producer_rank (bf_producer s') < producer_rank (bf_producer s)"
    by (simp add: producer_check_def)
  with check show ?thesis by (simp add: bf_measures_def total_def)
next
  case (hand r i ch)
  from bf_invD(3,4) [OF I] hand have r: "rg_From r = bf_cur s" "bf_cur s \<le> rg_To r" "rg_To r \<le> hi"
    by (auto simp: producer_ok_def)
  have "rg_To r \<noteq> maxU64" using r(3) hm unat_u64_le [of hi] by (auto simp: u64_arith)
  then have c: "unat (bf_cur s') = unat (rg_To r) + 1" using hand by (simp add: take_job_def unat_plus_one)
  have u: "bf_workers s' = (bf_workers s)[i := Busy ch r (rg_From r) NewBlockCache]"
    using hand by (simp add: take_job_def)
  from total_update [OF hand(3) u, of worker_blocks] total_update [OF hand(3) u, of worker_size] hand(4) c r
  show ?thesis by (auto simp: bf_measures_def u64_le_iff)
next
  case (pass i ch r cur c)
  have same: "bf_cur s' = bf_cur s" "bf_producer s' = bf_producer s"
    using pass(1) by (simp_all add: worker_pass_def split: prod.splits flow.splits)
  from pass_decreases [OF I pass(2-4) small] pass(1) same show ?thesis by (auto simp: bf_measures_def)
next
  case (done_ i ch r cur c)
  have u: "bf_workers s' = (bf_workers s)[i := Idle ch]" using done_ by simp
  from total_update [OF done_(2) u, of worker_blocks] total_update [OF done_(2) u, of worker_size]
    total_update [OF done_(2) u, of worker_rank] done_ show ?thesis
    by (auto simp: bf_measures_def u64_less_iff)
next
  case (leave i ch)
  have u: "bf_workers s' = (bf_workers s)[i := Exited]" using leave by simp
  from total_update [OF leave(2) u, of worker_blocks] total_update [OF leave(2) u, of worker_size]
    total_update [OF leave(2) u, of worker_rank] leave show ?thesis
    by (auto simp: bf_measures_def)
qed

section \<open>The properties, for both databases\<close>

lemma bf_reaches_db:
  assumes "bf_reaches E cfg D hi (backfill_start cfg start w) s"
    and "a_store (dp_Store D)" and "db_inv (wd_store w)" and "config_ok cfg"
    and "growth_ok (ix_MaxChunkSize (cf_Indexer cfg))" and "range_fits cfg hi" and "start \<le> hi"
  shows "bf_inv db_inv db_logs db_cps E D (db_cps (wd_store w)) (cfg_chunker cfg) start hi s"
    and "hi \<noteq> maxU64"
proof -
  have gr: "growth_ok (ch_max (cfg_chunker cfg))"
    using assms(5) cfg_chunker_validated [OF assms(4)] by simp
  show hm: "hi \<noteq> maxU64"
    using assms(4,6) by (auto simp: config_ok_def indexer_ok_def range_fits_def u64_arith)
  have st: "bf_inv db_inv db_logs db_cps E D (db_cps (wd_store w)) (cfg_chunker cfg) start hi
      (backfill_start cfg start w)"
    using assms(3,7) by (rule bf_start_inv)
  show "bf_inv db_inv db_logs db_cps E D (db_cps (wd_store w)) (cfg_chunker cfg) start hi s"
    using assms(2) sqlite.bf_inv_reaches [OF assms(1) st _ gr assms(6,4) hm]
      pg.bf_inv_reaches [OF assms(1) st _ gr assms(6,4) hm] by (auto simp: a_store_def)
qed

lemma Backfill_covered:
  assumes "a_store (dp_Store D)" and "db_inv (wd_store w)" and "config_ok cfg"
    and "growth_ok (ix_MaxChunkSize (cf_Indexer cfg))"
    and "backfill_range cfg D f t (wd_tick w) = Inr (start, hi)" and "start \<le> hi" and "range_fits cfg hi"
    and "Backfill_returns E cfg D f t w w' r"
  shows "db_inv (wd_store w')" and "\<exists>new. db_cps (wd_store w') = db_cps (wd_store w) @ new
    \<and> (\<forall>c \<in> set new. saved_chunk E D (db_logs (wd_store w')) c)
    \<and> (\<forall>n. cover_count new n \<le> (if start \<le> n \<and> n \<le> hi then 1 else 0))
    \<and> (r = None \<and> (\<forall>t. \<not> en_cancelled E t) \<longrightarrow>
         (\<forall>n. cover_count new n = (if start \<le> n \<and> n \<le> hi then 1 else 0)))"
proof -
  let ?w = "w\<lparr>wd_tick := Suc (wd_tick w)\<rparr>"
  from assms(8,5,6) obtain s where re: "bf_reaches E cfg D hi (backfill_start cfg start ?w) s"
    and ex: "all_exited s" and w': "w' = bf_world s" and r: "r = bf_err s"
    by cases auto
  have iv: "db_inv (wd_store ?w)" using assms(2) by simp
  note R = bf_reaches_db [OF re assms(1) iv assms(3,4,7,6)]
  then obtain new where new: "db_cps (wd_store w') = db_cps (wd_store w) @ new"
    "\<forall>c \<in> set new. saved_chunk E D (db_logs (wd_store w')) c"
    "\<And>n. cover_count new n \<le> 1"
    "\<And>n. \<not> (start \<le> n \<and> n < bf_cur s) \<Longrightarrow> cover_count new n = 0"
    "\<And>n. bf_err s = None \<Longrightarrow> start \<le> n \<Longrightarrow> n < bf_cur s \<Longrightarrow> cover_count new n = 1"
    using exited_not_pending [OF ex] unfolding bf_inv_def w' by auto
  have top: "n < bf_cur s \<Longrightarrow> n \<le> hi" for n
    using bf_invD(3) [OF R(1)] by (simp add: u64_arith)
  have "bf_err s = None \<Longrightarrow> \<forall>t. \<not> en_cancelled E t \<Longrightarrow> hi < bf_cur s"
  proof -
    assume e: "bf_err s = None" and c: "\<forall>t. \<not> en_cancelled E t"
    have "bf_ctrl hi s" using bf_ctrl_reaches [OF re bf_ctrl_start [OF assms(3)]] c by blast
    with ex e show "hi < bf_cur s"
      by (cases "bf_workers s") (auto simp: bf_ctrl_def all_exited_def)
  qed
  with new(5) r have exact: "cover_count new n = (if start \<le> n \<and> n \<le> hi then 1 else 0)"
    if "r = None \<and> (\<forall>t. \<not> en_cancelled E t)" for n
    using that new(4) [of n] top [of n] by (cases "start \<le> n \<and> n \<le> hi") auto
  have "cover_count new n \<le> (if start \<le> n \<and> n \<le> hi then 1 else 0)" for n
    using new(3) [of n] new(4) [of n] top [of n] by (cases "start \<le> n \<and> n < bf_cur s") auto
  with new(1,2) exact show "\<exists>new. db_cps (wd_store w') = db_cps (wd_store w) @ new
    \<and> (\<forall>c \<in> set new. saved_chunk E D (db_logs (wd_store w')) c)
    \<and> (\<forall>n. cover_count new n \<le> (if start \<le> n \<and> n \<le> hi then 1 else 0))
    \<and> (r = None \<and> (\<forall>t. \<not> en_cancelled E t) \<longrightarrow>
         (\<forall>n. cover_count new n = (if start \<le> n \<and> n \<le> hi then 1 else 0)))" by blast
  show "db_inv (wd_store w')" using bf_invD(1) [OF R(1)] w' by simp
qed

text \<open>
  C7. Backfilling a range.  However the workers interleave, the checkpoints \<open>Backfill\<close> adds
  cover no block twice and no block outside the range, and each stands for an answer of the
  node whose logs are all stored.  When it returns without an error and its context was not
  cancelled, every block of the range is covered exactly once.
\<close>

theorem backfill_covers:
  assumes "a_store (dp_Store D)" and "db_inv (wd_store w)" and "config_ok cfg"
    and "growth_ok (ix_MaxChunkSize (cf_Indexer cfg))"
    and "backfill_range cfg D f t (wd_tick w) = Inr (start, hi)" and "start \<le> hi" and "range_fits cfg hi"
    and "Backfill_returns E cfg D f t w w' r"
  shows "\<exists>new. db_cps (wd_store w') = db_cps (wd_store w) @ new
    \<and> (\<forall>c \<in> set new. chunk_supported E D (db_logs (wd_store w')) c)
    \<and> (\<forall>n. cover_count new n \<le> (if start \<le> n \<and> n \<le> hi then 1 else 0))
    \<and> (r = None \<and> (\<forall>t. \<not> en_cancelled E t) \<longrightarrow>
         (\<forall>n. cover_count new n = (if start \<le> n \<and> n \<le> hi then 1 else 0)))"
  using Backfill_covered(2) [OF assms] unfolding saved_chunk_def by blast

text \<open>A complete backfill of the blocks from \<open>start\<close> to \<open>hi\<close> of an empty index tiles them.\<close>

lemma range_fits_below: "config_ok cfg \<Longrightarrow> range_fits cfg hi \<Longrightarrow> unat hi < 2 ^ 64 - 1"
  by (auto simp: config_ok_def indexer_ok_def range_fits_def u64_arith)

lemma Backfill_tiled:
  assumes "a_store (dp_Store D)" and "db_inv (wd_store w)" and "config_ok cfg"
    and "growth_ok (ix_MaxChunkSize (cf_Indexer cfg))"
    and "backfill_range cfg D f t (wd_tick w) = Inr (start, hi)" and "start \<le> hi" and "range_fits cfg hi"
    and "Backfill_returns E cfg D f t w w' None" and "\<And>t. \<not> en_cancelled E t" and "db_cps (wd_store w) = []"
  shows "tiled (unat start) (db_cps (wd_store w')) (unat hi + 1)"
    and "c \<in> set (db_cps (wd_store w')) \<Longrightarrow> cp_EndBlock c \<le> hi"
proof -
  from Backfill_covered(2) [OF assms(1-8)] assms(9,10)
  have sv: "\<forall>c \<in> set (db_cps (wd_store w')). saved_chunk E D (db_logs (wd_store w')) c"
    and n: "cover_count (db_cps (wd_store w')) n = (if start \<le> n \<and> n \<le> hi then 1 else 0)" for n
    by auto
  show tl: "tiled (unat start) (db_cps (wd_store w')) (unat hi + 1)"
  proof (rule covered_once_tiled)
    show "cover_count (db_cps (wd_store w')) n = (if unat start \<le> unat n \<and> unat n < unat hi + 1 then 1 else 0)" for n
      using n [of n] by (auto simp: u64_arith)
  qed (use sv assms(6) unat_u64_le [of hi] in \<open>auto simp: saved_chunk_def u64_arith\<close>)
  show "cp_EndBlock c \<le> hi" if "c \<in> set (db_cps (wd_store w'))"
    using n [of "cp_EndBlock c"] sv that by (auto simp: cover_count_0 covers_def saved_chunk_def split: if_splits)
qed

text \<open>
  C19. Backfilling ends.  With a node that does not refuse ranges of at most the minimum chunk
  size, no run of the producer and the workers goes on for ever, and none gets stuck: every run
  ends with all workers gone, which is when \<open>Backfill\<close> returns.
\<close>

theorem backfill_returns:
  assumes "a_store (dp_Store D)" and "db_inv (wd_store w)" and "config_ok cfg"
    and "growth_ok (ix_MaxChunkSize (cf_Indexer cfg))" and "start \<le> hi" and "range_fits cfg hi"
    and "answers_small E D (ix_MinChunkSize (cf_Indexer cfg))"
  shows "(\<nexists>run. run 0 = backfill_start cfg start w
      \<and> (\<forall>k. bf_step E cfg D hi (run k) (run (Suc k))))
    \<and> (\<forall>s. bf_reaches E cfg D hi (backfill_start cfg start w) s \<longrightarrow>
         all_exited s \<or> (\<exists>s'. bf_step E cfg D hi s s'))"
proof (intro conjI notI allI impI)
  have small: "answers_small E D (ch_min (cfg_chunker cfg))"
    using assms(7) cfg_chunker_validated [OF assms(3)] by simp
  assume "\<exists>run. run 0 = backfill_start cfg start w \<and> (\<forall>k. bf_step E cfg D hi (run k) (run (Suc k)))"
  then obtain run where r0: "run 0 = backfill_start cfg start w"
    and rs: "\<And>k. bf_step E cfg D hi (run k) (run (Suc k))" by blast
  have re: "bf_reaches E cfg D hi (backfill_start cfg start w) (run k)" for k
    by (induction k) (auto simp: r0 intro: bf_reaches.intros rs)
  have "(run (Suc k), run k) \<in> measures (bf_measures hi)" for k
    using bf_step_decreases [OF rs _ small] bf_reaches_db [OF re assms(1-4,6,5)] by blast
  then show False
    using wf_measures [of "bf_measures hi"] by (auto simp: wf_iff_no_infinite_down_chain)
next
  fix s
  show "all_exited s \<or> (\<exists>s'. bf_step E cfg D hi s s')" using bf_can_step by blast
qed

lemma all_leave:
  "bf_producer s = Closed \<Longrightarrow> bf_workers s = replicate k Exited @ replicate n (Idle ch) \<Longrightarrow>
   bf_reaches E cfg D hi s0 s \<Longrightarrow>
   bf_reaches E cfg D hi s0 (s\<lparr>bf_workers := replicate (k + n) Exited\<rparr>)"
proof (induction n arbitrary: s k)
  case 0
  have "s\<lparr>bf_workers := bf_workers s\<rparr> = s" by simp
  with 0 have "s\<lparr>bf_workers := replicate (k + 0) Exited\<rparr> = s" by (metis add_0_right append_Nil2 replicate_0)
  then show ?case by (simp only: 0(3))
next
  case (Suc n)
  let ?s = "s\<lparr>bf_workers := (bf_workers s)[k := Exited]\<rparr>"
  from Suc.prems have st: "bf_step E cfg D hi s ?s"
    by (intro bf_step.leave) (auto simp: nth_append)
  have "bf_workers ?s = replicate (Suc k) Exited @ replicate n (Idle ch)"
    using Suc.prems(2) by (simp add: list_update_append replicate_app_Cons_same)
  with Suc.IH [of ?s "Suc k"] Suc.prems st show ?case by (auto intro: bf_reaches.step)
qed

text \<open>
  A cancelled backfill reports success.  If the context is already cancelled when the
  producer first looks, \<open>Backfill\<close> returns \<open>nil\<close> and the index is as it was, although no block
  of the range has been indexed.
\<close>

theorem backfill_cancelled_nil:
  assumes "backfill_range cfg D f t (wd_tick w) = Inr (start, hi)" and "start \<le> hi"
    and "en_cancelled E (Suc (wd_tick w))"
  shows "Backfill_returns E cfg D f t w (w\<lparr>wd_tick := Suc (wd_tick w)\<rparr>) None"
proof -
  let ?s = "backfill_start cfg start (w\<lparr>wd_tick := Suc (wd_tick w)\<rparr>)"
  let ?c = "?s\<lparr>bf_producer := Closed\<rparr>" and ?n = "nat (ix_Concurrency (cf_Indexer cfg))"
  have "producer_check E cfg hi ?s = Closed"
    using assms(2,3) by (simp add: producer_check_def backfill_start_def)
  moreover have "bf_step E cfg D hi ?s (?s\<lparr>bf_producer := producer_check E cfg hi ?s\<rparr>)"
    by (rule bf_step.check) (simp add: backfill_start_def)
  ultimately have "bf_reaches E cfg D hi ?s ?c"
    by (metis bf_reaches.intros)
  from all_leave [OF _ _ this, of 0 ?n "cfg_chunker cfg"]
  have "bf_reaches E cfg D hi ?s (?c\<lparr>bf_workers := replicate ?n Exited\<rparr>)"
    by (simp add: backfill_start_def)
  from Backfill_returns.waited [OF assms(1,2) this] show ?thesis
    by (simp add: all_exited_def list_all_length backfill_start_def)
qed

section \<open>A run\<close>

text \<open>
  One worker of the sample configuration indexes block 6, in an empty database that has the
  schema \<open>q\<close>.
\<close>

definition demo_bf :: "string list \<Rightarrow> nat \<Rightarrow> db Backfill" where
  "demo_bf q k = (let s0 = backfill_start sample_validated 6 ((schema_world q)\<lparr>wd_tick := 1\<rparr>);
       s1 = s0\<lparr>bf_producer := producer_check demo_env sample_validated 6 s0\<rparr>;
       s2 = take_job 0 (cfg_chunker sample_validated) (next_job sample_validated 6 6) s1;
       s3 = worker_pass demo_env (demo_deps 2 6) 0 (cfg_chunker sample_validated)
              (next_job sample_validated 6 6) 6 NewBlockCache s2;
       s4 = s3\<lparr>bf_producer := Closed\<rparr>;
       s5 = s4\<lparr>bf_workers := [Idle (OnSuccess (cfg_chunker sample_validated))]\<rparr>;
       s6 = s5\<lparr>bf_workers := [Exited]\<rparr>
     in [s0, s1, s2, s3, s4, s5, s6] ! k)"

lemma demo_bf_pass:
  "worker_pass demo_env (demo_deps 2 6) 0 (cfg_chunker sample_validated)
     (next_job sample_validated 6 6) 6 NewBlockCache (demo_bf q 2) = demo_bf q 3"
  "\<exists>c. bf_workers (demo_bf q 3) = [Busy (OnSuccess (cfg_chunker sample_validated)) (next_job sample_validated 6 6) 7 c]"
  "bf_err (demo_bf q 3) = None" "bf_producer (demo_bf q 3) = Checking" "bf_cur (demo_bf q 3) = 7"
  by (simp_all add: demo_bf_def backfill_start_def producer_check_def take_job_def next_job_def sample_simps
    cfg_chunker_sample worker_pass_def worker_state_def schema_world_def demo_run)

lemma demo_bf_simps:
  "demo_bf q 0 = backfill_start sample_validated 6 ((schema_world q)\<lparr>wd_tick := 1\<rparr>)"
  "demo_bf q 1 = (demo_bf q 0)\<lparr>bf_producer := producer_check demo_env sample_validated 6 (demo_bf q 0)\<rparr>"
  "demo_bf q 2 = take_job 0 (cfg_chunker sample_validated) (next_job sample_validated 6 6) (demo_bf q 1)"
  "demo_bf q 4 = (demo_bf q 3)\<lparr>bf_producer := Closed\<rparr>"
  "demo_bf q 5 = (demo_bf q 4)\<lparr>bf_workers := [Idle (OnSuccess (cfg_chunker sample_validated))]\<rparr>"
  "demo_bf q 6 = (demo_bf q 5)\<lparr>bf_workers := [Exited]\<rparr>"
  by (simp_all add: demo_bf_def Let_def)

lemma demo_bf_start: "bf_producer (demo_bf q 0) = Checking" "bf_producer (demo_bf q 1) = Sending (next_job sample_validated 6 6)"
  "bf_workers (demo_bf q 1) = [Idle (cfg_chunker sample_validated)]"
  "bf_workers (demo_bf q 2) = [Busy (cfg_chunker sample_validated) (next_job sample_validated 6 6) 6 NewBlockCache]"
  "rg_To (next_job sample_validated 6 6) = 6"
  by (simp_all add: demo_bf_simps backfill_start_def producer_check_def take_job_def next_job_def
      sample_simps Let_def del: One_nat_def)

abbreviation "demo_step \<equiv> bf_step demo_env sample_validated (demo_deps 2 6) 6"

lemma demo_bf_steps:
  "demo_step (demo_bf q 0) (demo_bf q 1)" "demo_step (demo_bf q 1) (demo_bf q 2)" "demo_step (demo_bf q 2) (demo_bf q 3)"
  "demo_step (demo_bf q 3) (demo_bf q 4)" "demo_step (demo_bf q 4) (demo_bf q 5)" "demo_step (demo_bf q 5) (demo_bf q 6)"
proof -
  let ?ch = "cfg_chunker sample_validated" and ?r = "next_job sample_validated 6 6"
  obtain c where c: "bf_workers (demo_bf q 3) = [Busy (OnSuccess ?ch) ?r 7 c]" using demo_bf_pass(2) by blast
  show "demo_step (demo_bf q 0) (demo_bf q 1)"
    unfolding demo_bf_simps(2) by (rule bf_step.check) (rule demo_bf_start)
  show "demo_step (demo_bf q 1) (demo_bf q 2)"
    unfolding demo_bf_simps(3) by (rule bf_step.hand) (simp_all add: demo_bf_start del: One_nat_def)
  have "demo_step (demo_bf q 2) (worker_pass demo_env (demo_deps 2 6) 0 ?ch ?r 6 NewBlockCache (demo_bf q 2))"
    by (rule bf_step.pass) (simp_all add: demo_bf_start)
  then show "demo_step (demo_bf q 2) (demo_bf q 3)" by (simp only: demo_bf_pass(1))
  have "producer_check demo_env sample_validated 6 (demo_bf q 3) = Closed"
    by (simp add: producer_check_def demo_bf_pass)
  then show "demo_step (demo_bf q 3) (demo_bf q 4)"
    unfolding demo_bf_simps(4) using bf_step.check [OF demo_bf_pass(4)] by metis
  have "demo_step (demo_bf q 4) ((demo_bf q 4)\<lparr>bf_workers := (bf_workers (demo_bf q 4))[0 := Idle (OnSuccess ?ch)]\<rparr>)"
    by (rule bf_step.done_ [where cur = 7 and r = ?r and c = c])
      (simp_all add: demo_bf_simps(4) c demo_bf_start)
  then show "demo_step (demo_bf q 4) (demo_bf q 5)" by (simp add: demo_bf_simps(4,5) c)
  have "demo_step (demo_bf q 5) ((demo_bf q 5)\<lparr>bf_workers := (bf_workers (demo_bf q 5))[0 := Exited]\<rparr>)"
    by (rule bf_step.leave [where ch = "OnSuccess ?ch"]) (simp_all add: demo_bf_simps(4,5))
  then show "demo_step (demo_bf q 5) (demo_bf q 6)" by (simp add: demo_bf_simps(5,6))
qed

lemma demo_bf_range: "backfill_range sample_validated (demo_deps 2 6) None None (wd_tick (schema_world q)) = Inr (6, 6)"
  by (simp add: backfill_range_def sample_simps Let_def)

lemma demo_bf_reaches: "bf_reaches demo_env sample_validated (demo_deps 2 6) 6
    (backfill_start sample_validated 6 ((schema_world q)\<lparr>wd_tick := Suc (wd_tick (schema_world q))\<rparr>)) (demo_bf q 6)"
proof -
  have "bf_reaches demo_env sample_validated (demo_deps 2 6) 6 (demo_bf q 0) (demo_bf q 6)"
    by (rule bf_reaches.step [OF bf_reaches.step [OF bf_reaches.step [OF bf_reaches.step
          [OF bf_reaches.step [OF bf_reaches.step [OF bf_reaches.refl
          demo_bf_steps(1)] demo_bf_steps(2)] demo_bf_steps(3)] demo_bf_steps(4)]
          demo_bf_steps(5)] demo_bf_steps(6)])
  then show ?thesis by (simp add: demo_bf_simps(1) schema_world_def)
qed

lemma demo_backfill: "Backfill_returns demo_env sample_validated (demo_deps 2 6) None None (schema_world q)
    (bf_world (demo_bf q 6)) None"
  using Backfill_returns.waited [OF demo_bf_range [of q] _ demo_bf_reaches]
  by (simp add: demo_bf_simps(4-6) all_exited_def demo_bf_pass)

lemma demo_backfill_pre:
  "a_store (dp_Store (demo_deps 2 6))" "db_inv (wd_store demo_world)" "config_ok sample_validated"
  "growth_ok (ix_MaxChunkSize (cf_Indexer sample_validated))"
  using Validate_config_ok [OF sample_validates]
  by (simp_all add: a_store_def demo_world_def empty_db_def db_view_defs sample_simps growth_ok_def)

theorem backfill_covers_witness:
  "\<exists>new. db_cps (wd_store (bf_world (demo_bf [] 6))) = db_cps (wd_store demo_world) @ new
    \<and> (\<forall>n. cover_count new n = (if 6 \<le> n \<and> n \<le> 6 then 1 else 0))"
proof -
  have "schema_world [] = demo_world" by (simp add: schema_world_def demo_world_def empty_db_def)
  note run = demo_bf_range [of "[]", unfolded this] demo_backfill [of "[]", unfolded this]
  have "range_fits sample_validated 6" by (simp add: range_fits_def sample_simps)
  from backfill_covers [OF demo_backfill_pre run(1) _ this run(2)] show ?thesis by auto
qed

theorem backfill_returns_witness:
  "\<nexists>run. run 0 = backfill_start sample_validated 1 demo_world
      \<and> (\<forall>k. bf_step demo_env sample_validated (demo_deps 100 6) 6 (run k) (run (Suc k)))"
proof -
  have "a_store (dp_Store (demo_deps 100 6))" by (simp add: a_store_def)
  moreover have "answers_small demo_env (demo_deps 100 6) (ix_MinChunkSize (cf_Indexer sample_validated))"
    by (auto simp: answers_small_def sample_simps buildFilter_def Let_def)
  moreover have "range_fits sample_validated 6" by (simp add: range_fits_def sample_simps)
  ultimately show ?thesis
    using backfill_returns [of "demo_deps 100 6" demo_world sample_validated 1 6 demo_env] demo_backfill_pre(2-4)
    by auto
qed

theorem backfill_cancelled_nil_witness:
  "Backfill_returns (demo_env\<lparr>en_cancelled := \<lambda>t. True\<rparr>) sample_validated (demo_deps 2 6) None None
     demo_world (demo_world\<lparr>wd_tick := 1\<rparr>) None"
  using backfill_cancelled_nil [of sample_validated "demo_deps 2 6" None None demo_world 6 6
      "demo_env\<lparr>en_cancelled := \<lambda>t. True\<rparr>"]
  by (simp add: demo_world_def backfill_range_def sample_simps Let_def)

end
