(* ===== verification/Strconv.thy ===== *)
theory Strconv
  imports Rpc
begin

text \<open>
  The parts of Go's \<open>strconv\<close>, \<open>math/big\<close>, \<open>strings\<close> and \<open>encoding/json\<close> that the two commands
  call on text from outside: numbers of a command line or a query string, amounts in decimal,
  white space around an address, and strings written as JSON.
\<close>

section \<open>Digits\<close>

definition digit_val :: "char \<Rightarrow> nat option" where
  "digit_val c =
     (let n = (of_char c :: nat); l = (of_char (char_lower c) :: nat) in
      if 48 \<le> n \<and> n \<le> 57 then Some (n - 48)
      else if 97 \<le> l \<and> l \<le> 122 then Some (l - 97 + 10) else None)"

text \<open>The loop of \<open>ParseUint\<close>: \<open>us\<close> allows underscores; \<open>None\<close> is a syntax or a range error.\<close>

fun uint_loop :: "nat \<Rightarrow> bool \<Rightarrow> string \<Rightarrow> nat \<Rightarrow> nat option" where
  "uint_loop base us [] n = Some n"
| "uint_loop base us (c # s) n =
     (if c = CHR ''_'' \<and> us then uint_loop base us s n
      else case digit_val c of
        None \<Rightarrow> None
      | Some d \<Rightarrow> if d \<ge> base \<or> n * base + d \<ge> 2 ^ 64 then None
                  else uint_loop base us s (n * base + d))"

text \<open>\<open>underscoreOK\<close>: an underscore stands between digits, or between the prefix and a digit.\<close>

datatype saw = SawStart | SawDigit | SawUnderscore | SawOther

fun underscores :: "bool \<Rightarrow> saw \<Rightarrow> string \<Rightarrow> bool" where
  "underscores hex w [] = (w \<noteq> SawUnderscore)"
| "underscores hex w (c # s) =
     (if (case digit_val c of None \<Rightarrow> False | Some d \<Rightarrow> d < 10 \<or> (hex \<and> d < 16))
      then underscores hex SawDigit s
      else if c = CHR ''_'' then w = SawDigit \<and> underscores hex SawUnderscore s
      else w \<noteq> SawUnderscore \<and> underscores hex SawOther s)"

definition underscoreOK :: "string \<Rightarrow> bool" where
  "underscoreOK s =
     (let s = (case s of c # r \<Rightarrow> if c = CHR ''-'' \<or> c = CHR ''+'' then r else s | [] \<Rightarrow> s) in
      case s of
        z # p # r \<Rightarrow>
          (if z = CHR ''0'' \<and> char_lower p \<in> {CHR ''b'', CHR ''o'', CHR ''x''}
           then underscores (char_lower p = CHR ''x'') SawDigit r else underscores False SawStart s)
      | _ \<Rightarrow> underscores False SawStart s)"

text \<open>The base and the digits of a number whose prefix says its base.\<close>

definition base_prefix :: "string \<Rightarrow> nat \<times> string" where
  "base_prefix s =
     (case s of
        z # p # d # r \<Rightarrow>
          (if z \<noteq> CHR ''0'' then (10, s)
           else if char_lower p = CHR ''b'' then (2, d # r)
           else if char_lower p = CHR ''o'' then (8, d # r)
           else if char_lower p = CHR ''x'' then (16, d # r)
           else (8, p # d # r))
      | z # r \<Rightarrow> (if z = CHR ''0'' then (8, r) else (10, s))
      | [] \<Rightarrow> (10, s))"

text \<open>\<open>strconv.ParseUint(s, base, 64)\<close> for the bases 0 and 10.\<close>

definition ParseUint :: "nat \<Rightarrow> string \<Rightarrow> nat option" where
  "ParseUint base s =
     (if s = [] then None
      else let (b, ds) = (if base = 0 then base_prefix s else (base, s)) in
        case uint_loop b (base = 0) ds 0 of
          None \<Rightarrow> None
        | Some n \<Rightarrow> if base = 0 \<and> CHR ''_'' \<in> set ds \<and> \<not> underscoreOK s then None else Some n)"

definition sign_of :: "string \<Rightarrow> bool \<times> string" where
  "sign_of s = (case s of c # r \<Rightarrow>
       (if c = CHR ''+'' then (False, r) else if c = CHR ''-'' then (True, r) else (False, s))
     | [] \<Rightarrow> (False, s))"

definition ParseInt :: "nat \<Rightarrow> string \<Rightarrow> int option" where
  "ParseInt base s =
     (let (neg, r) = sign_of s in
      case ParseUint base r of
        None \<Rightarrow> None
      | Some n \<Rightarrow> if \<not> neg \<and> n \<ge> 2 ^ 63 then None
                  else if neg \<and> n > 2 ^ 63 then None
                  else Some (if neg then - int n else int n))"

definition Atoi :: "string \<Rightarrow> int option" where
  "Atoi s = ParseInt 10 s"

definition ParseBool :: "string \<Rightarrow> bool option" where
  "ParseBool s =
     (if s \<in> set [''1'', ''t'', ''T'', ''TRUE'', ''true'', ''True''] then Some True
      else if s \<in> set [''0'', ''f'', ''F'', ''FALSE'', ''false'', ''False''] then Some False
      else None)"

definition dec_digit :: "char \<Rightarrow> bool" where
  "dec_digit c \<longleftrightarrow> (case digit_val c of None \<Rightarrow> False | Some d \<Rightarrow> d < 10)"

text \<open>\<open>new(big.Int).SetString(s, 10)\<close>: no bound, an optional sign, digits only.\<close>

definition big_SetString :: "string \<Rightarrow> int option" where
  "big_SetString s =
     (let (neg, ds) = sign_of s in
      if ds = [] \<or> \<not> list_all dec_digit ds then None
      else Some (if neg then - int (read_nat ds) else int (read_nat ds)))"

section \<open>White space and JSON strings\<close>

text \<open>\<open>strings.TrimSpace\<close> (of the white space of ASCII).\<close>

definition is_space :: "char \<Rightarrow> bool" where
  "is_space c \<longleftrightarrow> (let n = (of_char c :: nat) in n = 32 \<or> (9 \<le> n \<and> n \<le> 13))"

definition TrimSpace :: "string \<Rightarrow> string" where
  "TrimSpace s = rev (dropWhile is_space (rev (dropWhile is_space s)))"

text \<open>
  \<open>json.Marshal\<close> of a string: quotes, backslashes, control characters and the characters of HTML
  are escaped (bytes from 128 on stand for UTF-8 text and are passed on).
\<close>

definition hex_digit :: "nat \<Rightarrow> char" where
  "hex_digit d = (if d < 10 then char_of (48 + d) else char_of (87 + d))"

definition json_char :: "char \<Rightarrow> string" where
  "json_char c =
     (let n = (of_char c :: nat) in
      if n = 34 \<or> n = 92 then [CHR 0x5C, c]
      else if n = 10 then [CHR 0x5C, CHR ''n'']
      else if n = 13 then [CHR 0x5C, CHR ''r'']
      else if n = 9 then [CHR 0x5C, CHR ''t'']
      else if n < 32 \<or> n = 60 \<or> n = 62 \<or> n = 38
      then [CHR 0x5C, CHR ''u'', CHR ''0'', CHR ''0'', hex_digit (n div 16), hex_digit (n mod 16)]
      else [c])"

definition marshal_string :: "string \<Rightarrow> string" where
  "marshal_string s = CHR 0x22 # concat (map json_char s) @ [CHR 0x22]"

section \<open>Reading back what was printed\<close>

lemma digit_val_digit: "48 \<le> (of_char c :: nat) \<Longrightarrow> (of_char c :: nat) \<le> 57 \<Longrightarrow>
    digit_val c = Some (char_digit c) \<and> char_digit c < 10 \<and> c \<noteq> CHR ''_'' \<and> c \<noteq> CHR ''+'' \<and> c \<noteq> CHR ''-''"
  by (auto simp: digit_val_def char_digit_def)

definition digits :: "string \<Rightarrow> bool" where
  "digits s \<longleftrightarrow> (\<forall>c \<in> set s. 48 \<le> (of_char c :: nat) \<and> (of_char c :: nat) \<le> 57)"

lemma digits_show_nat [simp]: "digits (show_nat n)"
  using show_nat_digits by (auto simp: digits_def)

lemma foldl_digits_mono: "n \<le> foldl (\<lambda>n c. 10 * n + char_digit c) n s"
proof (induction s arbitrary: n)
  case (Cons c s)
  have "n \<le> 10 * n + char_digit c" by simp
  also have "\<dots> \<le> foldl (\<lambda>n c. 10 * n + char_digit c) n (c # s)" using Cons [of "10 * n + char_digit c"] by simp
  finally show ?case .
qed simp

lemma uint_loop_digits:
  assumes "digits s" and "foldl (\<lambda>n c. 10 * n + char_digit c) n s < 2 ^ 64"
  shows "uint_loop 10 u s n = Some (foldl (\<lambda>n c. 10 * n + char_digit c) n s)"
  using assms
proof (induction s arbitrary: n)
  case Nil
  then show ?case by simp
next
  case (Cons c s)
  let ?m = "10 * n + char_digit c"
  from Cons.prems(1) have c: "48 \<le> (of_char c :: nat)" "(of_char c :: nat) \<le> 57" and s: "digits s"
    by (auto simp: digits_def)
  have "?m \<le> foldl (\<lambda>n c. 10 * n + char_digit c) ?m s" by (rule foldl_digits_mono)
  with Cons.prems(2) have "?m < 2 ^ 64" by simp
  moreover have "uint_loop 10 u s ?m = Some (foldl (\<lambda>n c. 10 * n + char_digit c) ?m s)"
    using Cons.IH [OF s, of ?m] Cons.prems(2) by simp
  ultimately show ?case using digit_val_digit [OF c] by (simp add: mult.commute)
qed

lemma show_nat_ne [simp]: "show_nat n \<noteq> []"
  by (simp add: show_nat.simps [of n])

lemma hd_show_nat: "0 < n \<Longrightarrow> hd (show_nat n) \<noteq> CHR ''0''"
proof (induction n rule: show_nat.induct)
  case (1 n)
  show ?case
  proof (cases "n < 10")
    case True
    with 1(2) have "n \<in> {1,2,3,4,5,6,7,8,9}" by auto
    then show ?thesis by (auto simp: show_nat.simps [of n] digit_char_def char_of_def)
  next
    case False
    with 1 have "hd (show_nat (n div 10)) \<noteq> CHR ''0''" by simp
    with False show ?thesis by (simp add: show_nat.simps [of n])
  qed
qed

lemma show_nat_zero: "show_nat 0 = ''0''"
  by (simp add: show_nat.simps [of 0] digit_char_def char_of_def bit_Suc_0_iff)

lemma read_uint_loop: "n < 2 ^ 64 \<Longrightarrow> uint_loop 10 u (show_nat n) 0 = Some n"
  using uint_loop_digits [OF digits_show_nat, of 0 n u] read_show_nat [of n] by (simp add: read_nat_def)

lemma base_prefix_show: "0 < n \<Longrightarrow> base_prefix (show_nat n) = (10, show_nat n)"
  using hd_show_nat [of n] by (auto simp: base_prefix_def split: list.splits)

text \<open>A decimal number is read back, in base 10 and where the prefix tells the base.\<close>

lemma ParseUint_show:
  assumes "n < 2 ^ 64" and "base = 0 \<or> base = 10"
  shows "ParseUint base (show_nat n) = Some n"
proof (cases "n = 0")
  case True
  with assms(2) show ?thesis
    by (auto simp: ParseUint_def show_nat_zero base_prefix_def digit_val_def)
next
  case False
  have "CHR ''_'' \<notin> set (show_nat n)" using digits_show_nat [of n] by (auto simp: digits_def)
  moreover have "base_prefix (show_nat n) = (10, show_nat n)" using False by (simp add: base_prefix_show)
  ultimately show ?thesis
    using assms by (auto simp: ParseUint_def read_uint_loop [OF assms(1)])
qed

lemma show_nat_sign: "sign_of (show_nat n) = (False, show_nat n)"
proof (cases "show_nat n")
  case (Cons c r)
  then have "48 \<le> (of_char c :: nat)" using digits_show_nat [of n] by (simp add: digits_def)
  with Cons show ?thesis by (auto simp: sign_of_def)
qed (simp add: sign_of_def)

lemma show_int_cases:
  "show_int i = (if i < 0 then CHR ''-'' # show_nat (nat (- i)) else show_nat (nat i))"
  by (simp add: show_int_def)

lemma sign_show_int: "sign_of (show_int i) = (i < 0, show_nat (nat \<bar>i\<bar>))"
  by (auto simp: show_int_cases show_nat_sign) (simp_all add: sign_of_def)

lemma Atoi_show:
  assumes "- (2 ^ 63) \<le> i" and "i < 2 ^ 63"
  shows "Atoi (show_int i) = Some i"
proof -
  have "ParseUint 10 (show_nat (nat \<bar>i\<bar>)) = Some (nat \<bar>i\<bar>)" using assms by (intro ParseUint_show) auto
  with assms show ?thesis by (auto simp: Atoi_def ParseInt_def sign_show_int)
qed

lemma digits_dec: "digits s \<Longrightarrow> list_all dec_digit s"
  using digit_val_digit by (auto simp: digits_def list_all_iff dec_digit_def)

lemma big_SetString_show: "big_SetString (show_int i) = Some i"
  by (simp add: big_SetString_def sign_show_int digits_dec)

section \<open>JSON strings are one line\<close>

definition one_line :: "string \<Rightarrow> bool" where
  "one_line s \<longleftrightarrow> CHR 0x0A \<notin> set s \<and> CHR 0x0D \<notin> set s"

lemma one_line_simps [simp]:
  "one_line []" "one_line (c # s) \<longleftrightarrow> c \<noteq> CHR 0x0A \<and> c \<noteq> CHR 0x0D \<and> one_line s"
  "one_line (s @ t) \<longleftrightarrow> one_line s \<and> one_line t"
  by (auto simp: one_line_def)

lemma one_line_concat: "(\<And>s. s \<in> set ss \<Longrightarrow> one_line s) \<Longrightarrow> one_line (concat ss)"
  by (auto simp: one_line_def)

lemma hex_digit_line: "n < 16 \<Longrightarrow> hex_digit n \<noteq> CHR 0x0A \<and> hex_digit n \<noteq> CHR 0x0D"
  by (cases "n < 10") (auto simp: hex_digit_def take_bit_eq_mod char_of_eq_iff)

lemma json_char_line: "one_line (json_char c)"
proof -
  have "(of_char c :: nat) < 256" using of_char_mod_256 [of c] by (metis mod_less_divisor zero_less_numeral)
  with hex_digit_line [of "of_char c div 16"] hex_digit_line [of "of_char c mod 16"]
  show ?thesis by (auto simp: json_char_def Let_def)
qed

lemma marshal_string_line [simp]: "one_line (marshal_string s)"
  by (auto simp: marshal_string_def intro!: one_line_concat json_char_line)

lemma show_nat_line [simp]: "one_line (show_nat n)"
  using digits_show_nat [of n] by (auto simp: digits_def one_line_def)

end
