(* ===== verification/Cli.thy ===== *)
theory Cli
  imports Follow Backfill Service Strconv
begin

text \<open>
  \<open>cmd/indexer/main.go\<close>: the command line.  \<open>main\<close> resolves the arguments, the configuration, the
  store (migrated), the registry and the client to one operation, or exits; \<open>indexer_run\<close> then runs
  the operation to the exit of the process.
\<close>

section \<open>Flags\<close>

text \<open>
  Go's package \<open>flag\<close>, with \<open>ExitOnError\<close>: an error ends the process with status 2, a request
  for help with status 0.  A flag's value carries its type.
\<close>

datatype flag_value = VString string | VUint64 u64 | VInt int | VBool bool

type_synonym flags = "string \<Rightarrow> flag_value option"

definition flag_Set :: "flag_value \<Rightarrow> string \<Rightarrow> flag_value option" where
  "flag_Set cur s = (case cur of
     VString _ \<Rightarrow> Some (VString s)
   | VUint64 _ \<Rightarrow> map_option (\<lambda>n. VUint64 (of_nat n)) (ParseUint 0 s)
   | VInt _ \<Rightarrow> map_option VInt (ParseInt 0 s)
   | VBool _ \<Rightarrow> map_option VBool (ParseBool s))"

text \<open>What one argument looks like: no flag (or the end of the flags), a malformed flag, or a name
  with perhaps a value.\<close>

datatype flag_arg = NoFlag | BadFlag | Flag string "string option"

definition flag_arg :: "string \<Rightarrow> flag_arg" where
  "flag_arg s =
     (case s of
        d # e # r \<Rightarrow>
          (if d \<noteq> CHR ''-'' then NoFlag
           else if e = CHR ''-'' \<and> r = [] then NoFlag
           else let name = (if e = CHR ''-'' then r else e # r) in
             if hd name = CHR ''-'' \<or> hd name = CHR ''='' then BadFlag
             else Flag (takeWhile (\<lambda>c. c \<noteq> CHR ''='') name)
               (case dropWhile (\<lambda>c. c \<noteq> CHR ''='') name of [] \<Rightarrow> None | _ # v \<Rightarrow> Some v))
      | _ \<Rightarrow> NoFlag)"

datatype parsed = Parsed flags | FlagExit int

fun parse_flags :: "flags \<Rightarrow> string list \<Rightarrow> parsed" where
  "parse_flags fl [] = Parsed fl"
| "parse_flags fl (s # args) =
     (case flag_arg s of
        NoFlag \<Rightarrow> Parsed fl
      | BadFlag \<Rightarrow> FlagExit 2
      | Flag name given \<Rightarrow>
          (case fl name of
             None \<Rightarrow> FlagExit (if name = ''help'' \<or> name = ''h'' then 0 else 2)
           | Some cur \<Rightarrow>
               (case cur of
                  VBool _ \<Rightarrow> (case flag_Set cur (case given of None \<Rightarrow> ''true'' | Some v \<Rightarrow> v) of
                     None \<Rightarrow> FlagExit 2 | Some x \<Rightarrow> parse_flags (fl(name \<mapsto> x)) args)
                | _ \<Rightarrow> (case given of
                     Some v \<Rightarrow> (case flag_Set cur v of
                       None \<Rightarrow> FlagExit 2 | Some x \<Rightarrow> parse_flags (fl(name \<mapsto> x)) args)
                   | None \<Rightarrow> (case args of
                       [] \<Rightarrow> FlagExit 2
                     | v # rest \<Rightarrow> (case flag_Set cur v of
                         None \<Rightarrow> FlagExit 2 | Some x \<Rightarrow> parse_flags (fl(name \<mapsto> x)) rest))))))"

definition flag_string :: "string \<Rightarrow> flags \<Rightarrow> string" where
  "flag_string k fl = (case fl k of Some (VString s) \<Rightarrow> s | _ \<Rightarrow> [])"

definition flag_u64 :: "string \<Rightarrow> flags \<Rightarrow> u64" where
  "flag_u64 k fl = (case fl k of Some (VUint64 n) \<Rightarrow> n | _ \<Rightarrow> 0)"

definition flag_int :: "string \<Rightarrow> flags \<Rightarrow> int" where
  "flag_int k fl = (case fl k of Some (VInt n) \<Rightarrow> n | _ \<Rightarrow> 0)"

definition flag_bool :: "string \<Rightarrow> flags \<Rightarrow> bool" where
  "flag_bool k fl = (case fl k of Some (VBool b) \<Rightarrow> b | _ \<Rightarrow> False)"

section \<open>Building what an operation needs\<close>

text \<open>
  What surrounds the process.  \<open>ce_rpc\<close> says how a client with given settings answers (a
  \<open>client_rpc\<close> of what the network does), \<open>ce_faults\<close> how the database behaves during the migration,
  \<open>ce_env\<close> what surrounds the operation itself.
\<close>

record 'v cli_env =
  ce_env :: "'v Env"
  ce_readFile :: "string \<Rightarrow> string result"
  ce_yaml :: "string \<Rightarrow> Config result"
  ce_tag :: bool
  ce_open :: sql_open
  ce_faults :: faults
  ce_rpc :: "Client \<Rightarrow> Rpc"

text \<open>A result is an exit status of the process or a value.\<close>

definition mustLoadConfig :: "'v cli_env \<Rightarrow> string \<Rightarrow> int + Config" where
  "mustLoadConfig C path = (case Load (ce_readFile C) (ce_yaml C) path of Inl e \<Rightarrow> Inl 1 | Inr cfg \<Rightarrow> Inr cfg)"

definition contract_spec :: "ContractConfig \<Rightarrow> ContractSpec" where
  "contract_spec c = \<lparr>cs_Name = ct_Name c, cs_Address = ct_Address c, cs_ABIPath = ct_ABIPath c,
     cs_Events = ct_Events c\<rparr>"

text \<open>The part \<open>mustBuildDeps\<close> and \<open>mustBuildMempoolService\<close> have in common, written twice in the code.\<close>

definition open_migrate_load :: "'v cli_env \<Rightarrow> Config \<Rightarrow> db \<Rightarrow> (int + db Store \<times> Registry) \<times> db" where
  "open_migrate_load C cfg s =
     (case store_New (ce_tag C) (ce_open C) (cf_Database cfg) of
        Inl e \<Rightarrow> (Inl 1, s)
      | Inr st \<Rightarrow> (case st_Migrate st (ce_faults C) s of
          (Some e, s1) \<Rightarrow> (Inl 1, s1)
        | (None, s1) \<Rightarrow>
            (case LoadRegistry (en_lib (ce_env C)) (ce_readFile C) (map contract_spec (cf_Contracts cfg)) of
               Inl e \<Rightarrow> (Inl 1, s1)
             | Inr reg \<Rightarrow> (Inr (st, reg), s1))))"

definition mustBuildDeps :: "'v cli_env \<Rightarrow> Config \<Rightarrow> db \<Rightarrow> (int + db Deps) \<times> db" where
  "mustBuildDeps C cfg s =
     (case open_migrate_load C cfg s of
        (Inl n, s1) \<Rightarrow> (Inl n, s1)
      | (Inr (st, reg), s1) \<Rightarrow>
          (let rpcClient = NewClient (cc_RPCURL (cf_Chain cfg)) (ix_Concurrency (cf_Indexer cfg))
                 (ix_RateLimitPerSecond (cf_Indexer cfg))
           in case StartLogger (seconds (ix_MetricsIntervalSeconds (cf_Indexer cfg))) of
             Some p \<Rightarrow> (Inl 2, s1)
           | None \<Rightarrow> (Inr \<lparr>dp_RPC = ce_rpc C rpcClient, dp_Store = st, dp_Decoder = reg,
                dp_ChainID = cc_ChainID (cf_Chain cfg)\<rparr>, s1)))"

text \<open>The service is given its client, store and decoder, like the extractor.\<close>

definition mustBuildMempoolService :: "'v cli_env \<Rightarrow> Config \<Rightarrow> db \<Rightarrow> (int + db Deps) \<times> db" where
  "mustBuildMempoolService C cfg s =
     (case open_migrate_load C cfg s of
        (Inl n, s1) \<Rightarrow> (Inl n, s1)
      | (Inr (st, reg), s1) \<Rightarrow>
          (let rpcClient = NewClient (mc_HTTPURL (cf_Mempool cfg)) (mc_PendingWorkers (cf_Mempool cfg))
                 (ix_RateLimitPerSecond (cf_Indexer cfg))
           in (Inr \<lparr>dp_RPC = ce_rpc C rpcClient, dp_Store = st, dp_Decoder = reg,
                dp_ChainID = cc_ChainID (cf_Chain cfg)\<rparr>, s1)))"

section \<open>The commands\<close>

datatype operation =
    RunBackfill Config "db Deps" "u64 option" "u64 option"
  | RunFollow Config "db Deps"
  | RunMempool Config "db Deps" bool bool string int int

definition backfill_flags :: flags where
  "backfill_flags = [''config'' \<mapsto> VString [], ''from'' \<mapsto> VUint64 0, ''to'' \<mapsto> VUint64 0]"

definition config_flags :: flags where
  "config_flags = [''config'' \<mapsto> VString []]"

definition mempool_flagset :: flags where
  "mempool_flagset = [''config'' \<mapsto> VString [], ''decode-input'' \<mapsto> VBool False, ''track'' \<mapsto> VBool False,
     ''dropped-ttl'' \<mapsto> VString [], ''pending-workers'' \<mapsto> VInt 0, ''receipt-workers'' \<mapsto> VInt 0]"

text \<open>The start of every command: its flags, the required \<open>--config\<close>, the configuration.\<close>

definition start_command :: "'v cli_env \<Rightarrow> flags \<Rightarrow> string list \<Rightarrow> int + Config \<times> flags" where
  "start_command C fs args =
     (case parse_flags fs args of
        FlagExit n \<Rightarrow> Inl n
      | Parsed fl \<Rightarrow>
          if flag_string ''config'' fl = '''' then Inl 1
          else case mustLoadConfig C (flag_string ''config'' fl) of Inl n \<Rightarrow> Inl n | Inr cfg \<Rightarrow> Inr (cfg, fl))"

definition override :: "u64 \<Rightarrow> u64 option" where
  "override n = (if n > 0 then Some n else None)"

definition handleIndex :: "'v cli_env \<Rightarrow> string list \<Rightarrow> db \<Rightarrow> (int + operation) \<times> db" where
  "handleIndex C args s =
     (case args of [] \<Rightarrow> (Inl 1, s)
      | c # rest \<Rightarrow>
        if c = ''backfill'' then
          (case start_command C backfill_flags rest of
             Inl n \<Rightarrow> (Inl n, s)
           | Inr (cfg, fl) \<Rightarrow> (case mustBuildDeps C cfg s of
               (Inl n, s1) \<Rightarrow> (Inl n, s1)
             | (Inr D, s1) \<Rightarrow> (Inr (RunBackfill cfg D (override (flag_u64 ''from'' fl))
                                  (override (flag_u64 ''to'' fl))), s1)))
        else if c = ''follow'' then
          (case start_command C config_flags rest of
             Inl n \<Rightarrow> (Inl n, s)
           | Inr (cfg, fl) \<Rightarrow> (case mustBuildDeps C cfg s of
               (Inl n, s1) \<Rightarrow> (Inl n, s1) | (Inr D, s1) \<Rightarrow> (Inr (RunFollow cfg D), s1)))
        else if c = ''mempool'' then
          (case start_command C mempool_flagset rest of
             Inl n \<Rightarrow> (Inl n, s)
           | Inr (cfg, fl) \<Rightarrow> (case mustBuildMempoolService C cfg s of
               (Inl n, s1) \<Rightarrow> (Inl n, s1)
             | (Inr D, s1) \<Rightarrow> (Inr (RunMempool cfg D (flag_bool ''decode-input'' fl) (flag_bool ''track'' fl)
                 (flag_string ''dropped-ttl'' fl) (flag_int ''pending-workers'' fl)
                 (flag_int ''receipt-workers'' fl)), s1)))
        else (Inl 1, s))"

definition handleDB :: "'v cli_env \<Rightarrow> string list \<Rightarrow> db \<Rightarrow> int \<times> db" where
  "handleDB C args s =
     (case args of [] \<Rightarrow> (1, s)
      | c # rest \<Rightarrow>
        if c = ''migrate'' then
          (case start_command C config_flags rest of
             Inl n \<Rightarrow> (n, s)
           | Inr (cfg, fl) \<Rightarrow> (case store_New (ce_tag C) (ce_open C) (cf_Database cfg) of
               Inl e \<Rightarrow> (1, s)
             | Inr st \<Rightarrow> (case st_Migrate st (ce_faults C) s of
                 (Some e, s1) \<Rightarrow> (1, s1) | (None, s1) \<Rightarrow> (0, s1))))
        else (1, s))"

text \<open>\<open>args\<close> is \<open>os.Args[1:]\<close>.\<close>

definition indexer_main :: "'v cli_env \<Rightarrow> string list \<Rightarrow> db \<Rightarrow> (int + operation) \<times> db" where
  "indexer_main C args s =
     (case args of [] \<Rightarrow> (Inl 1, s)
      | c # rest \<Rightarrow>
        if c = ''index'' then handleIndex C rest s
        else if c = ''db'' then (case handleDB C rest s of (n, s1) \<Rightarrow> (Inl n, s1))
        else (Inl 1, s))"

section \<open>To the exit of the process\<close>

definition start_world :: "db \<Rightarrow> db World" where
  "start_world s = \<lparr>wd_tick = 0, wd_store = s, wd_metrics = zero_metrics\<rparr>"

definition exit_status :: "go_error option \<Rightarrow> int" where
  "exit_status r = (case r of None \<Rightarrow> 0 | Some e \<Rightarrow> 1)"

text \<open>
  A run with its final database and exit status.  The loop of the mempool service ends when the
  context is cancelled, with the error of the context, after any run of its events.
\<close>

inductive indexer_run :: "'v cli_env \<Rightarrow> string list \<Rightarrow> db \<Rightarrow> db \<Rightarrow> int \<Rightarrow> bool" for C args s where
  left: "indexer_main C args s = (Inl n, s1) \<Longrightarrow> indexer_run C args s s1 n"
| backfilled: "indexer_main C args s = (Inr (RunBackfill cfg D f t), s1) \<Longrightarrow>
    Backfill_returns (ce_env C) cfg D f t (start_world s1) w r \<Longrightarrow>
    indexer_run C args s (wd_store w) (exit_status r)"
| followed: "indexer_main C args s = (Inr (RunFollow cfg D), s1) \<Longrightarrow>
    Follow (ce_env C) cfg D (start_world s1) = Some (w, e) \<Longrightarrow>
    indexer_run C args s (wd_store w) (exit_status (Some e))"
| refused: "indexer_main C args s = (Inr (RunMempool cfg D di tr ttl pw rw), s1) \<Longrightarrow>
    service_start cfg (Some (dp_Decoder D)) di tr ttl pw rw s1 = Inl e \<Longrightarrow>
    indexer_run C args s s1 (exit_status (Some e))"
| served: "indexer_main C args s = (Inr (RunMempool cfg D di tr ttl pw rw), s1) \<Longrightarrow>
    service_start cfg (Some (dp_Decoder D)) di tr ttl pw rw s1 = Inr s0 \<Longrightarrow>
    indexer_run C args s (mw_store (sv_world (svc_run (ce_env C) D evs s0))) (exit_status (Some ErrCanceled))"

inductive_cases indexer_runE: "indexer_run C args s s' n"

end
