(* ===== verification/Cli_Correct.thy ===== *)
theory Cli_Correct
  imports Cli
begin

text \<open>
  What the command line guarantees, end to end: nothing is indexed before the configuration is
  validated and the schema is there, the options select the range, and the guarantees of
  \<open>Backfill\<close> and \<open>Follow\<close> hold of a whole run of the process.
\<close>

section \<open>From the arguments to the operation\<close>

fun op_config :: "operation \<Rightarrow> Config" where
  "op_config (RunBackfill cfg D f t) = cfg"
| "op_config (RunFollow cfg D) = cfg"
| "op_config (RunMempool cfg D di tr ttl pw rw) = cfg"

fun op_deps :: "operation \<Rightarrow> db Deps" where
  "op_deps (RunBackfill cfg D f t) = D"
| "op_deps (RunFollow cfg D) = D"
| "op_deps (RunMempool cfg D di tr ttl pw rw) = D"

lemma migrate_rows:
  assumes "a_store S" and "st_Migrate S f s = (r, s1)"
  shows "d_logs s1 = d_logs s \<and> d_cps s1 = d_cps s \<and> d_mem s1 = d_mem s"
proof -
  from assms obtain qs where "exec_schema f 0 qs s = (r, s1)"
    by (auto simp: a_store_def sqlite_store_def pg_store_def sqlite_Migrate_def pg_Migrate_def)
  with exec_schema_frame [of f 0 qs s] show ?thesis by simp
qed

text \<open>What an operation needs has been built: from a valid configuration, on a migrated database.\<close>

definition built :: "'v cli_env \<Rightarrow> db \<Rightarrow> db \<Rightarrow> Config \<Rightarrow> db Deps \<Rightarrow> bool" where
  "built C s s1 cfg D \<longleftrightarrow> (\<exists>path. path \<noteq> '''' \<and> Load (ce_readFile C) (ce_yaml C) path = Inr cfg)
     \<and> store_New (ce_tag C) (ce_open C) (cf_Database cfg) = Inr (dp_Store D)
     \<and> st_Migrate (dp_Store D) (ce_faults C) s = (None, s1)
     \<and> LoadRegistry (en_lib (ce_env C)) (ce_readFile C) (map contract_spec (cf_Contracts cfg)) = Inr (dp_Decoder D)
     \<and> dp_ChainID D = cc_ChainID (cf_Chain cfg)"

text \<open>The rows of all tables are as they were.\<close>

definition same_rows :: "db \<Rightarrow> db \<Rightarrow> bool" where
  "same_rows s s1 \<longleftrightarrow> d_logs s1 = d_logs s \<and> d_cps s1 = d_cps s \<and> d_mem s1 = d_mem s"

lemma same_rows_refl [simp]: "same_rows s s"
  by (simp add: same_rows_def)

lemma migrate_new:
  "store_New tag open_db cfg = Inr S \<Longrightarrow> st_Migrate S f s = (r, s1) \<Longrightarrow> same_rows s s1"
  unfolding same_rows_def by (rule migrate_rows) (rule store_New_a_store)

lemma open_migrate_load_cases:
  assumes "open_migrate_load C cfg s = (r, s1)"
  shows "same_rows s s1 \<and> (case r of Inl n \<Rightarrow> n = 1
    | Inr (st, reg) \<Rightarrow> store_New (ce_tag C) (ce_open C) (cf_Database cfg) = Inr st
        \<and> st_Migrate st (ce_faults C) s = (None, s1)
        \<and> LoadRegistry (en_lib (ce_env C)) (ce_readFile C) (map contract_spec (cf_Contracts cfg)) = Inr reg)"
proof (cases "store_New (ce_tag C) (ce_open C) (cf_Database cfg)")
  case (Inl e)
  with assms show ?thesis by (auto simp: open_migrate_load_def)
next
  case (Inr st)
  obtain m s2 where m: "st_Migrate st (ce_faults C) s = (m, s2)" by force
  from migrate_new [OF Inr m] have "same_rows s s2" .
  with assms Inr m show ?thesis
    by (auto simp: open_migrate_load_def split: option.splits sum.splits)
qed

lemma start_command_Inr:
  assumes "start_command C fs args = Inr (cfg, fl)"
  shows "parse_flags fs args = Parsed fl \<and> flag_string ''config'' fl \<noteq> ''''
    \<and> Load (ce_readFile C) (ce_yaml C) (flag_string ''config'' fl) = Inr cfg"
  using assms by (auto simp: start_command_def mustLoadConfig_def split: parsed.splits if_splits sum.splits)

lemma parse_exit: "parse_flags fl args = FlagExit n \<Longrightarrow> n \<in> {0, 2}"
proof (induction "length args" arbitrary: fl args rule: less_induct)
  case less
  have IH: "n \<in> {0, 2}" if "parse_flags fl' xs = FlagExit n" "length xs < length args" for fl' xs
    using less.hyps [OF that(2,1)] .
  show ?case
  proof (cases args)
    case Nil
    with less.prems show ?thesis by simp
  next
    case (Cons s rest)
    from less.prems [unfolded Cons parse_flags.simps(2)] show ?thesis
      by (auto simp del: parse_flags.simps(2) simp: Cons dest!: IH split: flag_arg.splits option.splits
          flag_value.splits list.splits if_splits)
  qed
qed

lemma start_command_Inl: "start_command C fs args = Inl n \<Longrightarrow> n \<in> {0, 1, 2}"
  using parse_exit [of fs args n]
  by (auto simp: start_command_def mustLoadConfig_def split: parsed.splits if_splits sum.splits)

lemma build_cases:
  assumes "mustBuildDeps C cfg s = (r, s1) \<or> mustBuildMempoolService C cfg s = (r, s1)"
    and "path \<noteq> ''''" and "Load (ce_readFile C) (ce_yaml C) path = Inr cfg"
  shows "same_rows s s1 \<and> (case r of Inl n \<Rightarrow> n \<in> {1, 2} | Inr D \<Rightarrow> built C s s1 cfg D)"
proof -
  obtain q s2 where q: "open_migrate_load C cfg s = (q, s2)" by force
  have "(\<exists>path. path \<noteq> [] \<and> Load (ce_readFile C) (ce_yaml C) path = Inr cfg) = True" using assms(2,3) by blast
  note * = built_def this
  from open_migrate_load_cases [OF q] assms(1) q show ?thesis
    by (cases q) (auto simp: mustBuildDeps_def mustBuildMempoolService_def Let_def * split: option.splits)
qed

lemma index_cases:
  assumes "handleIndex C args s = (r, s1)"
  shows "same_rows s s1 \<and> (case r of Inl n \<Rightarrow> n \<in> {0, 1, 2} | Inr x \<Rightarrow> built C s s1 (op_config x) (op_deps x))"
proof -
  have build: "same_rows s s2 \<and> (case q of Inl n \<Rightarrow> n \<in> {1, 2} | Inr D \<Rightarrow> built C s s2 cfg D)"
    if "start_command C fs rest = Inr (cfg, fl)"
      and "mustBuildDeps C cfg s = (q, s2) \<or> mustBuildMempoolService C cfg s = (q, s2)" for fs rest cfg fl q s2
    using build_cases [OF that(2)] start_command_Inr [OF that(1)] by blast
  from assms show ?thesis
    by (auto simp: handleIndex_def split: list.splits if_splits sum.splits prod.splits
        dest: start_command_Inl build)
qed

lemma main_cases:
  assumes "indexer_main C args s = (r, s1)"
  shows "same_rows s s1 \<and> (case r of Inl n \<Rightarrow> n \<in> {0, 1, 2} | Inr x \<Rightarrow> built C s s1 (op_config x) (op_deps x))"
proof -
  have "same_rows s s2 \<and> n \<in> {0, 1, 2}" if "handleDB C rest s = (n, s2)" for rest n s2
    using that unfolding handleDB_def
    by (auto split: list.splits if_splits sum.splits prod.splits option.splits
        dest: start_command_Inl intro: migrate_new)
  with assms show ?thesis
    unfolding indexer_main_def by (auto split: list.splits if_splits prod.splits dest: index_cases)
qed

text \<open>
  C32. Before an operation starts.  Resolving a command line changes no row of the database,
  whatever it ends with.  It ends with one of the statuses 0, 1 and 2, or with an operation, and then
  the configuration named by \<open>--config\<close> is valid, the store is the one of its driver, the schema
  has been created without an error, and every contract and event of the configuration is in the
  registry.
\<close>

theorem cli_starts:
  assumes "indexer_main C args s = (r, s1)"
  shows "same_rows s s1 \<and> (case r of Inl n \<Rightarrow> n \<in> {0, 1, 2}
    | Inr x \<Rightarrow> built C s s1 (op_config x) (op_deps x) \<and> config_ok (op_config x) \<and> a_store (dp_Store (op_deps x)))"
proof (cases r)
  case (Inr x)
  with main_cases [OF assms] have "built C s s1 (op_config x) (op_deps x)" by simp
  then have "config_ok (op_config x) \<and> a_store (dp_Store (op_deps x))"
    using Validate_config_ok store_New_a_store by (auto simp: built_def Load_def and_then_Inr)
  with main_cases [OF assms] Inr show ?thesis by simp
qed (use main_cases [OF assms] in simp)

section \<open>The range of a backfill\<close>

lemma flag_arg_examples:
  "flag_arg ''--config'' = Flag ''config'' None" "flag_arg ''--from'' = Flag ''from'' None"
  "flag_arg ''--to'' = Flag ''to'' None"
  by (simp_all add: flag_arg_def)

lemma parse_backfill:
  assumes "n < 2 ^ 64" and "m < 2 ^ 64"
  shows "parse_flags backfill_flags [''--config'', path, ''--from'', show_nat n, ''--to'', show_nat m] =
    Parsed (backfill_flags(''config'' \<mapsto> VString path, ''from'' \<mapsto> VUint64 (of_nat n), ''to'' \<mapsto> VUint64 (of_nat m)))"
  using ParseUint_show [OF assms(1), of 0] ParseUint_show [OF assms(2), of 0]
  by (simp add: flag_arg_examples flag_Set_def backfill_flags_def)

lemma override_nat: "n < 2 ^ 64 \<Longrightarrow> override (of_nat n) = (if n = 0 then None else Some (of_nat n))"
  by (auto simp: override_def word_gt_0 of_nat_inverse word_of_nat_eq_0_iff dest: nat_dvd_not_less)

text \<open>
  C40. The options of a backfill.  With \<open>--config\<close>, \<open>--from\<close> and \<open>--to\<close> the operation, if one is
  started, is a backfill with the configuration of that file, and its range is overridden by
  the numbers given in decimal; the number 0 is no override, so \<open>--from 0\<close> starts at the block
  of the configuration and \<open>--to 0\<close> goes up to the confirmed head.
\<close>

theorem cli_backfill_options:
  assumes "indexer_main C [''index'', ''backfill'', ''--config'', path, ''--from'', show_nat n, ''--to'', show_nat m] s
      = (Inr x, s1)"
    and "n < 2 ^ 64" and "m < 2 ^ 64"
  shows "\<exists>cfg D. Load (ce_readFile C) (ce_yaml C) path = Inr cfg
    \<and> x = RunBackfill cfg D (if n = 0 then None else Some (of_nat n)) (if m = 0 then None else Some (of_nat m))"
proof -
  let ?args = "[''--config'', path, ''--from'', show_nat n, ''--to'', show_nat m]"
  let ?fl = "backfill_flags(''config'' \<mapsto> VString path, ''from'' \<mapsto> VUint64 (of_nat n), ''to'' \<mapsto> VUint64 (of_nat m))"
  from assms(1) obtain cfg fl D where st: "start_command C backfill_flags ?args = Inr (cfg, fl)"
    and x: "x = RunBackfill cfg D (override (flag_u64 ''from'' fl)) (override (flag_u64 ''to'' fl))"
    by (auto simp: indexer_main_def handleIndex_def split: sum.splits prod.splits)
  have fl: "fl = ?fl" and l: "Load (ce_readFile C) (ce_yaml C) path = Inr cfg"
    using start_command_Inr [OF st] parse_backfill [OF assms(2,3), of path] by (auto simp: flag_string_def)
  show ?thesis using l x override_nat [OF assms(2)] override_nat [OF assms(3)]
    by (simp add: fl flag_u64_def)
qed

section \<open>Whole runs\<close>

lemma same_rows_views: "same_rows s s1 \<Longrightarrow> db_cps s1 = db_cps s \<and> (db_inv s1 \<longleftrightarrow> db_inv s)"
  by (simp add: same_rows_def db_view_defs)

lemma started:
  assumes "indexer_main C args s = (Inr x, s1)"
  shows "config_ok (op_config x)" and "a_store (dp_Store (op_deps x))"
    and "db_cps s1 = db_cps s" and "db_inv s1 = db_inv s"
proof -
  from main_cases [OF assms] have b: "built C s s1 (op_config x) (op_deps x)" and r: "same_rows s s1" by simp_all
  then show "config_ok (op_config x)" "a_store (dp_Store (op_deps x))"
    using Validate_config_ok store_New_a_store by (auto simp: built_def Load_def and_then_Inr)
  from same_rows_views [OF r] show "db_cps s1 = db_cps s" "db_inv s1 = db_inv s" by simp_all
qed

text \<open>
  C14. A backfill that exits with status 0 is complete.  If the process was not cancelled and
  \<open>index backfill\<close> exits with status 0, every block of the range it resolved is covered by
  exactly one of the checkpoints it added, and no other block is.
\<close>

theorem cli_backfill_complete:
  assumes "indexer_main C args s = (Inr (RunBackfill cfg D f t), s1)"
    and "indexer_run C args s s' 0" and "db_inv s"
    and "growth_ok (ix_MaxChunkSize (cf_Indexer cfg))"
    and "backfill_range cfg D f t 0 = Inr (start, hi)" and "start \<le> hi" and "range_fits cfg hi"
    and "\<forall>u. \<not> en_cancelled (ce_env C) u"
  shows "\<exists>new. db_cps s' = db_cps s @ new
    \<and> (\<forall>n. cover_count new n = (if start \<le> n \<and> n \<le> hi then 1 else 0))"
proof -
  from assms(2,1) obtain w r where b: "Backfill_returns (ce_env C) cfg D f t (start_world s1) w r"
    and s': "s' = wd_store w" and r: "0 = exit_status r"
    by (elim indexer_runE) auto
  from r have "r = None" by (simp add: exit_status_def split: option.splits)
  moreover note pre = started [OF assms(1), simplified]
  have w0: "wd_store (start_world s1) = s1" "wd_tick (start_world s1) = 0"
    by (simp_all add: start_world_def)
  ultimately show ?thesis
    using Backfill_covered(2) [of D "start_world s1" cfg f t start hi "ce_env C" w r] pre assms(3-8) b s'
    by (auto simp: w0)
qed

text \<open>
  The follower never succeeds.  \<open>index follow\<close> exits, when it exits, with status 1, also when it is
  stopped by a signal; the index it leaves is one the next run can start from.
\<close>

lemma cli_follow_stops:
  assumes "indexer_main C args s = (Inr (RunFollow cfg D), s1)"
    and "indexer_run C args s s' n" and "index_ok cfg D s"
    and "growth_ok (ix_MaxChunkSize (cf_Indexer cfg))" and "heads_ok D"
  shows "n = 1 \<and> index_ok cfg D s'"
proof -
  from assms(2,1) obtain w e where f: "Follow (ce_env C) cfg D (start_world s1) = Some (w, e)"
    and s': "s' = wd_store w" and n: "n = exit_status (Some e)"
    by (elim indexer_runE) auto
  note pre = started [OF assms(1), simplified]
  have "index_ok cfg D (wd_store (start_world s1))"
    using assms(3) pre(3,4) by (simp add: start_world_def index_ok_def)
  from Follow_index_ok [OF pre(2,1) assms(4,5) this assms(5) f] s' n show ?thesis by (simp add: exit_status_def)
qed

section \<open>A process\<close>

definition demo_cli :: "string cli_env" where
  "demo_cli = \<lparr>ce_env = demo_env, ce_readFile = (\<lambda>p. Inr ''[]''), ce_yaml = (\<lambda>b. Inr sample_config),
     ce_tag = False, ce_open = (\<lambda>driver dsn. None), ce_faults = no_faults, ce_rpc = (\<lambda>c. demo_rpc 2 6)\<rparr>"

definition demo_schema :: "string list" where
  "demo_schema = d_schema (snd (sqlite_Migrate no_faults empty_db))"

lemma demo_migrate: "sqlite_Migrate no_faults empty_db = (None, empty_db\<lparr>d_schema := demo_schema\<rparr>)"
proof -
  have "fst (exec_schema no_faults i qs d) = None" for i qs and d :: db
    by (induction qs arbitrary: i d) (simp_all add: no_faults_def)
  then obtain d where d: "sqlite_Migrate no_faults empty_db = (None, d)"
    unfolding sqlite_Migrate_def by (metis prod.collapse)
  then have "d_schema d = demo_schema" by (simp add: demo_schema_def)
  moreover have "d_logs d = [] \<and> d_cps d = [] \<and> d_mem d = [] \<and> d_seq d = 1"
    using exec_schema_frame [of no_faults 0 sqlite_schema empty_db] d
    by (simp add: sqlite_Migrate_def empty_db_def)
  ultimately have "d = empty_db\<lparr>d_schema := demo_schema\<rparr>" by (cases d) (simp add: empty_db_def)
  with d show ?thesis by simp
qed

lemma sample_parts:
  "cf_Database sample_validated = \<lparr>dc_Driver = ''sqlite'', dc_DSN = ''f''\<rparr>"
  "map contract_spec (cf_Contracts sample_validated) = [demo_contract]"
  "cc_ChainID (cf_Chain sample_validated) = 1"
  "ix_MetricsIntervalSeconds (cf_Indexer sample_validated) = 30"
  by (simp_all add: sample_validated_def sample_config_def Validate_def resolveNetwork_def contract_spec_def
      demo_contract_def applyMempoolDefaults_def applyUIDefaults_def indexer_defaults_def Let_def)

lemma demo_logger: "StartLogger (seconds 30) = None"
  by (simp add: StartLogger_def NewTicker_def seconds_small)

lemma demo_deps_built:
  assumes "ce_readFile C = (\<lambda>p. Inr ''[]'')" and "ce_tag C = False" and "ce_open C = (\<lambda>driver dsn. None)"
    and "ce_faults C = no_faults" and "ce_rpc C = (\<lambda>c. demo_rpc 2 6)" and "en_lib (ce_env C) = demo_lib"
  shows "mustBuildDeps C sample_validated empty_db = (Inr (demo_deps 2 6), empty_db\<lparr>d_schema := demo_schema\<rparr>)"
proof -
  have "st_Migrate sqlite_store no_faults empty_db = (None, empty_db\<lparr>d_schema := demo_schema\<rparr>)"
    using demo_migrate by (simp add: sqlite_store_def)
  with assms show ?thesis
    by (simp add: mustBuildDeps_def open_migrate_load_def sample_parts store_New_def NewSQLite_def demo_load
        demo_deps_def Let_def demo_logger)
qed

lemma demo_cli_backfill:
  "indexer_main demo_cli [''index'', ''backfill'', ''--config'', ''c'', ''--from'', show_nat 0, ''--to'', show_nat 0] empty_db
     = (Inr (RunBackfill sample_validated (demo_deps 2 6) None None), empty_db\<lparr>d_schema := demo_schema\<rparr>)"
proof -
  let ?args = "[''--config'', ''c'', ''--from'', show_nat 0, ''--to'', show_nat 0]"
  have "Load (ce_readFile demo_cli) (ce_yaml demo_cli) ''c'' = Inr sample_validated"
    by (simp add: demo_cli_def Load_def sample_validates)
  then have "start_command demo_cli backfill_flags ?args =
      Inr (sample_validated, backfill_flags(''config'' \<mapsto> VString ''c'', ''from'' \<mapsto> VUint64 (of_nat 0), ''to'' \<mapsto> VUint64 (of_nat 0)))"
    unfolding start_command_def mustLoadConfig_def
    by (subst parse_backfill) (simp_all add: flag_string_def)
  moreover have "mustBuildDeps demo_cli sample_validated empty_db
      = (Inr (demo_deps 2 6), empty_db\<lparr>d_schema := demo_schema\<rparr>)"
    by (rule demo_deps_built) (simp_all add: demo_cli_def)
  ultimately show ?thesis
    by (simp add: indexer_main_def handleIndex_def flag_u64_def override_def del: show_nat.simps)
qed

theorem cli_backfill_options_witness:
  "\<exists>cfg D. Load (ce_readFile demo_cli) (ce_yaml demo_cli) ''c'' = Inr cfg
    \<and> RunBackfill sample_validated (demo_deps 2 6) None None = RunBackfill cfg D None None"
  using cli_backfill_options [OF demo_cli_backfill] by simp

theorem cli_starts_witness:
  "same_rows empty_db (empty_db\<lparr>d_schema := demo_schema\<rparr>)
    \<and> built demo_cli empty_db (empty_db\<lparr>d_schema := demo_schema\<rparr>) sample_validated (demo_deps 2 6)"
  using cli_starts [OF demo_cli_backfill] by simp

theorem cli_backfill_complete_witness:
  "\<exists>new. db_cps (wd_store (bf_world (demo_bf demo_schema 6))) = db_cps empty_db @ new
    \<and> (\<forall>n. cover_count new n = (if 6 \<le> n \<and> n \<le> 6 then 1 else 0))"
proof -
  let ?args = "[''index'', ''backfill'', ''--config'', ''c'', ''--from'', show_nat 0, ''--to'', show_nat 0]"
  have w: "start_world (empty_db\<lparr>d_schema := demo_schema\<rparr>) = schema_world demo_schema"
    by (simp add: start_world_def schema_world_def)
  have "Backfill_returns (ce_env demo_cli) sample_validated (demo_deps 2 6) None None
      (start_world (empty_db\<lparr>d_schema := demo_schema\<rparr>)) (bf_world (demo_bf demo_schema 6)) None"
    unfolding w using demo_backfill [of demo_schema] by (simp add: demo_cli_def)
  from indexer_run.backfilled [OF demo_cli_backfill this]
  have run: "indexer_run demo_cli ?args empty_db (wd_store (bf_world (demo_bf demo_schema 6))) 0"
    by (simp add: exit_status_def)
  have rng: "backfill_range sample_validated (demo_deps 2 6) None None 0 = Inr (6, 6)"
    using demo_bf_range [of "[]"] by (simp add: schema_world_def)
  have i: "db_inv empty_db" by (simp add: empty_db_def db_view_defs)
  have f: "range_fits sample_validated 6" by (simp add: range_fits_def sample_simps)
  have nc: "\<forall>u. \<not> en_cancelled (ce_env demo_cli) u" by (simp add: demo_cli_def)
  show ?thesis
    by (rule cli_backfill_complete [OF demo_cli_backfill run i demo_backfill_pre(4) rng order.refl f nc])
qed

definition stopped_cli :: "string cli_env" where
  "stopped_cli = demo_cli\<lparr>ce_env := demo_env\<lparr>en_cancelled := \<lambda>u. True\<rparr>\<rparr>"

lemma stopped_cli_follow:
  "indexer_main stopped_cli [''index'', ''follow'', ''--config=c''] empty_db
     = (Inr (RunFollow sample_validated (demo_deps 2 6)), empty_db\<lparr>d_schema := demo_schema\<rparr>)"
proof -
  have a: "flag_arg ''--config=c'' = Flag ''config'' (Some ''c'')" by (simp add: flag_arg_def)
  have "Load (ce_readFile stopped_cli) (ce_yaml stopped_cli) ''c'' = Inr sample_validated"
    by (simp add: stopped_cli_def demo_cli_def Load_def sample_validates)
  then have "start_command stopped_cli config_flags [''--config=c''] =
      Inr (sample_validated, config_flags(''config'' \<mapsto> VString ''c''))"
    by (simp add: start_command_def mustLoadConfig_def a config_flags_def flag_Set_def flag_string_def)
  moreover have "mustBuildDeps stopped_cli sample_validated empty_db
      = (Inr (demo_deps 2 6), empty_db\<lparr>d_schema := demo_schema\<rparr>)"
    by (rule demo_deps_built) (simp_all add: stopped_cli_def demo_cli_def)
  ultimately show ?thesis by (simp add: indexer_main_def handleIndex_def)
qed

theorem cli_follow_stops_witness:
  "\<exists>s'. indexer_run stopped_cli [''index'', ''follow'', ''--config=c''] empty_db s' 1
    \<and> index_ok sample_validated (demo_deps 2 6) s'"
proof -
  let ?s1 = "empty_db\<lparr>d_schema := demo_schema\<rparr>"
  obtain w where "Follow (ce_env stopped_cli) sample_validated (demo_deps 2 6) (start_world ?s1) = Some (w, ErrCanceled)"
  proof -
    obtain st where "follow_init (ce_env stopped_cli) sample_validated (demo_deps 2 6) (start_world ?s1) = Inr st"
      by (simp add: follow_init_def stopped_cli_def demo_cli_def sqlite_store_def sqlite_LastCheckpoint_def
          no_faults_def start_world_def empty_db_def scanCheckpoint_def)
    moreover have "follow_loop (ce_env stopped_cli) sample_validated (demo_deps 2 6) st = Some (st, ErrCanceled)" for st
      by (subst follow_loop.simps) (simp add: follow_pass_def stopped_cli_def)
    ultimately show thesis using that by (simp add: Follow_def)
  qed
  from indexer_run.followed [OF stopped_cli_follow this]
  have run: "indexer_run stopped_cli [''index'', ''follow'', ''--config=c''] empty_db (wd_store w) 1"
    by (simp add: exit_status_def)
  have "index_ok sample_validated (demo_deps 2 6) empty_db"
    by (auto simp: index_ok_def empty_db_def db_view_defs)
  moreover have "heads_ok (demo_deps 2 6)" by (simp add: heads_ok_def maxU64_def)
  ultimately show ?thesis
    using cli_follow_stops [OF stopped_cli_follow run _ demo_backfill_pre(4)] run by blast
qed

end
