(* ===== verification/Process.thy ===== *)
theory Process
  imports Cli_Correct
begin

text \<open>
  Whole processes on one database.  The indexer and the mempool service write to different
  tables; what each leaves alone is proved once, for any relation that the calls to the store
  respect, and read off for the tables and for a whole run of the process.
\<close>

section \<open>Relations that the calls to the store respect\<close>

locale store_frame =
  fixes S :: "'s Store" and R :: "'s \<Rightarrow> 's \<Rightarrow> bool"
  assumes R_refl: "R s s" and R_trans: "R s1 s2 \<Longrightarrow> R s2 s3 \<Longrightarrow> R s1 s3"

locale mempool_frame = store_frame +
  assumes upsert: "R s (snd (st_UpsertMempoolTx S f tx s))"
    and mined: "R s (snd (st_MarkMempoolMined S f now h mi s))"
    and replaced: "R s (snd (st_MarkMempoolReplaced S f now h h' s))"
    and dropped: "R s (snd (st_MarkMempoolDropped S f now h s))"

locale index_frame = store_frame +
  fixes good :: "LogRecord \<Rightarrow> bool"
  assumes insert_logs: "(\<And>l. l \<in> set ls \<Longrightarrow> good l) \<Longrightarrow> R s (snd (st_InsertLogs S f ls s))"
    and save: "R s (snd (st_SaveRangeCheckpoint S f cp s))"
    and rollback: "R s (snd (st_RollbackFrom S f b s))"

context mempool_frame
begin

lemma frame_HandleTx:
  assumes "dp_Store D = S"
  shows "R (mw_store w) (mw_store (snd (HandleTx E D tx w)))"
proof -
  let ?t = "mw_tick w" let ?tx = "stamp (en_now E ?t) tx"
  obtain old T1 where seen: "track_seen (en_now E ?t) ?tx (mw_tracker w) = (old, T1)" by force
  define s1 where "s1 = (if old \<noteq> '''' then snd (st_MarkMempoolReplaced S (en_faults E (?t + 1)) (en_now E (?t + 1)) old
      (mt_Hash ?tx) (mw_store w)) else mw_store w)"
  have "mw_store (snd (HandleTx E D tx w)) = snd (st_UpsertMempoolTx S (en_faults E (?t + 2)) ?tx s1)"
    by (simp add: HandleTx_def seen Let_def assms s1_def split: prod.split option.split)
  moreover have "R (mw_store w) s1" by (simp add: s1_def replaced R_refl)
  ultimately show ?thesis using upsert R_trans by metis
qed

lemma frame_handleReceipt:
  assumes "dp_Store D = S"
  shows "R (mw_store w) (mw_store (handleReceipt E D h w))"
proof (cases "mined_info (rpc_GetTransactionReceipt (dp_RPC D) (mw_tick w) h)")
  case None
  then show ?thesis by (simp add: handleReceipt_def Let_def R_refl)
next
  case (Some mi)
  let ?m = "st_MarkMempoolMined S (en_faults E (mw_tick w + 1)) (en_now E (mw_tick w + 1)) h mi (mw_store w)"
  have "mw_store (handleReceipt E D h w) = snd ?m"
    using assms Some by (cases ?m) (simp add: handleReceipt_def Let_def split: option.split)
  with mined show ?thesis by simp
qed

lemma frame_drop_rows: "dp_Store D = S \<Longrightarrow> R s (snd (drop_rows E D hs t s))"
proof (induction hs arbitrary: t s)
  case (Cons h hs)
  from R_trans [OF dropped Cons.IH [OF Cons.prems]] Cons.prems show ?case by simp
qed (simp add: R_refl)

lemma frame_dropExpired: "dp_Store D = S \<Longrightarrow> R (mw_store w) (mw_store (dropExpired E D keys w))"
  using frame_drop_rows by (simp add: dropExpired_def Let_def split_beta)

lemma frame_fetch_worker:
  assumes "dp_Store D = S"
  shows "R (mw_store w) (mw_store (snd (fetch_worker E D (HandleTx E D) (F, w))))"
proof -
  have "R (mw_store w) (mw_store (snd (HandleTx E D m (w\<lparr>mw_tick := t\<rparr>))))" for m t
    using frame_HandleTx [OF assms, of "w\<lparr>mw_tick := t\<rparr>"] by simp
  then show ?thesis
    by (auto simp: fetch_worker_def handleHash_def R_refl split: list.splits prod.splits fetched.splits sum.splits)
qed

lemma frame_svc_handle:
  assumes "dp_Store D = S"
  shows "R (mw_store (sv_world s)) (mw_store (sv_world (svc_handle E D ev s)))"
proof (cases ev)
  case ForwardHash
  then show ?thesis by (simp add: svc_handle_def forward_hash_def R_refl split: list.split)
next
  case (ForwardHead keys)
  then show ?thesis by (simp add: svc_handle_def forward_head_def R_refl split: list.split)
next
  case FetchOne
  with frame_fetch_worker [OF assms, of "sv_world s" E "sv_fetcher s"] show ?thesis
    by (simp add: svc_handle_def split_beta)
next
  case ReceiptOne
  show ?thesis
  proof (cases "tk_receiptC (mw_tracker (sv_world s))")
    case (Cons h q)
    with ReceiptOne frame_handleReceipt [OF assms, of "(sv_world s)\<lparr>mw_tracker := (mw_tracker (sv_world s))\<lparr>tk_receiptC := q\<rparr>\<rparr>"]
    show ?thesis by (simp add: svc_handle_def receiptWorker_def)
  qed (simp add: ReceiptOne svc_handle_def receiptWorker_def R_refl)
qed (simp_all add: svc_handle_def R_refl frame_dropExpired assms)

lemma frame_svc_run:
  assumes "dp_Store D = S"
  shows "R (mw_store (sv_world s)) (mw_store (sv_world (svc_run E D evs s)))"
proof (induction evs arbitrary: s)
  case Nil
  then show ?case by (simp add: svc_run_def R_refl)
next
  case (Cons ev evs)
  from R_trans [OF frame_svc_handle [OF assms] Cons] show ?case by (simp add: svc_run_def)
qed

end

context index_frame
begin

lemma frame_range_iter:
  assumes S: "dp_Store D = S" "good_answers E D good" and it: "range_iter E D to st = (st', fl)"
  shows "R (wd_store (rs_world st)) (wd_store (rs_world st'))"
proof (cases "rpc_GetLogs (dp_RPC D) (wd_tick (rs_world st)) (chunk_filter E D to st)")
  case (Inl e)
  with it show ?thesis by (auto simp: range_iter_def Let_def R_refl split: if_splits)
next
  case (Inr logs)
  let ?s = "wd_store (rs_world st)"
  obtain rr c t where br: "buildRecords E D (rs_cache st) (Suc (wd_tick (rs_world st))) logs = (rr, c, t)"
    by (metis prod_cases3)
  have sc: "store_chunk E D to st logs = (st', fl)" using it Inr by (simp add: range_iter_def)
  show ?thesis
  proof (cases rr)
    case (Inl e)
    with sc br show ?thesis by (auto simp: store_chunk_def Let_def R_refl)
  next
    case (Inr recs)
    obtain r1 s1 where ins: "st_InsertLogs S (en_faults E t) recs ?s = (r1, s1)" by (metis surj_pair)
    moreover have "good l" if "l \<in> set recs" for l
      using S(2) \<open>rpc_GetLogs _ _ _ = Inr logs\<close> br that unfolding good_answers_def Inr by blast
    ultimately have R1: "R ?s s1" using insert_logs [of recs ?s] by (metis snd_conv)
    show ?thesis
    proof (cases "r1 = None \<and> (\<exists>header. rpc_GetBlockByNumber (dp_RPC D) (Suc t) (chunk_end to st) = Inr header)")
      case False
      then have "wd_store (rs_world st') = s1"
        using sc br Inr S(1) ins
        by (cases r1; cases "rpc_GetBlockByNumber (dp_RPC D) (Suc t) (chunk_end to st)")
          (auto simp: store_chunk_def Let_def)
      with R1 show ?thesis by simp
    next
      case True
      then obtain header where h: "r1 = None" "rpc_GetBlockByNumber (dp_RPC D) (Suc t) (chunk_end to st) = Inr header"
        by blast
      let ?cp = "\<lparr>cp_ID = 0, cp_StartBlock = rs_current st, cp_EndBlock = chunk_end to st,
        cp_BlockHash = bh_Hash header, cp_InsertedAt = en_now E (t + 2)\<rparr>"
      obtain r2 s2 where sv: "st_SaveRangeCheckpoint S (en_faults E (t + 3)) ?cp s1 = (r2, s2)" by (metis surj_pair)
      with save [of s1] have "R s1 s2" by (metis snd_conv)
      moreover have "wd_store (rs_world st') = s2"
        using sc br Inr S(1) ins h sv by (cases r2) (auto simp: store_chunk_def Let_def)
      ultimately show ?thesis using R1 R_trans by metis
    qed
  qed
qed

lemma frame_range:
  assumes S: "dp_Store D = S" "good_answers E D good" and "processRangeAdaptive E D ch lo to w = Some (st, r)"
  shows "R (wd_store w) (wd_store (rs_world st))"
proof (rule range_loop_rule(1) [OF assms(3) [unfolded processRangeAdaptive_def]])
  show "R (wd_store w) (wd_store (rs_world (range_start ch lo w)))" by (simp add: range_start_def R_refl)
qed (blast intro: R_trans frame_range_iter [OF S])

lemma frame_follow_index:
  assumes S: "dp_Store D = S" "good_answers E D good" and fi: "follow_index E cfg D st = Some (st', fl)"
  shows "R (wd_store (fs_world st)) (wd_store (fs_world st'))"
proof -
  have "R (wd_store (fs_world st)) (wd_store (rs_world rs))"
    if "processRangeAdaptive E D ch lo to ((fs_world st)\<lparr>wd_tick := t, wd_metrics := m\<rparr>) = Some (rs, r)"
    for rs r ch lo to t m
    using frame_range [OF S that] by simp
  with fi show ?thesis
    by (auto simp: follow_index_def Let_def R_refl split: sum.splits if_splits option.splits)
qed

lemma frame_follow_pass:
  assumes S: "dp_Store D = S" "good_answers E D good" and "follow_pass E cfg D st = Some (st', fl)"
  shows "R (wd_store (fs_world st)) (wd_store (fs_world st'))"
  using assms(3)
proof (cases rule: follow_pass_cases)
  case stopped
  then show ?thesis by (simp add: R_refl)
next
  case (checked t)
  from frame_follow_index [OF S this] show ?thesis by simp
next
  case (rollback_failed e e' f u x)
  with rollback [of "wd_store (fs_world st)" f x] S(1) show ?thesis by simp
next
  case (rolled_back t f u x s1)
  with rollback [of "wd_store (fs_world st)" f x] S(1) have "R (wd_store (fs_world st)) s1" by simp
  moreover have "R s1 (wd_store (fs_world st'))" using frame_follow_index [OF S rolled_back(3)] by simp
  ultimately show ?thesis by (rule R_trans)
qed

lemma frame_follow_reaches:
  assumes S: "dp_Store D = S" "good_answers E D good" and "follow_reaches E cfg D w st"
  shows "R (wd_store w) (wd_store (fs_world st))"
  using assms(3)
proof (induction rule: follow_reaches.induct)
  case (started st)
  then show ?case by (auto simp: follow_init_def R_refl split: sum.splits)
next
  case (passed st st')
  from R_trans [OF passed(3) frame_follow_pass [OF S passed(2)]] show ?case .
qed

lemma frame_Follow:
  assumes S: "dp_Store D = S" "good_answers E D good" and "Follow E cfg D w = Some (w', e)"
  shows "R (wd_store w) (wd_store w')"
  using follow_returns [OF assms(3)] frame_follow_reaches [OF S] frame_follow_pass [OF S]
  by (metis R_refl R_trans)

lemma frame_bf_step:
  assumes S: "dp_Store D = S" "good_answers E D good" and "bf_step E cfg D hi s s'"
  shows "R (wd_store (bf_world s)) (wd_store (bf_world s'))"
  using assms(3)
proof (cases rule: bf_step.cases)
  case (pass i ch r cur c)
  let ?st = "worker_state ch cur c (bf_world s)"
  obtain st fl where it: "range_iter E D (rg_To r) ?st = (st, fl)" by (metis surj_pair)
  then have "bf_world s' = rs_world st" using pass by (cases fl) (simp_all add: worker_pass_def)
  with frame_range_iter [OF S it] show ?thesis by (simp add: worker_state_def)
qed (simp_all add: R_refl take_job_def)

lemma frame_Backfill:
  assumes S: "dp_Store D = S" "good_answers E D good" and "Backfill_returns E cfg D f t w w' r"
  shows "R (wd_store w) (wd_store w')"
proof -
  have re: "bf_reaches E cfg D hi s0 s \<Longrightarrow> R (wd_store (bf_world s0)) (wd_store (bf_world s))" for hi s0 s
    by (induction rule: bf_reaches.induct) (auto intro: R_refl R_trans frame_bf_step [OF S])
  from assms(3) show ?thesis
    by cases (auto simp: R_refl backfill_start_def dest!: re)
qed

end

section \<open>The tables\<close>

text \<open>The rows of the index, and the rows of the mempool table, are as they were.\<close>

definition same_index :: "db \<Rightarrow> db \<Rightarrow> bool" where
  "same_index s s' \<longleftrightarrow> d_logs s' = d_logs s \<and> d_cps s' = d_cps s"

definition same_mempool :: "db \<Rightarrow> db \<Rightarrow> bool" where
  "same_mempool s s' \<longleftrightarrow> d_mem s' = d_mem s"

interpretation sqlite_mempool: mempool_frame sqlite_store same_index
  by unfold_locales (auto simp: same_index_def sqlite_store_def sqlite_UpsertMempoolTx_def sqlite_MarkMempoolMined_def
      sqlite_MarkMempoolReplaced_def sqlite_MarkMempoolDropped_def split: option.splits if_splits)

interpretation pg_mempool: mempool_frame pg_store same_index
  by unfold_locales (auto simp: same_index_def pg_store_def pg_UpsertMempoolTx_def pg_MarkMempoolMined_def
      pg_MarkMempoolReplaced_def pg_MarkMempoolDropped_def split: option.splits if_splits)

interpretation sqlite_index: index_frame sqlite_store same_mempool "\<lambda>l. True"
  by unfold_locales (auto simp: same_mempool_def sqlite_store_def sqlite_InsertLogs_def sqlite_SaveRangeCheckpoint_def
      sqlite_RollbackFrom_def Let_def split: option.splits sum.splits if_splits)

interpretation pg_index: index_frame pg_store same_mempool "\<lambda>l. True"
  by unfold_locales (auto simp: same_mempool_def pg_store_def pg_InsertLogs_def pg_SaveRangeCheckpoint_def
      pg_RollbackFrom_def Let_def split: option.splits sum.splits if_splits)

text \<open>Both stores: what follows needs only that the store is one of them.\<close>

lemma store_mempool_frame: "a_store S \<Longrightarrow> mempool_frame S same_index"
  using sqlite_mempool.mempool_frame_axioms pg_mempool.mempool_frame_axioms by (auto simp: a_store_def)

lemma store_index_frame: "a_store S \<Longrightarrow> index_frame S same_mempool (\<lambda>l. True)"
  using sqlite_index.index_frame_axioms pg_index.index_frame_axioms by (auto simp: a_store_def)

section \<open>Log indexes that fit the drivers\<close>

text \<open>
  With a node that numbers logs below \<open>2 ^ 63\<close>, no larger index ever reaches the table, so every row
  can be read back.
\<close>

definition small_rows :: "db \<Rightarrow> bool" where
  "small_rows s \<longleftrightarrow> (\<forall>r \<in> set (d_logs s). fits_int64 (w_log_index r))"

definition keeps_small :: "db \<Rightarrow> db \<Rightarrow> bool" where
  "keeps_small s s' \<longleftrightarrow> small_rows s \<longrightarrow> small_rows s'"

lemma small_inserts:
  "exec_inserts chk f i ls rows = Inr rows' \<Longrightarrow> (\<And>l. l \<in> set ls \<Longrightarrow> fits_int64 (lr_LogIndex l)) \<Longrightarrow>
   \<forall>r \<in> set rows. fits_int64 (w_log_index r) \<Longrightarrow> \<forall>r \<in> set rows'. fits_int64 (w_log_index r)"
proof (induction ls arbitrary: i rows)
  case Nil
  then show ?case by simp
next
  case (Cons l ls)
  from Cons.prems(1) have "exec_inserts chk f (Suc i) ls (sql_insert_log (row_of_log l) rows) = Inr rows'"
    by (auto split: option.splits)
  moreover have "w_log_index (row_of_log l) = lr_LogIndex l" by (simp add: row_of_log_def)
  then have "\<forall>r \<in> set (sql_insert_log (row_of_log l) rows). fits_int64 (w_log_index r)"
    using Cons.prems(2,3) by (auto simp: sql_insert_log_def)
  ultimately show ?case using Cons.IH Cons.prems(2) by simp
qed

lemma keeps_subset: "set (d_logs s') \<subseteq> set (d_logs s) \<Longrightarrow> keeps_small s s'"
  unfolding keeps_small_def small_rows_def by blast

lemma keeps_inserted:
  assumes "d_logs s' = d_logs s \<or> exec_inserts chk f i ls (d_logs s) = Inr (d_logs s')"
    and "\<And>l. l \<in> set ls \<Longrightarrow> fits_int64 (lr_LogIndex l)"
  shows "keeps_small s s'"
  using assms(1)
proof
  assume "exec_inserts chk f i ls (d_logs s) = Inr (d_logs s')"
  from small_inserts [OF this assms(2)] show ?thesis by (simp add: keeps_small_def small_rows_def)
qed (simp add: keeps_subset)

lemma inserted_rows:
  "d_logs (snd (sqlite_InsertLogs f ls s)) = d_logs s
     \<or> exec_inserts sqlite_log_args f 2 ls (d_logs s) = Inr (d_logs (snd (sqlite_InsertLogs f ls s)))"
  "d_logs (snd (pg_InsertLogs f ls s)) = d_logs s
     \<or> exec_inserts pg_log_args f 2 ls (d_logs s) = Inr (d_logs (snd (pg_InsertLogs f ls s)))"
  by (simp_all add: sqlite_InsertLogs_def pg_InsertLogs_def split: option.split sum.split)

lemma subset_rows:
  "set (d_logs (snd (sqlite_SaveRangeCheckpoint f cp s))) \<subseteq> set (d_logs s)"
  "set (d_logs (snd (pg_SaveRangeCheckpoint f cp s))) \<subseteq> set (d_logs s)"
  "set (d_logs (snd (sqlite_RollbackFrom f b s))) \<subseteq> set (d_logs s)"
  "set (d_logs (snd (pg_RollbackFrom f b s))) \<subseteq> set (d_logs s)"
  by (auto simp: sqlite_SaveRangeCheckpoint_def pg_SaveRangeCheckpoint_def sqlite_RollbackFrom_def
      pg_RollbackFrom_def Let_def split: option.splits)

lemma keeps_small_order: "keeps_small s s" "keeps_small s1 s2 \<Longrightarrow> keeps_small s2 s3 \<Longrightarrow> keeps_small s1 s3"
  by (simp_all add: keeps_small_def)

interpretation sqlite_small: index_frame sqlite_store keeps_small "\<lambda>l. fits_int64 (lr_LogIndex l)"
  by unfold_locales (simp_all add: sqlite_store_def keeps_small_order(1) keeps_subset subset_rows
      keeps_inserted [OF inserted_rows(1)], rule keeps_small_order(2))

interpretation pg_small: index_frame pg_store keeps_small "\<lambda>l. fits_int64 (lr_LogIndex l)"
  by unfold_locales (simp_all add: pg_store_def keeps_small_order(1) keeps_subset subset_rows
      keeps_inserted [OF inserted_rows(2)], rule keeps_small_order(2))

lemma store_small_frame: "a_store S \<Longrightarrow> index_frame S keeps_small (\<lambda>l. fits_int64 (lr_LogIndex l))"
  using sqlite_small.index_frame_axioms pg_small.index_frame_axioms by (auto simp: a_store_def)

section \<open>Whole processes\<close>

lemma any_answers: "good_answers E D (\<lambda>l. True)"
  by (simp add: good_answers_def)

lemma same_rows_tables: "same_rows s s1 \<longleftrightarrow> same_index s s1 \<and> same_mempool s s1"
  by (simp add: same_rows_def same_index_def same_mempool_def)

lemma started_rows: "indexer_main C args s = (x, s1) \<Longrightarrow> same_rows s s1"
  using main_cases by blast

lemma started_store: "indexer_main C args s = (Inr x, s1) \<Longrightarrow> a_store (dp_Store (op_deps x))"
  by (rule started)

lemma service_start_store: "service_start cfg dec di tr ttl pw rw s = Inr s0 \<Longrightarrow> mw_store (sv_world s0) = s"
  by (auto simp: service_start_def and_then_Inr split: if_splits)

lemma start_world_store [simp]: "wd_store (start_world s) = s"
  by (simp add: start_world_def)

lemma backfill_mempool:
  assumes m: "indexer_main C args s = (Inr (RunBackfill cfg D f t), s1)"
    and b: "Backfill_returns E cfg D f t (start_world s1) w r"
  shows "same_mempool s (wd_store w)"
proof -
  have "a_store (dp_Store D)" using started_store [OF m] by simp
  from index_frame.frame_Backfill [OF store_index_frame [OF this] HOL.refl any_answers b]
  show ?thesis using started_rows [OF m] by (simp add: same_rows_tables same_mempool_def)
qed

lemma follow_mempool:
  assumes m: "indexer_main C args s = (Inr (RunFollow cfg D), s1)"
    and f: "Follow E cfg D (start_world s1) = Some (w, e)"
  shows "same_mempool s (wd_store w)"
proof -
  have "a_store (dp_Store D)" using started_store [OF m] by simp
  from index_frame.frame_Follow [OF store_index_frame [OF this] HOL.refl any_answers f]
  show ?thesis using started_rows [OF m] by (simp add: same_rows_tables same_mempool_def)
qed

lemma service_index:
  assumes m: "indexer_main C args s = (Inr (RunMempool cfg D di tr ttl pw rw), s1)"
    and b: "service_start cfg dec di tr ttl pw rw s1 = Inr s0"
  shows "same_index s (mw_store (sv_world (svc_run E D evs s0)))"
proof -
  have "a_store (dp_Store D)" using started_store [OF m] by simp
  from mempool_frame.frame_svc_run [OF store_mempool_frame [OF this] HOL.refl, of s0 E evs]
  show ?thesis using started_rows [OF m] service_start_store [OF b] by (simp add: same_rows_tables same_index_def)
qed

lemma demo_cli_run:
  "indexer_run demo_cli [''index'', ''backfill'', ''--config'', ''c'', ''--from'', show_nat 0, ''--to'', show_nat 0]
     empty_db (wd_store (bf_world (demo_bf demo_schema 6))) 0"
proof -
  have w: "start_world (empty_db\<lparr>d_schema := demo_schema\<rparr>) = schema_world demo_schema"
    by (simp add: start_world_def schema_world_def)
  have "Backfill_returns (ce_env demo_cli) sample_validated (demo_deps 2 6) None None
      (start_world (empty_db\<lparr>d_schema := demo_schema\<rparr>)) (bf_world (demo_bf demo_schema 6)) None"
    unfolding w using demo_backfill [of demo_schema] by (simp add: demo_cli_def)
  from indexer_run.backfilled [OF demo_cli_backfill this] show ?thesis by (simp add: exit_status_def)
qed

section \<open>A run of the process\<close>

lemma cli_apart:
  assumes "indexer_run C args s s' n"
  shows "case fst (indexer_main C args s) of
      Inl n \<Rightarrow> same_rows s s'
    | Inr (RunMempool cfg D di tr ttl pw rw) \<Rightarrow> same_index s s'
    | Inr (RunBackfill cfg D f t) \<Rightarrow> same_mempool s s'
    | Inr (RunFollow cfg D) \<Rightarrow> same_mempool s s'"
  using assms
proof (cases rule: indexer_run.cases)
  case left
  from started_rows [OF this] this show ?thesis by simp
next
  case (backfilled cfg D f t s1 w r)
  with backfill_mempool [OF backfilled(3,4)] show ?thesis by simp
next
  case (followed cfg D s1 w e)
  with follow_mempool [OF followed(3,4)] show ?thesis by simp
next
  case (refused cfg D di tr ttl pw rw e)
  from started_rows [OF refused(2)] refused show ?thesis by (simp add: same_rows_tables)
next
  case (served cfg D di tr ttl pw rw s1 s0 evs)
  with service_index [OF served(3,4)] show ?thesis by simp
qed

text \<open>
  C33. The two halves of the program do not touch each other's tables.  Whatever the arguments, the
  configuration and the faults of the database and the nodes, a run of \<open>index backfill\<close> or
  \<open>index follow\<close> leaves every row of the mempool table as it was, a run of the mempool service
  leaves the logs and the checkpoints of the index as they were, and a run that ends before an
  operation starts (also \<open>db migrate\<close>) changes no row at all.
\<close>

theorem cli_tables_apart:
  assumes "indexer_run C args s s' n"
  shows "case fst (indexer_main C args s) of
      Inl n \<Rightarrow> same_rows s s'
    | Inr (RunMempool cfg D di tr ttl pw rw) \<Rightarrow> same_index s s'
    | Inr (RunBackfill cfg D f t) \<Rightarrow> same_mempool s s'
    | Inr (RunFollow cfg D) \<Rightarrow> same_mempool s s'"
  by (rule cli_apart [OF assms])

theorem cli_tables_apart_witness:
  "\<exists>s'. indexer_run demo_cli [''index'', ''backfill'', ''--config'', ''c'', ''--from'', show_nat 0, ''--to'', show_nat 0]
      empty_db s' 0 \<and> same_mempool empty_db s'"
proof -
  let ?args = "[''index'', ''backfill'', ''--config'', ''c'', ''--from'', show_nat 0, ''--to'', show_nat 0]"
  from cli_tables_apart [OF demo_cli_run] demo_cli_run show ?thesis by (auto simp: demo_cli_backfill)
qed

end
