(* ===== verification/Runs.thy ===== *)
theory Runs
  imports Process
begin

text \<open>
  Any number of runs of the process on one database, one after the other: a complete backfill, the
  follower, the mempool service, migrations and failed starts.  Whatever the nodes answer and the
  database refuses meanwhile, the follower always resumes where the index ends.
\<close>

section \<open>Sequences of processes\<close>

text \<open>
  One process after the other; \<open>A\<close> restricts each: its environment, the database it starts on, what
  its arguments resolve to (an exit or an operation) and its exit status.
\<close>

inductive runs :: "('v cli_env \<Rightarrow> db \<Rightarrow> int + operation \<Rightarrow> int \<Rightarrow> bool) \<Rightarrow>
    ('v cli_env \<times> string list) list \<Rightarrow> db \<Rightarrow> db \<Rightarrow> bool"
  for A where
  none: "runs A [] s s"
| another: "A C s (fst (indexer_main C args s)) n \<Longrightarrow> indexer_run C args s s1 n \<Longrightarrow> runs A ps s1 s' \<Longrightarrow>
    runs A ((C, args) # ps) s s'"

inductive_simps runs_simps: "runs A [] s s'" "runs A (p # ps) s s'"

text \<open>
  A process that follows the chain from block \<open>a\<close>, fills an empty index from block \<open>a\<close> and
  succeeds without being cancelled, or does not index at all.
\<close>

fun extends :: "nat \<Rightarrow> 'v cli_env \<Rightarrow> db \<Rightarrow> int + operation \<Rightarrow> int \<Rightarrow> bool" where
  "extends a C s (Inr (RunFollow cfg D)) n \<longleftrightarrow> unat (ix_StartBlock (cf_Indexer cfg)) = a
     \<and> growth_ok (ix_MaxChunkSize (cf_Indexer cfg)) \<and> heads_ok D"
| "extends a C s (Inr (RunBackfill cfg D f t)) n \<longleftrightarrow> db_cps s = [] \<and> n = 0
     \<and> (\<forall>u. \<not> en_cancelled (ce_env C) u) \<and> growth_ok (ix_MaxChunkSize (cf_Indexer cfg))
     \<and> (\<exists>start hi. backfill_range cfg D f t 0 = Inr (start, hi) \<and> unat start = a \<and> start \<le> hi
          \<and> range_fits cfg hi)"
| "extends a C s (Inr (RunMempool cfg D di tr ttl pw rw)) n \<longleftrightarrow> True"
| "extends a C s (Inl m) n \<longleftrightarrow> True"

section \<open>The index between the runs\<close>

lemma index_on_same: "same_index s s' \<Longrightarrow> index_on a P s' \<longleftrightarrow> index_on a P s"
  by (simp add: same_index_def index_on_def db_view_defs)

lemma run_follow_on:
  assumes m: "indexer_main C args s = (Inr (RunFollow cfg D), s1)" and run: "indexer_run C args s s' n"
    and ex: "extends a C s (Inr (RunFollow cfg D)) n" and ix: "index_on a below_max s"
  shows "index_on a below_max s'"
proof -
  from run m obtain w e where f: "Follow (ce_env C) cfg D (start_world s1) = Some (w, e)"
    and s': "s' = wd_store w" by (elim indexer_runE) auto
  have a: "unat (ix_StartBlock (cf_Indexer cfg)) = a"
    and g: "growth_ok (ix_MaxChunkSize (cf_Indexer cfg))" and h: "heads_ok D"
    using ex by simp_all
  have "index_on a below_max (wd_store (start_world s1))"
    using started_rows [OF m] ix by (simp add: same_rows_tables index_on_same [of s s1])
  from Follow_index_on [OF started(2,1) [OF m, simplified] g h this [folded a] confirmed_below [OF h] order.refl f]
  show ?thesis by (simp add: a s')
qed

lemma run_backfill_on:
  assumes m: "indexer_main C args s = (Inr (RunBackfill cfg D f t), s1)" and run: "indexer_run C args s s' n"
    and ex: "extends a C s (Inr (RunBackfill cfg D f t)) n" and ix: "index_on a below_max s"
  shows "index_on a below_max s'"
proof -
  from run m obtain w r where b: "Backfill_returns (ce_env C) cfg D f t (start_world s1) w r"
    and s': "s' = wd_store w" and n: "n = exit_status r" by (elim indexer_runE) auto
  from ex n have r: "r = None" by (simp add: exit_status_def split: option.splits)
  from ex obtain start hi where h: "backfill_range cfg D f t 0 = Inr (start, hi)" "unat start = a" "start \<le> hi"
    "range_fits cfg hi" by auto
  note pre = started [OF m, simplified]
  have w0: "wd_tick (start_world s1) = 0" by (simp add: start_world_def)
  have iv: "db_inv s" and e: "db_cps s = []" using ix ex by (simp_all add: index_on_def)
  have inv: "db_inv s'"
    using Backfill_covered(1) [of D "start_world s1" cfg f t start hi "ce_env C" w r] pre h b ex iv s' w0 by simp
  note T = Backfill_tiled [of D "start_world s1" cfg f t start hi "ce_env C" w]
  have tl: "tiled (unat start) (db_cps s') (unat hi + 1)"
    using T(1) pre h b r ex iv e s' w0 by simp
  have hi: "cp_EndBlock c \<le> hi" if "c \<in> set (db_cps s')" for c
    using T(2) [of c] pre h b r ex iv e s' w0 that by simp
  have "below_max c" if "c \<in> set (db_cps s')" for c
    using hi [OF that] range_fits_below [OF pre(1) h(4)] by (simp add: below_max_def u64_le_iff)
  with inv tl h(2) show ?thesis by (auto simp: index_on_def)
qed

lemma run_index_on:
  assumes run: "indexer_run C args s s' n" and ex: "extends a C s (fst (indexer_main C args s)) n"
    and ix: "index_on a below_max s"
  shows "index_on a below_max s'"
proof (cases "fst (indexer_main C args s)")
  case (Inl m)
  with cli_apart [OF run] ix show ?thesis by (simp add: same_rows_tables index_on_same [of s s'])
next
  case (Inr x)
  then obtain s1 where m: "indexer_main C args s = (Inr x, s1)" by (metis prod.collapse)
  show ?thesis
  proof (cases x)
    case (RunFollow cfg D)
    with run_follow_on [OF _ run _ ix] m ex show ?thesis by simp
  next
    case (RunBackfill cfg D f t)
    with run_backfill_on [OF _ run _ ix] m ex show ?thesis by simp
  next
    case RunMempool
    with Inr cli_apart [OF run] ix show ?thesis by (simp add: index_on_same [of s s'])
  qed
qed

lemma runs_index_on:
  "runs (extends a) ps s s' \<Longrightarrow> index_on a below_max s \<Longrightarrow> index_on a below_max s'"
  by (induction rule: runs.induct) (blast intro: run_index_on)+

text \<open>
  C3. The index survives any history of processes.  Start with an empty index and run any number of
  processes: backfills of the empty index from block \<open>a\<close> that succeed, followers from block \<open>a\<close>, the
  mempool service, migrations and failed starts; the nodes, configurations, faults and moments of
  cancellation may differ from run to run.  Whenever the follower of a later process is at the head
  of its loop, the checkpoints, sorted by their start, tile the blocks from \<open>a\<close> to just below the
  next block it indexes, without a gap or an overlap.
\<close>

theorem index_restarts:
  assumes "runs (extends a) ps s s'" and "db_inv s" and "db_cps s = []"
    and "indexer_main C args s' = (Inr (RunFollow cfg D), s1)" and "extends a C s' (Inr (RunFollow cfg D)) n"
    and "follow_reaches (ce_env C) cfg D (start_world s1) st"
  shows "tiled a (db_cps (wd_store (fs_world st))) (unat (fs_start st))"
proof -
  have a: "unat (ix_StartBlock (cf_Indexer cfg)) = a"
    and g: "growth_ok (ix_MaxChunkSize (cf_Indexer cfg))" and h: "heads_ok D"
    using assms(5) by simp_all
  note pre = started [OF assms(4), simplified]
  have "index_on a below_max s" using assms(2,3) by (simp add: index_on_def)
  from runs_index_on [OF assms(1) this] have "index_on a below_max (wd_store (start_world s1))"
    using started_rows [OF assms(4)] by (simp add: same_rows_tables index_on_same [of s' s1])
  moreover have "growth_ok (ch_max (cfg_chunker cfg))" using g cfg_chunker_validated [OF pre(1)] by simp
  ultimately show ?thesis
    using follow_reaches_inv [OF assms(6) pre(2) _ order.refl _ h confirmed_below [OF h]] a
    by (simp add: follow_inv_def)
qed

text \<open>
  What the theorem cannot promise: \<open>Follow\<close> resumes after the newest checkpoint, whatever is missing
  before it.  A backfill that fails or is stopped half-way may leave holes between the chunks of its
  workers, and a follower that runs next never fills them.
\<close>

lemma holes_stay:
  assumes "a_store (dp_Store D)" and "db_inv (wd_store w)" and "db_cps (wd_store w) \<noteq> []"
    and "follow_init E cfg D w = Inr st"
  shows "\<exists>c \<in> set (db_cps (wd_store w)). fs_start st = cp_EndBlock c + 1
    \<and> (\<forall>d \<in> set (db_cps (wd_store w)). cp_EndBlock d \<le> cp_EndBlock c)"
proof -
  from assms(4) obtain r where l: "st_LastCheckpoint (dp_Store D) (en_faults E (wd_tick w)) (wd_store w) = Inr r"
    and st: "fs_start st = (case r of None \<Rightarrow> ix_StartBlock (cf_Indexer cfg) | Some c \<Rightarrow> cp_EndBlock c + 1)"
    by (auto simp: follow_init_def split: sum.splits)
  from a_store_last [OF assms(1,2) l] assms(3) st show ?thesis
    by (auto simp: last_of_def split: option.splits)
qed

section \<open>Two runs\<close>

text \<open>The first process indexes block 6 and is stopped; the second starts after it.\<close>

definition demo_follower :: "string cli_env" where
  "demo_follower = demo_cli\<lparr>ce_env := demo_stop\<rparr>"

definition follow_args :: "string list" where
  "follow_args = [''index'', ''follow'', ''--config=c'']"

lemma demo_main:
  assumes "mustBuildDeps demo_follower sample_validated s = (Inr D, s1)"
  shows "indexer_main demo_follower follow_args s = (Inr (RunFollow sample_validated D), s1)"
proof -
  have a: "flag_arg ''--config=c'' = Flag ''config'' (Some ''c'')" by (simp add: flag_arg_def)
  have "Load (ce_readFile demo_follower) (ce_yaml demo_follower) ''c'' = Inr sample_validated"
    by (simp add: demo_follower_def demo_cli_def Load_def sample_validates)
  then have "start_command demo_follower config_flags [''--config=c''] =
      Inr (sample_validated, config_flags(''config'' \<mapsto> VString ''c''))"
    by (simp add: start_command_def mustLoadConfig_def a config_flags_def flag_Set_def flag_string_def)
  with assms show ?thesis by (simp add: indexer_main_def handleIndex_def follow_args_def)
qed

lemma demo_migrate_any: "\<exists>q. sqlite_Migrate no_faults d = (None, d\<lparr>d_schema := q\<rparr>)"
proof -
  have "fst (exec_schema no_faults i qs d) = None" for i qs and d :: db
    by (induction qs arbitrary: i d) (simp_all add: no_faults_def)
  then obtain d' where d': "sqlite_Migrate no_faults d = (None, d')"
    unfolding sqlite_Migrate_def by (metis prod.collapse)
  with exec_schema_frame [of no_faults 0 sqlite_schema d] have "d' = d\<lparr>d_schema := d_schema d'\<rparr>"
    by (cases d; cases d') (simp add: sqlite_Migrate_def)
  with d' show ?thesis by metis
qed

lemma demo_start:
  "\<exists>q. indexer_main demo_follower follow_args d = (Inr (RunFollow sample_validated (demo_deps 2 6)), d\<lparr>d_schema := q\<rparr>)"
proof -
  obtain q where "st_Migrate sqlite_store no_faults d = (None, d\<lparr>d_schema := q\<rparr>)"
    using demo_migrate_any by (auto simp: sqlite_store_def)
  then have "mustBuildDeps demo_follower sample_validated d = (Inr (demo_deps 2 6), d\<lparr>d_schema := q\<rparr>)"
    by (simp add: mustBuildDeps_def open_migrate_load_def sample_parts store_New_def NewSQLite_def demo_load
        demo_deps_def Let_def demo_logger demo_follower_def demo_cli_def demo_stop_def)
  from demo_main [OF this] show ?thesis by blast
qed

lemma demo_resumes:
  assumes "map (\<lambda>c. (cp_StartBlock c, cp_EndBlock c)) (db_cps s) = [(6, 6)]"
  shows "\<exists>st. follow_init demo_stop sample_validated (demo_deps 2 6) (start_world (s\<lparr>d_schema := q\<rparr>)) = Inr st
    \<and> fs_start st = 7"
proof -
  from assms obtain r where "d_cps s = [r]" "cp_EndBlock (cp_of_row r) = 6" by (auto simp: db_view_defs)
  then show ?thesis
    by (simp add: follow_init_def sqlite_store_def sqlite_LastCheckpoint_def scanCheckpoint_def no_faults_def)
qed

theorem index_restarts_witness:
  "\<exists>s1 s2 st. runs (extends 6) [(demo_follower, follow_args)] empty_db s1
    \<and> indexer_main demo_follower follow_args s1 = (Inr (RunFollow sample_validated (demo_deps 2 6)), s2)
    \<and> follow_reaches demo_stop sample_validated (demo_deps 2 6) (start_world s2) st
    \<and> fs_start st = 7 \<and> tiled 6 (db_cps (wd_store (fs_world st))) 7"
proof -
  let ?D = "demo_deps 2 6"
  obtain q where m: "indexer_main demo_follower follow_args empty_db
      = (Inr (RunFollow sample_validated ?D), empty_db\<lparr>d_schema := q\<rparr>)" using demo_start by blast
  let ?s1 = "wd_store (fs_world (demo_follow1 q))"
  have w: "start_world (empty_db\<lparr>d_schema := q\<rparr>) = schema_world q"
    by (simp add: start_world_def schema_world_def)
  have fo: "extends 6 demo_follower d (Inr (RunFollow sample_validated ?D)) 1" for d
    using demo_follow_pre(3,4) by (simp add: sample_simps)
  have env: "ce_env demo_follower = demo_stop" by (simp add: demo_follower_def)
  have run: "indexer_run demo_follower follow_args empty_db ?s1 1"
    using indexer_run.followed [OF m, of "fs_world (demo_follow1 q)" ErrCanceled] demo_follow_returns [of q]
    by (simp add: env w exit_status_def)
  have "extends 6 demo_follower empty_db (fst (indexer_main demo_follower follow_args empty_db)) 1"
    using fo [of empty_db] m by simp
  from runs.another [of "extends 6", OF this run] runs.none
  have rs: "runs (extends 6) [(demo_follower, follow_args)] empty_db ?s1" by blast
  obtain q2 where m2: "indexer_main demo_follower follow_args ?s1
      = (Inr (RunFollow sample_validated ?D), ?s1\<lparr>d_schema := q2\<rparr>)" using demo_start by blast
  obtain st where st: "follow_init demo_stop sample_validated ?D (start_world (?s1\<lparr>d_schema := q2\<rparr>)) = Inr st"
    and b: "fs_start st = 7" using demo_resumes [OF demo_follow_pass(4)] by blast
  from follow_reaches.started [OF st]
  have re: "follow_reaches demo_stop sample_validated ?D (start_world (?s1\<lparr>d_schema := q2\<rparr>)) st"
    .
  have e: "db_inv empty_db" "db_cps empty_db = []" by (simp_all add: empty_db_def db_view_defs)
  from index_restarts [OF rs e m2 fo re [folded env]] have tl: "tiled 6 (db_cps (wd_store (fs_world st))) 7" using b by simp
  show ?thesis by (intro exI conjI) (rule rs m2 re b tl)+
qed

end
