(* ===== verification/Twins.thy ===== *)
theory Twins
  imports Follow Backfill
begin

text \<open>
  The database is exchangeable.  Two stores that answer the indexer alike give the same runs: the
  same ranges, the same followers, the same backfills with the same results and the same tables.
  SQLite and PostgreSQL are such stores, for logs with an index below \<open>2 ^ 63\<close>.
\<close>

section \<open>Stores that answer alike\<close>

locale twin_stores =
  fixes S S' :: "'s Store" and good :: "LogRecord \<Rightarrow> bool"
  assumes insert_twin: "(\<And>l. l \<in> set ls \<Longrightarrow> good l) \<Longrightarrow> st_InsertLogs S' f ls s = st_InsertLogs S f ls s"
    and save_twin: "st_SaveRangeCheckpoint S' f c s = st_SaveRangeCheckpoint S f c s"
    and last_twin: "st_LastCheckpoint S' f s = st_LastCheckpoint S f s"
    and before_twin: "st_CheckpointBefore S' f b s = st_CheckpointBefore S f b s"
    and rollback_twin: "st_RollbackFrom S' f b s = st_RollbackFrom S f b s"

lemma buildRecords_store [simp]: "buildRecords E (D\<lparr>dp_Store := S\<rparr>) c t logs = buildRecords E D c t logs"
  by (induction logs arbitrary: c t) (simp_all add: Let_def make_record_def split: sum.split prod.split)

text \<open>The loops depend on the store only through their passes.\<close>

lemma range_loop_same:
  assumes "\<And>st. range_iter E D' to st = range_iter E D to st" and "range_loop E D to st = Some out"
  shows "range_loop E D' to st = Some out"
proof -
  define P where "P E1 D1 to1 st out \<longleftrightarrow> (E1 = E \<and> D1 = D \<and> to1 = to \<longrightarrow> range_loop E D' to st = Some out)"
    for E1 D1 to1 st and out :: "'a RangeState \<times> go_error option"
  have "P E D to st out"
  proof (rule range_loop.raw_induct [of P, OF _ assms(2)])
    fix f E1 D1 to1 st out
    assume IH: "\<And>E1 D1 to1 st out. f E1 D1 to1 st = Some out \<Longrightarrow> P E1 D1 to1 st out"
      and eq: "(if rs_current st \<le> to1 then
          (case range_iter E1 D1 to1 st of (st', Next) \<Rightarrow> f E1 D1 to1 st'
           | (st', Fail e) \<Rightarrow> Some (st', Some e))
        else Some (st, None)) = Some out"
    show "P E1 D1 to1 st out"
      unfolding P_def
    proof (intro impI, elim conjE)
      assume E: "E1 = E" "D1 = D" "to1 = to"
      show "range_loop E D' to st = Some out"
        using eq IH [of E D to] unfolding E
        by (subst range_loop.simps) (auto simp: assms(1) P_def split: if_splits prod.splits flow.splits)
    qed
  qed
  then show ?thesis by (simp add: P_def)
qed

lemma range_loop_twin:
  assumes "\<And>st. range_iter E D' to st = range_iter E D to st"
  shows "range_loop E D' to st = range_loop E D to st"
proof (cases "range_loop E D to st")
  case None
  have "range_loop E D' to st \<noteq> Some out" for out
    using range_loop_same [of E D to D' st out] assms None by auto
  with None show ?thesis by (cases "range_loop E D' to st") auto
next
  case (Some out)
  with range_loop_same [OF assms Some] show ?thesis by simp
qed

lemma follow_loop_same:
  assumes "\<And>st. follow_pass E cfg D' st = follow_pass E cfg D st" and "follow_loop E cfg D st = Some out"
  shows "follow_loop E cfg D' st = Some out"
proof -
  define P where "P E1 cfg1 D1 st out \<longleftrightarrow> (E1 = E \<and> cfg1 = cfg \<and> D1 = D \<longrightarrow> follow_loop E cfg D' st = Some out)"
    for E1 cfg1 D1 st and out :: "'a FollowState \<times> go_error"
  have "P E cfg D st out"
  proof (rule follow_loop.raw_induct [of P, OF _ assms(2)])
    fix f E1 cfg1 D1 st out
    assume IH: "\<And>E1 cfg1 D1 st out. f E1 cfg1 D1 st = Some out \<Longrightarrow> P E1 cfg1 D1 st out"
      and eq: "(case follow_pass E1 cfg1 D1 st of None \<Rightarrow> None
         | Some (st', Next) \<Rightarrow> f E1 cfg1 D1 st' | Some (st', Fail e) \<Rightarrow> Some (st', e)) = Some out"
    show "P E1 cfg1 D1 st out"
      unfolding P_def
    proof (intro impI, elim conjE)
      assume E: "E1 = E" "cfg1 = cfg" "D1 = D"
      show "follow_loop E cfg D' st = Some out"
        using eq IH [of E cfg D] unfolding E
        by (subst follow_loop.simps) (auto simp: assms(1) P_def split: option.splits prod.splits flow.splits)
    qed
  qed
  then show ?thesis by (simp add: P_def)
qed

lemma follow_loop_twin:
  assumes "\<And>st. follow_pass E cfg D' st = follow_pass E cfg D st"
  shows "follow_loop E cfg D' st = follow_loop E cfg D st"
proof (cases "follow_loop E cfg D st")
  case None
  have "follow_loop E cfg D' st \<noteq> Some out" for out
    using follow_loop_same [of E cfg D D' st out] assms None by auto
  with None show ?thesis by (cases "follow_loop E cfg D' st") auto
next
  case (Some out)
  with follow_loop_same [OF assms Some] show ?thesis by simp
qed

lemma bf_reaches_mono:
  assumes "bf_reaches E cfg D hi s s'" and "\<And>s s'. bf_step E cfg D hi s s' \<Longrightarrow> bf_step E cfg D' hi s s'"
  shows "bf_reaches E cfg D' hi s s'"
  using assms(1) by (induction rule: bf_reaches.induct) (blast intro: bf_reaches.intros assms(2))+

context twin_stores
begin

lemma range_iter_twin:
  assumes "dp_Store D = S" and "good_answers E D good"
  shows "range_iter E (D\<lparr>dp_Store := S'\<rparr>) to st = range_iter E D to st"
proof (cases "rpc_GetLogs (dp_RPC D) (wd_tick (rs_world st)) (chunk_filter E D to st)")
  case (Inl e)
  then show ?thesis by (simp add: range_iter_def chunk_filter_def Let_def)
next
  case (Inr logs)
  let ?b = "buildRecords E D (rs_cache st) (Suc (wd_tick (rs_world st))) logs"
  have ins: "st_InsertLogs S' f recs s = st_InsertLogs S f recs s" if "?b = (Inr recs, c, t)" for f recs s c t
    using assms(2) Inr that unfolding good_answers_def by (intro insert_twin) blast
  have "store_chunk E (D\<lparr>dp_Store := S'\<rparr>) to st logs = store_chunk E D to st logs"
    using ins by (auto simp: store_chunk_def Let_def assms(1) save_twin split: prod.split sum.split option.split)
  with Inr show ?thesis by (simp add: range_iter_def chunk_filter_def Let_def)
qed

lemma processRange_twin:
  assumes "dp_Store D = S" and "good_answers E D good"
  shows "processRangeAdaptive E (D\<lparr>dp_Store := S'\<rparr>) ch lo to w = processRangeAdaptive E D ch lo to w"
  unfolding processRangeAdaptive_def by (rule range_loop_twin) (rule range_iter_twin [OF assms])

lemma follow_pass_twin:
  assumes "dp_Store D = S" and "good_answers E D good"
  shows "follow_pass E cfg (D\<lparr>dp_Store := S'\<rparr>) st = follow_pass E cfg D st"
proof -
  have fi: "follow_index E cfg (D\<lparr>dp_Store := S'\<rparr>) st = follow_index E cfg D st" for st
    unfolding follow_index_def processRange_twin [OF assms] by simp
  have dt: "Detect rpc S' df t s = Detect rpc S df t s" for rpc df t s
    unfolding Detect_def last_twin before_twin ..
  show ?thesis
    using assms(1) by (auto simp: follow_pass_def fi dt Rollback_def rollback_twin Let_def
        split: sum.split prod.split option.split)
qed

lemma Follow_twin:
  assumes "dp_Store D = S" and "good_answers E D good"
  shows "Follow E cfg (D\<lparr>dp_Store := S'\<rparr>) w = Follow E cfg D w"
proof -
  have i: "follow_init E cfg (D\<lparr>dp_Store := S'\<rparr>) w = follow_init E cfg D w"
    using assms(1) by (simp add: follow_init_def last_twin)
  have l: "follow_loop E cfg (D\<lparr>dp_Store := S'\<rparr>) st = follow_loop E cfg D st" for st
    by (rule follow_loop_twin) (rule follow_pass_twin [OF assms])
  show ?thesis unfolding Follow_def i l ..
qed

lemma bf_step_twin:
  assumes "dp_Store D = S" and "good_answers E D good"
  shows "bf_step E cfg (D\<lparr>dp_Store := S'\<rparr>) hi s s' \<longleftrightarrow> bf_step E cfg D hi s s'"
proof -
  have "worker_pass E (D\<lparr>dp_Store := S'\<rparr>) i ch r cur c s = worker_pass E D i ch r cur c s" for i ch r cur c
    by (simp add: worker_pass_def range_iter_twin [OF assms])
  then show ?thesis by (simp add: bf_step.simps)
qed

lemma Backfill_twin:
  assumes "dp_Store D = S" and "good_answers E D good"
  shows "Backfill_returns E cfg (D\<lparr>dp_Store := S'\<rparr>) f t w w' r \<longleftrightarrow> Backfill_returns E cfg D f t w w' r"
proof -
  have "bf_reaches E cfg (D\<lparr>dp_Store := S'\<rparr>) hi s s' \<longleftrightarrow> bf_reaches E cfg D hi s s'" for hi s s'
    using bf_reaches_mono [of E cfg _ hi s s'] bf_step_twin [OF assms] by metis
  moreover have "backfill_range cfg (D\<lparr>dp_Store := S'\<rparr>) = backfill_range cfg D"
    by (intro ext) (simp add: backfill_range_def Let_def split: option.split)
  ultimately show ?thesis by (simp add: Backfill_returns.simps)
qed

end

section \<open>The two drivers\<close>

interpretation drivers: twin_stores sqlite_store pg_store "\<lambda>l. fits_int64 (lr_LogIndex l)"
  by unfold_locales (simp_all add: inserts_agree, simp_all add: pg_store_def sqlite_store_def
      pg_SaveRangeCheckpoint_def sqlite_SaveRangeCheckpoint_def pg_LastCheckpoint_def sqlite_LastCheckpoint_def
      pg_CheckpointBefore_def sqlite_CheckpointBefore_def pg_RollbackFrom_def sqlite_RollbackFrom_def)



end
