(* ===== verification/Counters.thy ===== *)
theory Counters
  imports Backfill
begin

text \<open>
  What the metrics say.  Every pass that saves a checkpoint adds its blocks to the counter, so at any
  moment of a backfill, between the passes of its workers, the counter that the logger prints is the
  number of blocks of the checkpoints saved so far.
\<close>

section \<open>One pass\<close>

definition blocks_of :: "Checkpoint list \<Rightarrow> u64" where
  "blocks_of cs = sum_list (map (\<lambda>c. cp_EndBlock c - cp_StartBlock c + 1) cs)"

lemma blocks_of_simps [simp]: "blocks_of [] = 0" "blocks_of (cs @ ds) = blocks_of cs + blocks_of ds"
  "blocks_of [c] = cp_EndBlock c - cp_StartBlock c + 1"
  by (simp_all add: blocks_of_def)

text \<open>Between two worlds checkpoints were added, and their blocks counted.\<close>

definition counted where
  "counted cv w w' \<longleftrightarrow> (\<exists>new. cv (wd_store w') = cv (wd_store w) @ new
     \<and> processedBlocks (wd_metrics w') = processedBlocks (wd_metrics w) + blocks_of new)"

lemma counted_refl [simp]: "counted cv w w"
  by (auto simp: counted_def)

lemma counted_trans: "counted cv w1 w2 \<Longrightarrow> counted cv w2 w3 \<Longrightarrow> counted cv w1 w3"
  unfolding counted_def by (metis append.assoc blocks_of_simps(2) add.assoc)

context log_store
begin

lemma range_iter_counted:
  assumes it: "range_iter E D to st = (st', fl)" and S: "dp_Store D = S" and iv: "inv (wd_store (rs_world st))"
  shows "counted cpv (rs_world st) (rs_world st')" and "inv (wd_store (rs_world st'))"
proof -
  show "inv (wd_store (rs_world st'))" by (rule range_iter_outcomes(1) [OF it S iv])
  show "counted cpv (rs_world st) (rs_world st')"
  proof (cases "rpc_GetLogs (dp_RPC D) (wd_tick (rs_world st)) (chunk_filter E D to st)")
    case (Inl e)
    with it show ?thesis by (auto simp: range_iter_def Let_def counted_def split: if_splits)
  next
    case (Inr logs)
    with it have "store_chunk E D to st logs = (st', fl)" by (simp add: range_iter_def)
    from this S iv show ?thesis
    proof (cases rule: store_chunk_cases)
      case failed
      then show ?thesis by (simp add: chunk_failed_def counted_def Let_def)
    next
      case stored
      then show ?thesis by (auto simp: chunk_stored_def counted_def Let_def chunk_end_def)
    qed
  qed
qed

lemma bf_step_counted:
  assumes "bf_step E cfg D hi s s'" and S: "dp_Store D = S" and iv: "inv (wd_store (bf_world s))"
  shows "counted cpv (bf_world s) (bf_world s') \<and> inv (wd_store (bf_world s'))"
  using assms(1)
proof cases
  case (pass i ch r cur c)
  let ?st = "worker_state ch cur c (bf_world s)"
  obtain st fl where it: "range_iter E D (rg_To r) ?st = (st, fl)" by (metis surj_pair)
  then have "bf_world s' = rs_world st" using pass by (cases fl) (simp_all add: worker_pass_def)
  with range_iter_counted [OF it S] iv show ?thesis by (simp add: worker_state_def)
qed (simp_all add: iv take_job_def)

lemma bf_reaches_counted:
  assumes "bf_reaches E cfg D hi s s'" and S: "dp_Store D = S" and iv: "inv (wd_store (bf_world s))"
  shows "counted cpv (bf_world s) (bf_world s') \<and> inv (wd_store (bf_world s'))"
  using assms(1)
proof (induction rule: bf_reaches.induct)
  case refl
  with iv show ?case by simp
next
  case (step s1 s2)
  with bf_step_counted [OF step(2) S] show ?case by (blast intro: counted_trans)
qed

end

section \<open>A tiling's blocks\<close>

lemma tiles_blocks: "tiles a cs b \<Longrightarrow> of_nat b = of_nat a + blocks_of cs"
proof (induction cs arbitrary: a)
  case Nil
  then show ?case by simp
next
  case (Cons c cs)
  then have s: "unat (cp_StartBlock c) = a" and t: "tiles (unat (cp_EndBlock c) + 1) cs b" by auto
  from s have "of_nat a = cp_StartBlock c" by auto
  with Cons.IH [OF t] show ?case by (simp add: blocks_of_def)
qed

lemma tiled_blocks: "tiled a cs b \<Longrightarrow> blocks_of cs = of_nat b - of_nat a"
proof -
  assume "tiled a cs b"
  then obtain ds where ds: "mset ds = mset cs" "tiles a ds b" by (auto simp: tiled_iff)
  have "blocks_of cs = sum_mset (image_mset (\<lambda>c. cp_EndBlock c - cp_StartBlock c + 1) (mset cs))" for cs
    by (simp only: blocks_of_def mset_map [symmetric] sum_mset_sum_list)
  from this [of cs] this [of ds] have "blocks_of cs = blocks_of ds" by (simp only: ds(1))
  with tiles_blocks [OF ds(2)] show ?thesis by simp
qed

section \<open>What the logger prints\<close>

lemma metrics_logger_map: "metrics_logger (map Some ms @ evs) = map Snapshot ms @ metrics_logger evs"
  by (induction ms) simp_all



end
