(* ===== verification/Mempool_Rows.thy ===== *)
theory Mempool_Rows
  imports Process
begin

text \<open>
  Which rows of the mempool table a run of the service can touch: only those of the transactions
  that the node told it about in that run.  The tracker lives in memory, so what an earlier run
  has left pending stays pending.
\<close>

section \<open>One row at a time\<close>

text \<open>The rows under a hash; an operation on one hash leaves the rows of all others alone.\<close>

locale mempool_rows =
  fixes S :: "'s Store" and rows :: "'s \<Rightarrow> string \<Rightarrow> mem_row list"
  assumes upsert_other: "k \<noteq> mt_Hash tx \<Longrightarrow> rows (snd (st_UpsertMempoolTx S f tx s)) k = rows s k"
    and mined_other: "k \<noteq> h \<Longrightarrow> rows (snd (st_MarkMempoolMined S f now h mi s)) k = rows s k"
    and replaced_other: "k \<noteq> h \<Longrightarrow> rows (snd (st_MarkMempoolReplaced S f now h h' s)) k = rows s k"
    and dropped_other: "k \<noteq> h \<Longrightarrow> rows (snd (st_MarkMempoolDropped S f now h s)) k = rows s k"

definition rows_of :: "db \<Rightarrow> string \<Rightarrow> mem_row list" where
  "rows_of s h = filter (\<lambda>r. m_tx_hash r = h) (d_mem s)"

lemma rows_of_update [simp]:
  assumes "\<And>r. m_tx_hash (g r) = m_tx_hash r" and "k \<noteq> h"
  shows "filter (\<lambda>r. m_tx_hash r = k) (sql_update h g rs) = filter (\<lambda>r. m_tx_hash r = k) rs"
  using assms by (induction rs) (auto simp: sql_update_def)

lemma rows_of_upsert:
  "k \<noteq> m_tx_hash x \<Longrightarrow> filter (\<lambda>r. m_tx_hash r = k) (sql_upsert x rs) = filter (\<lambda>r. m_tx_hash r = k) rs"
  by (auto simp: sql_upsert_def)

interpretation sqlite_rows: mempool_rows sqlite_store rows_of
  by unfold_locales (auto simp: rows_of_def sqlite_store_def sqlite_UpsertMempoolTx_def sqlite_MarkMempoolMined_def
      sqlite_MarkMempoolReplaced_def sqlite_MarkMempoolDropped_def rows_of_upsert sqlite_mem_row_def split: option.splits)

interpretation pg_rows: mempool_rows pg_store rows_of
  by unfold_locales (auto simp: rows_of_def pg_store_def pg_UpsertMempoolTx_def pg_MarkMempoolMined_def
      pg_MarkMempoolReplaced_def pg_MarkMempoolDropped_def rows_of_upsert pg_mem_row_def split: option.splits)

lemma store_mempool_rows: "a_store S \<Longrightarrow> mempool_rows S rows_of"
  using sqlite_rows.mempool_rows_axioms pg_rows.mempool_rows_axioms by (auto simp: a_store_def)

section \<open>What the tracker knows\<close>

text \<open>Every hash the tracker holds is one of \<open>K\<close>.\<close>

definition knows_only :: "string set \<Rightarrow> Tracker \<Rightarrow> bool" where
  "knows_only K T \<longleftrightarrow> dom (tk_txs T) \<subseteq> K \<and> ran (tk_fromNonce T) \<subseteq> K \<and> set (tk_receiptC T) \<subseteq> K"

lemma knows_enqueue: "knows_only K T \<Longrightarrow> h \<in> K \<Longrightarrow> knows_only K (enqueueReceipt h T)"
  by (auto simp: knows_only_def enqueueReceipt_def reserve_def offer_def)

lemma knows_schedule: "knows_only K T \<Longrightarrow> knows_only K (scheduleReceipts keys T)"
proof -
  have "knows_only K (fold enqueueReceipt hs T)" if "knows_only K T" "set hs \<subseteq> K" for hs
    using that by (induction hs arbitrary: T) (simp_all add: knows_enqueue)
  moreover assume "knows_only K T"
  then have "set (pending_hashes keys T) \<subseteq> K"
    by (auto simp: knows_only_def pending_hashes_def is_status_def split: option.splits)
  ultimately show "knows_only K (scheduleReceipts keys T)"
    using \<open>knows_only K T\<close> by (simp add: scheduleReceipts_def)
qed

lemma knows_set_tracked: "knows_only K T \<Longrightarrow> knows_only K (set_tracked h st T)"
  by (auto simp: knows_only_def set_tracked_def split: option.splits)

lemma knows_fold_tracked: "knows_only K T \<Longrightarrow> knows_only K (fold (\<lambda>h. set_tracked h st) hs T)"
  by (induction hs arbitrary: T) (simp_all add: knows_set_tracked)

lemma knows_release: "knows_only K T \<Longrightarrow> knows_only K (release h T)"
  by (simp add: knows_only_def release_def)

lemma ran_remove: "ran (m(k := None)) \<subseteq> ran m"
  by (auto simp: ran_def)

lemma knows_forget: "knows_only K T \<Longrightarrow> knows_only K (forget h T)"
  using ran_remove [of "tk_fromNonce T"]
  by (fastforce simp: knows_only_def forget_def Let_def split: option.splits if_splits)

lemma knows_seen:
  assumes "knows_only K T" and "mt_Hash tx \<in> K" and "track_seen now tx T = (r, T1)"
  shows "knows_only K T1" and "r \<noteq> [] \<Longrightarrow> r \<in> K"
proof -
  let ?key = "fromNonceKey (mt_From tx) (mt_Nonce tx)"
  have "dom (tk_txs T1) = insert (mt_Hash tx) (dom (tk_txs T))" "tk_receiptC T1 = tk_receiptC T"
    and fn: "tk_fromNonce T1 = (tk_fromNonce T)(?key \<mapsto> mt_Hash tx)"
    using assms(3) by (auto simp: track_seen_def Let_def)
  moreover have "ran (tk_fromNonce T1) \<subseteq> insert (mt_Hash tx) (ran (tk_fromNonce T))"
    unfolding fn by (auto simp: ran_def)
  ultimately show "knows_only K T1"
    using assms(1,2) subset_trans [of "ran (tk_fromNonce T1)" "insert (mt_Hash tx) (ran (tk_fromNonce T))" K]
    by (simp add: knows_only_def)
  assume "r \<noteq> []"
  with assms(3) have "tk_fromNonce T ?key = Some r"
    by (auto simp: track_seen_def Let_def split: option.splits if_splits)
  with assms(1) show "r \<in> K" by (auto simp: knows_only_def intro: ranI)
qed

section \<open>The handlers touch only what they know\<close>

text \<open>\<open>s0\<close> is the database when the service started.\<close>

definition untouched where
  "untouched rows K s0 w \<longleftrightarrow> knows_only K (mw_tracker w) \<and> (\<forall>h. h \<notin> K \<longrightarrow> rows (mw_store w) h = rows s0 h)"

context mempool_rows
begin

lemma untouched_HandleTx:
  assumes S: "dp_Store D = S" and U: "untouched rows K s0 w" and tx: "mt_Hash tx \<in> K"
  shows "untouched rows K s0 (snd (HandleTx E D tx w))"
proof -
  let ?t = "mw_tick w" let ?tx = "stamp (en_now E ?t) tx"
  have h: "mt_Hash ?tx = mt_Hash tx" by (simp add: stamp_def Let_def)
  obtain old T1 where seen: "track_seen (en_now E ?t) ?tx (mw_tracker w) = (old, T1)" by force
  from U have K: "knows_only K (mw_tracker w)" by (simp add: untouched_def)
  note ks = knows_seen [OF K _ seen, unfolded h, OF tx]
  define s1 where "s1 = (if old \<noteq> '''' then snd (st_MarkMempoolReplaced S (en_faults E (?t + 1)) (en_now E (?t + 1)) old
      (mt_Hash tx) (mw_store w)) else mw_store w)"
  have r1: "rows s1 k = rows (mw_store w) k" if "k \<notin> K" for k
    using that ks(2) replaced_other [of k old] by (auto simp: s1_def)
  have "mw_store (snd (HandleTx E D tx w)) = snd (st_UpsertMempoolTx S (en_faults E (?t + 2)) ?tx s1)"
    using h by (simp add: HandleTx_def seen Let_def S s1_def split: prod.split option.split)
  moreover have "rows (snd (st_UpsertMempoolTx S (en_faults E (?t + 2)) ?tx s1)) k = rows s1 k" if "k \<notin> K" for k
    using that tx h by (intro upsert_other) auto
  moreover have "knows_only K (mw_tracker (snd (HandleTx E D tx w)))"
    using ks(1) tx knows_set_tracked knows_enqueue
    by (simp add: HandleTx_tracker after_seen_def seen Let_def split: option.split)
  ultimately show ?thesis using U r1 by (simp add: untouched_def)
qed

lemma untouched_handleReceipt:
  assumes S: "dp_Store D = S" and U: "untouched rows K s0 w" and h: "h \<in> K"
  shows "untouched rows K s0 (handleReceipt E D h w)"
proof -
  have "knows_only K (mw_tracker (handleReceipt E D h w))"
    using handleReceipt_tracker [of E D h w] U by (auto simp: untouched_def knows_release knows_forget)
  moreover have "rows (mw_store (handleReceipt E D h w)) k = rows (mw_store w) k" if "k \<notin> K" for k
  proof (cases "mined_info (rpc_GetTransactionReceipt (dp_RPC D) (mw_tick w) h)")
    case (Some mi)
    let ?m = "st_MarkMempoolMined S (en_faults E (mw_tick w + 1)) (en_now E (mw_tick w + 1)) h mi (mw_store w)"
    have "mw_store (handleReceipt E D h w) = snd ?m"
      using S Some by (cases ?m) (simp add: handleReceipt_def Let_def split: option.split)
    with mined_other that h show ?thesis by (metis)
  qed (simp add: handleReceipt_def Let_def)
  ultimately show ?thesis using U by (simp add: untouched_def)
qed

lemma rows_drop_rows:
  "dp_Store D = S \<Longrightarrow> k \<notin> set hs \<Longrightarrow> rows (snd (drop_rows E D hs t s)) k = rows s k"
  by (induction hs arbitrary: t s) (simp_all add: dropped_other)

lemma untouched_dropExpired:
  assumes S: "dp_Store D = S" and U: "untouched rows K s0 w"
  shows "untouched rows K s0 (dropExpired E D keys w)"
proof -
  let ?hs = "expired (en_now E (mw_tick w) - tk_droppedTTL (mw_tracker w)) keys (mw_tracker w)"
  have "set ?hs \<subseteq> K"
    using U by (auto simp: untouched_def knows_only_def expired_def split: option.splits)
  then have "rows (mw_store (dropExpired E D keys w)) k = rows (mw_store w) k" if "k \<notin> K" for k
    using rows_drop_rows [OF S, of k ?hs E "mw_tick w + 1" "mw_store w"] dropExpired_rows [of E D w keys] that
    by (metis snd_conv subsetD)
  then show ?thesis
    using U by (simp add: untouched_def dropExpired_tracker knows_fold_tracked)
qed

lemma untouched_tx_handler:
  assumes "dp_Store D = S"
  shows "tx_handler (HandleTx E D) (untouched rows K s0) (\<lambda>m. mt_Hash m \<in> K)"
  by unfold_locales (auto simp: untouched_HandleTx [OF assms], simp_all add: untouched_def)

lemma untouched_svc_handle:
  assumes S: "dp_Store D = S" and U: "untouched rows K s0 (sv_world s)"
    and node: "\<And>t h tx. rpc_GetTransactionByHash (dp_RPC D) t h = Inr (Some tx) \<Longrightarrow> to_lower (tx_Hash tx) \<in> K"
  shows "untouched rows K s0 (sv_world (svc_handle E D ev s))"
proof (cases ev)
  case (ForwardHead keys)
  with U show ?thesis
    by (auto simp: svc_handle_def forward_head_def untouched_def OnHead_def knows_schedule split: list.split)
next
  case FetchOne
  have "untouched rows K s0 (handleHash E D F (HandleTx E D) h (sv_world s))" for F h
    by (rule tx_handler.handleHash_inv [OF untouched_tx_handler [OF S] U])
      (use node in \<open>auto simp: toMempoolTx_def Let_def\<close>)
  with FetchOne U show ?thesis by (simp add: svc_handle_def fetch_worker_def split: list.split)
next
  case ReceiptOne
  show ?thesis
  proof (cases "tk_receiptC (mw_tracker (sv_world s))")
    case Nil
    with ReceiptOne U show ?thesis by (simp add: svc_handle_def receiptWorker_def)
  next
    case (Cons h q)
    let ?w = "(sv_world s)\<lparr>mw_tracker := (mw_tracker (sv_world s))\<lparr>tk_receiptC := q\<rparr>\<rparr>"
    have "untouched rows K s0 ?w" "h \<in> K" using U Cons by (auto simp: untouched_def knows_only_def)
    from untouched_handleReceipt [OF S this] ReceiptOne Cons show ?thesis
      by (simp add: svc_handle_def receiptWorker_def)
  qed
qed (use U in \<open>simp_all add: svc_handle_def forward_hash_def untouched_dropExpired [OF S] split: list.split\<close>)

lemma untouched_svc_run:
  assumes "dp_Store D = S" and "untouched rows K s0 (sv_world s)"
    and "\<And>t h tx. rpc_GetTransactionByHash (dp_RPC D) t h = Inr (Some tx) \<Longrightarrow> to_lower (tx_Hash tx) \<in> K"
  shows "untouched rows K s0 (sv_world (svc_run E D evs s))"
  using assms(2)
proof (induction evs arbitrary: s)
  case Nil
  then show ?case by (simp add: svc_run_def)
next
  case (Cons ev evs)
  from Cons.IH [OF untouched_svc_handle [OF assms(1) Cons.prems assms(3)]] show ?case by (simp add: svc_run_def)
qed

end

section \<open>The property\<close>

text \<open>
  C13. Rows the node does not talk about stay.  In any run of a freshly started mempool service (any
  announcements, heads, receipts and sweeps in any order, any faults) the rows of a transaction
  that the node does not describe are as the service found them.  In particular nothing that an
  earlier run of the service has left pending is ever marked mined, replaced or dropped, unless the
  node announces the transaction again: the tracker does not read the table.
\<close>

theorem unannounced_rows_stay:
  assumes "a_store (dp_Store D)" and "service_start cfg dec di tr ttl pw rw s = Inr s0"
    and "\<And>t k tx. rpc_GetTransactionByHash (dp_RPC D) t k = Inr (Some tx) \<Longrightarrow> to_lower (tx_Hash tx) \<noteq> h"
  shows "rows_of (mw_store (sv_world (svc_run E D evs s0))) h = rows_of s h"
proof -
  have "mw_tracker (sv_world s0) = NewTracker d r m \<Longrightarrow> knows_only (- {h}) (mw_tracker (sv_world s0))" for d r m
    by (simp add: knows_only_def NewTracker_def Let_def)
  then have "knows_only (- {h}) (mw_tracker (sv_world s0))"
    using assms(2) by (auto simp: service_start_def and_then_Inr split: if_splits)
  then have "untouched rows_of (- {h}) s (sv_world s0)"
    using service_start_store [OF assms(2)] by (simp add: untouched_def)
  from mempool_rows.untouched_svc_run [OF store_mempool_rows [OF assms(1)] HOL.refl this] assms(3)
  show ?thesis by (fastforce simp: untouched_def)
qed

text \<open>A row that an earlier run left pending, and a run that learns of another transaction.\<close>

definition left_pending :: db where
  "left_pending = empty_db\<lparr>d_mem := [a_row\<lparr>m_tx_hash := ''0x99'', m_status := ''pending''\<rparr>]\<rparr>"

lemma left_starts: "\<exists>s0. service_start sample_validated None False False [] 0 0 left_pending = Inr s0"
  using sample_starts by (auto simp: service_start_def and_then_Inr split: if_splits)

theorem unannounced_rows_stay_witness:
  "\<exists>s0. service_start sample_validated None False False [] 0 0 left_pending = Inr s0
    \<and> map m_status (rows_of (mw_store (sv_world (svc_run demo_env known_deps
        [Announce (demo_note (JStr ''0xab'')), ForwardHash, FetchOne, ReceiptOne, SweepOne [''0x99'']] s0))) ''0x99'')
      = [''pending'']"
proof -
  obtain s0 where s0: "service_start sample_validated None False False [] 0 0 left_pending = Inr s0"
    using left_starts by blast
  have A: "a_store (dp_Store known_deps)" by (simp add: known_deps_def a_store_def demo_deps_def)
  have r: "to_lower (tx_Hash tx) \<noteq> ''0x99''" if "rpc_GetTransactionByHash (dp_RPC known_deps) t k = Inr (Some tx)" for t k tx
    using that known_hash by (auto simp: known_deps_def)
  have "rows_of (mw_store (sv_world (svc_run demo_env known_deps
      [Announce (demo_note (JStr ''0xab'')), ForwardHash, FetchOne, ReceiptOne, SweepOne [''0x99'']] s0))) ''0x99''
      = rows_of left_pending ''0x99''" by (rule unannounced_rows_stay [OF A s0 r])
  with s0 show ?thesis by (simp add: left_pending_def rows_of_def)
qed

end
