(* ===== verification/Ui.thy ===== *)
theory Ui
  imports Strconv Store_Correct
begin

text \<open>
  \<open>cmd/ui/main.go\<close>: the web server.  A handler gets the request and the response written so far
  and returns the response, together with the calls it made to the node (\<open>handleAccounts\<close>,
  \<open>handleSendTx\<close>, \<open>handleMine\<close>) or the files it left (\<open>handleTokenApply\<close>).  What the node, the
  disk and the database answer are arguments; the YAML parser and printer are parameters.
  Keys of JSON objects are matched exactly (\<open>encoding/json\<close> also accepts other letter cases).
\<close>

section \<open>Requests and responses\<close>

text \<open>\<open>hq_Body\<close> is the first JSON value of the body, or the error of the JSON decoder.\<close>

record Request =
  hq_Method :: string
  hq_Path :: string
  hq_Query :: "(string \<times> string) list"
  hq_Body :: "json result"

definition query_Get :: "string \<Rightarrow> Request \<Rightarrow> string" where
  "query_Get k r = (case map_of (hq_Query r) k of None \<Rightarrow> [] | Some v \<Rightarrow> v)"

text \<open>The header can change until the first byte or the status is written.\<close>

record Response =
  hw_Code :: "nat option"
  hw_Header :: "string \<Rightarrow> string option"
  hw_Body :: string

definition fresh_response :: Response where
  "fresh_response = \<lparr>hw_Code = None, hw_Header = Map.empty, hw_Body = []\<rparr>"

definition header_Set :: "string \<Rightarrow> string \<Rightarrow> Response \<Rightarrow> Response" where
  "header_Set k v w = (if hw_Code w = None then w\<lparr>hw_Header := (hw_Header w)(k \<mapsto> v)\<rparr> else w)"

definition WriteHeader :: "nat \<Rightarrow> Response \<Rightarrow> Response" where
  "WriteHeader c w = (if hw_Code w = None then w\<lparr>hw_Code := Some c\<rparr> else w)"

definition resp_Write :: "string \<Rightarrow> Response \<Rightarrow> Response" where
  "resp_Write b w = (let w = WriteHeader 200 w in w\<lparr>hw_Body := hw_Body w @ b\<rparr>)"

text \<open>\<open>err.Error()\<close>.\<close>

fun err_text :: "go_error \<Rightarrow> string" where
  "err_text ErrTooManyResults = ''too many results''"
| "err_text ErrCanceled = ''context canceled''"
| "err_text ErrDeadlineExceeded = ''context deadline exceeded''"
| "err_text (ErrNew m) = m"
| "err_text (ErrWrap m e) = m @ '': '' @ err_text e"

section \<open>JSON of the rows\<close>

fun commas :: "string list \<Rightarrow> string" where
  "commas [] = []"
| "commas [s] = s"
| "commas (s # t # ss) = s @ CHR '','' # commas (t # ss)"

definition json_object :: "(string \<times> string) list \<Rightarrow> string" where
  "json_object kvs = CHR ''{'' # commas (map (\<lambda>(k, v). marshal_string k @ CHR '':'' # v) kvs) @ ''}''"

definition json_array :: "string list \<Rightarrow> string" where
  "json_array vs = CHR ''['' # commas vs @ '']''"

text \<open>
  The tags of \<open>LogRecord\<close> and \<open>MempoolTx\<close> (\<open>omitempty\<close> leaves an empty string or a zero out).
  \<open>tt\<close> is \<open>time.Time.MarshalJSON\<close>.
\<close>

definition log_json :: "(time \<Rightarrow> string) \<Rightarrow> LogRecord \<Rightarrow> string" where
  "log_json tt l = (let num = (\<lambda>n. show_nat (unat n)) in json_object
     [(''chain_id'', num (lr_ChainID l)), (''contract_address'', marshal_string (lr_ContractAddress l)),
      (''event_name'', marshal_string (lr_EventName l)), (''block_number'', num (lr_BlockNumber l)),
      (''block_hash'', marshal_string (lr_BlockHash l)), (''tx_hash'', marshal_string (lr_TxHash l)),
      (''log_index'', num (lr_LogIndex l)), (''timestamp'', tt (lr_Timestamp l)),
      (''args_json'', marshal_string (lr_ArgsJSON l)), (''topics_json'', marshal_string (lr_TopicsJSON l)),
      (''data_hex'', marshal_string (lr_DataHex l)), (''inserted_at'', tt (lr_InsertedAt l))])"

definition tx_json :: "(time \<Rightarrow> string) \<Rightarrow> MempoolTx \<Rightarrow> string" where
  "tx_json tt t =
     (let num = (\<lambda>k n. (k, show_nat (unat n))); str = (\<lambda>k s. (k, marshal_string s));
          num0 = (\<lambda>k n. if n = (0 :: u64) then [] else [num k n]);
          str0 = (\<lambda>k s. if s = [] then [] else [str k s]) in json_object
     ([num ''chain_id'' (mt_ChainID t), str ''hash'' (mt_Hash t), str ''from_addr'' (mt_From t),
       str ''to_addr'' (mt_To t), num ''nonce'' (mt_Nonce t), str ''value'' (mt_Value t), num ''gas'' (mt_Gas t)]
      @ str0 ''gas_price'' (mt_GasPrice t) @ str0 ''max_fee_per_gas'' (mt_MaxFeePerGas t)
      @ str0 ''max_priority_fee_per_gas'' (mt_MaxPriorityFeePerGas t) @ num0 ''tx_type'' (mt_TxType t)
      @ [str ''input'' (mt_Input t), str ''status'' (mt_Status t),
         (''first_seen_at'', tt (mt_FirstSeenAt t)), (''last_seen_at'', tt (mt_LastSeenAt t))]
      @ num0 ''mined_block_number'' (mt_MinedBlockNumber t) @ str0 ''mined_block_hash'' (mt_MinedBlockHash t)
      @ num0 ''mined_tx_index'' (mt_MinedTxIndex t) @ str0 ''replaced_by_tx_hash'' (mt_ReplacedByTxHash t)
      @ [(''inserted_at'', tt (mt_InsertedAt t))] @ str0 ''decoded_input_json'' (mt_DecodedInputJSON t)))"

text \<open>\<open>json.NewEncoder(w).Encode\<close> ends the value with a line feed.\<close>

definition writeJSON :: "string \<Rightarrow> Response \<Rightarrow> Response" where
  "writeJSON v w = resp_Write (v @ [CHR 0x0A]) (header_Set ''Content-Type'' ''application/json'' w)"

definition writeError :: "go_error \<Rightarrow> Response \<Rightarrow> Response" where
  "writeError err w =
     resp_Write (json_object [(''error'', marshal_string (err_text err))] @ [CHR 0x0A]) (WriteHeader 400 w)"

definition escapeJSON :: "string \<Rightarrow> string" where
  "escapeJSON s = marshal_string s"

section \<open>The server and its read handlers\<close>

record 's server =
  us_cfg :: Config
  us_st :: "'s Store"
  us_rpc :: Client

definition newServer :: "Config \<Rightarrow> 's Store \<Rightarrow> Client \<Rightarrow> 's server" where
  "newServer cfg st rpc = \<lparr>us_cfg = cfg, us_st = st, us_rpc = rpc\<rparr>"

definition parseInt :: "string \<Rightarrow> int \<Rightarrow> int" where
  "parseInt v d = (if v = [] then d else case Atoi v of None \<Rightarrow> d | Some n \<Rightarrow> n)"

definition handleMempool :: "(time \<Rightarrow> string) \<Rightarrow> 's server \<Rightarrow> faults \<Rightarrow> 's \<Rightarrow> Request \<Rightarrow> Response \<Rightarrow> Response" where
  "handleMempool tt srv f s r w =
     (case st_ListMempool (us_st srv) f (query_Get ''status'' r) (parseInt (query_Get ''limit'' r) 100) s of
        Inl e \<Rightarrow> writeError e w
      | Inr rows \<Rightarrow> writeJSON (json_array (map (tx_json tt) rows)) w)"

definition handleLogs :: "(time \<Rightarrow> string) \<Rightarrow> 's server \<Rightarrow> faults \<Rightarrow> 's \<Rightarrow> Request \<Rightarrow> Response \<Rightarrow> Response" where
  "handleLogs tt srv f s r w =
     (case st_ListLogs (us_st srv) f (parseInt (query_Get ''limit'' r) 100) s of
        Inl e \<Rightarrow> writeError e w
      | Inr rows \<Rightarrow> writeJSON (json_array (map (log_json tt) rows)) w)"

section \<open>The event stream\<close>

text \<open>The payload of one tick: the rows of the feed, or the error of the store.\<close>

definition stream_rows :: "(time \<Rightarrow> string) \<Rightarrow> 's server \<Rightarrow> string \<Rightarrow> string \<Rightarrow> int \<Rightarrow> faults \<Rightarrow> 's \<Rightarrow>
    string result" where
  "stream_rows tt srv feed status limit f s =
     (if feed = ''logs''
      then and_then (st_ListLogs (us_st srv) f limit s) (\<lambda>rows. Inr (json_array (map (log_json tt) rows)))
      else and_then (st_ListMempool (us_st srv) f status limit s)
             (\<lambda>rows. Inr (json_array (map (tx_json tt) rows))))"

definition stream_frame :: "string result \<Rightarrow> string" where
  "stream_frame p = (case p of
     Inl e \<Rightarrow> ''event: error'' @ [CHR 0x0A] @ ''data: '' @ escapeJSON (err_text e) @ [CHR 0x0A, CHR 0x0A]
   | Inr b \<Rightarrow> ''data: '' @ b @ [CHR 0x0A, CHR 0x0A])"

text \<open>The ticker.\<close>

definition stream_interval :: "'s server \<Rightarrow> int" where
  "stream_interval srv = seconds (ui_PollIntervalSeconds (cf_UI (us_cfg srv)))"

text \<open>
  The handler over the ticks that fire before the request is cancelled; a tick comes with the
  faults and the contents of the database at that time.  \<open>flusher\<close> says whether the connection
  can stream.
\<close>

definition handleStream :: "(time \<Rightarrow> string) \<Rightarrow> 's server \<Rightarrow> bool \<Rightarrow> (faults \<times> 's) list \<Rightarrow> Request \<Rightarrow>
    Response \<Rightarrow> Response result" where
  "handleStream tt srv flusher ticks r w =
     (let feed = query_Get ''feed'' r; status = query_Get ''status'' r;
          limit = parseInt (query_Get ''limit'' r) 100;
          feed = (if feed = '''' then ui_DefaultFeed (cf_UI (us_cfg srv)) else feed);
          w = header_Set ''Connection'' ''keep-alive'' (header_Set ''Cache-Control'' ''no-cache''
                (header_Set ''Content-Type'' ''text/event-stream'' w))
      in if \<not> flusher then Inr (writeError (ErrNew ''streaming not supported'') w)
         else case NewTicker (stream_interval srv) of Some p \<Rightarrow> Inl p
         | None \<Rightarrow> Inr (fold (\<lambda>(f, s). resp_Write (stream_frame (stream_rows tt srv feed status limit f s))) ticks w))"

section \<open>Handlers that call the node\<close>

text \<open>A call is its method and parameters; \<open>node c\<close> is what the network does on its attempts.\<close>

type_synonym node_call = "string \<times> json list"

definition ui_call :: "'s server \<Rightarrow> (node_call \<Rightarrow> net) \<Rightarrow> node_call \<Rightarrow> (json \<Rightarrow> 'a result) \<Rightarrow> 'a result" where
  "ui_call srv node c dec = fst (Call (us_rpc srv) None (node c) dec)"

definition handleAccounts :: "'s server \<Rightarrow> (node_call \<Rightarrow> net) \<Rightarrow> Response \<Rightarrow> Response \<times> node_call list" where
  "handleAccounts srv node w =
     (let c = (''eth_accounts'', []) in
      (case ui_call srv node c (unmarshal_ptr (unmarshal_slice unmarshal_string)) of
         Inl e \<Rightarrow> writeError e w
       | Inr None \<Rightarrow> writeJSON ''null'' w
       | Inr (Some as) \<Rightarrow> writeJSON (json_array (map marshal_string as)) w, [c]))"

record send_request =
  sr_From :: string
  sr_To :: string
  sr_ValueWei :: string
  sr_GasLimit :: u64
  sr_GasPrice :: string
  sr_Nonce :: "u64 option"

definition unmarshal_u64 :: "json \<Rightarrow> u64 result" where
  "unmarshal_u64 j = (case j of JNull \<Rightarrow> Inr 0
     | JNum n \<Rightarrow> (if 0 \<le> n \<and> n < 2 ^ 64 then Inr (word_of_int n)
                 else Inl (ErrNew ''json: cannot unmarshal number into Go value of type uint64''))
     | _ \<Rightarrow> Inl (ErrNew ''json: cannot unmarshal into Go value of type uint64''))"

definition decode_send :: "json \<Rightarrow> send_request result" where
  "decode_send j =
     (if \<not> is_object j then Inl (ErrNew ''json: cannot unmarshal into Go value of struct type'')
      else let str = (\<lambda>k. unmarshal_string (json_field k j)) in
        and_then (str ''from'') (\<lambda>fr. and_then (str ''to'') (\<lambda>to.
        and_then (str ''value_wei'') (\<lambda>v. and_then (unmarshal_u64 (json_field ''gas_limit'' j)) (\<lambda>g.
        and_then (str ''gas_price_wei'') (\<lambda>p.
        and_then (unmarshal_ptr unmarshal_u64 (json_field ''nonce'' j)) (\<lambda>n.
          Inr \<lparr>sr_From = fr, sr_To = to, sr_ValueWei = v, sr_GasLimit = g, sr_GasPrice = p,
                sr_Nonce = n\<rparr>)))))))"

text \<open>An amount in decimal becomes an entry of the parameters, an empty one none.\<close>

definition amount_param :: "'v EthLib \<Rightarrow> string \<Rightarrow> string \<Rightarrow> string \<Rightarrow> (string \<times> string) list result" where
  "amount_param lib key field v =
     (if v = [] then Inr []
      else case big_SetString v of
        None \<Rightarrow> Inl (ErrNew (''invalid '' @ field))
      | Some n \<Rightarrow> Inr [(key, EncodeBig lib n)])"

definition send_params :: "'v EthLib \<Rightarrow> send_request \<Rightarrow> (string \<times> string) list result" where
  "send_params lib q =
     and_then (amount_param lib ''value'' ''value_wei'' (sr_ValueWei q)) (\<lambda>value.
     and_then (amount_param lib ''gasPrice'' ''gas_price_wei'' (sr_GasPrice q)) (\<lambda>price.
       Inr ([(''from'', to_lower (sr_From q)), (''to'', to_lower (sr_To q))] @ value
         @ (if sr_GasLimit q > 0 then [(''gas'', EncodeUint64 lib (sr_GasLimit q))] else [])
         @ price
         @ (case sr_Nonce q of None \<Rightarrow> [] | Some n \<Rightarrow> [(''nonce'', EncodeUint64 lib n)]))))"

definition check_send :: "'v EthLib \<Rightarrow> Config \<Rightarrow> Request \<Rightarrow> (string \<times> string) list result" where
  "check_send lib cfg r =
     and_then (hq_Body r) (\<lambda>j. and_then (decode_send j) (\<lambda>q.
       let q = (if sr_From q = '''' then q\<lparr>sr_From := ui_DefaultFrom (cf_UI cfg)\<rparr> else q) in
       if sr_From q = '''' \<or> sr_To q = '''' then Inl (ErrNew ''from and to are required'')
       else if \<not> IsHexAddress lib (sr_From q) \<or> \<not> IsHexAddress lib (sr_To q)
       then Inl (ErrNew ''invalid from/to address'')
       else send_params lib q))"

definition send_call :: "(string \<times> string) list \<Rightarrow> node_call" where
  "send_call ps = (''eth_sendTransaction'', [JObj (map (\<lambda>(k, v). (k, JStr v)) ps)])"

definition handleSendTx :: "'v EthLib \<Rightarrow> 's server \<Rightarrow> (node_call \<Rightarrow> net) \<Rightarrow> Request \<Rightarrow> Response \<Rightarrow>
    Response \<times> node_call list" where
  "handleSendTx lib srv node r w =
     (if hq_Method r \<noteq> ''POST'' then (WriteHeader 405 w, [])
      else case check_send lib (us_cfg srv) r of
        Inl e \<Rightarrow> (writeError e w, [])
      | Inr ps \<Rightarrow>
          (case ui_call srv node (send_call ps) unmarshal_string of
             Inl e \<Rightarrow> writeError e w
           | Inr hash \<Rightarrow> writeJSON (json_object [(''tx_hash'', marshal_string hash)]) w, [send_call ps]))"

definition handleMine :: "'s server \<Rightarrow> (node_call \<Rightarrow> net) \<Rightarrow> Request \<Rightarrow> Response \<Rightarrow> Response \<times> node_call list" where
  "handleMine srv node r w =
     (if hq_Method r \<noteq> ''POST'' then (WriteHeader 405 w, [])
      else let c = (''evm_mine'', []) in
        (case ui_call srv node c unmarshal_string of
           Inl e \<Rightarrow> writeError e w
         | Inr res \<Rightarrow> writeJSON (json_object [(''result'', marshal_string ''ok'')]) w, [c]))"

section \<open>Handlers that use the disk\<close>

text \<open>
  The files by name.  A file can be unreadable (\<open>dk_fault\<close>), and a write can fail before the
  file is opened or, since \<open>os.WriteFile\<close> truncates it first, after some bytes.
\<close>

type_synonym files = "string \<Rightarrow> string option"

datatype write_result = Written | NotOpened go_error | Partial go_error nat

definition os_ReadFile :: "(string \<Rightarrow> go_error option) \<Rightarrow> files \<Rightarrow> string \<Rightarrow> string result" where
  "os_ReadFile bad d path = (case bad path of Some e \<Rightarrow> Inl e
     | None \<Rightarrow> (case d path of None \<Rightarrow> Inl (ErrNew ''no such file or directory'') | Some b \<Rightarrow> Inr b))"

definition os_WriteFile :: "write_result \<Rightarrow> string \<Rightarrow> string \<Rightarrow> files \<Rightarrow> go_error option \<times> files" where
  "os_WriteFile wr path b d = (case wr of Written \<Rightarrow> (None, d(path \<mapsto> b))
     | NotOpened e \<Rightarrow> (Some e, d) | Partial e n \<Rightarrow> (Some e, d(path \<mapsto> take n b)))"

definition handleTokenLatest :: "(string \<Rightarrow> go_error option) \<Rightarrow> files \<Rightarrow> Response \<Rightarrow> Response" where
  "handleTokenLatest bad d w =
     (let path = ''/app/data/token.json'' in
      if d path = None then writeError (ErrNew ''token.json not found'') w
      else case os_ReadFile bad d path of
        Inl e \<Rightarrow> writeError e w
      | Inr b \<Rightarrow> resp_Write b (header_Set ''Content-Type'' ''application/json'' w))"

definition EqualFold :: "string \<Rightarrow> string \<Rightarrow> bool" where
  "EqualFold s t \<longleftrightarrow> to_lower s = to_lower t"

text \<open>The loop that looks for the contract; 0 if no name matches.\<close>

fun token_index :: "nat \<Rightarrow> ContractConfig list \<Rightarrow> nat" where
  "token_index i [] = 0"
| "token_index i (c # cs) =
     (if EqualFold (ct_Name c) ''LocalERC20'' \<or> EqualFold (ct_Name c) ''TestToken'' then i
      else token_index (Suc i) cs)"

definition set_token_address :: "string \<Rightarrow> Config \<Rightarrow> Config" where
  "set_token_address a cfg =
     (let cs = cf_Contracts cfg; i = token_index 0 cs
      in cfg\<lparr>cf_Contracts := cs[i := (cs ! i)\<lparr>ct_Address := a\<rparr>]\<rparr>)"

text \<open>The YAML library: \<open>yaml.Unmarshal\<close> and \<open>yaml.Marshal\<close> for a configuration.\<close>

record Yaml =
  ym_Unmarshal :: "string \<Rightarrow> Config result"
  ym_Marshal :: "Config \<Rightarrow> string result"

definition config_path :: "string \<Rightarrow> string" where
  "config_path path = (if path = '''' then ''configs/config.sample.yaml'' else path)"

definition updateConfigTokenAddress :: "Yaml \<Rightarrow> (string \<Rightarrow> go_error option) \<Rightarrow> write_result \<Rightarrow>
    string \<Rightarrow> string \<Rightarrow> files \<Rightarrow> go_error option \<times> files" where
  "updateConfigTokenAddress Y bad wr path address d =
     (let path = config_path path;
          new = and_then (os_ReadFile bad d path) (\<lambda>b. and_then (ym_Unmarshal Y b) (\<lambda>cfg.
            if cf_Contracts cfg = [] then Inl (ErrNew ''no contracts in config'')
            else ym_Marshal Y (set_token_address address cfg)))
      in case new of Inl e \<Rightarrow> (Some e, d) | Inr b \<Rightarrow> os_WriteFile wr path b d)"

definition decode_apply :: "json \<Rightarrow> string result" where
  "decode_apply j =
     (if \<not> is_object j then Inl (ErrNew ''json: cannot unmarshal into Go value of struct type'')
      else unmarshal_string (json_field ''address'' j))"

definition handleTokenApply :: "Yaml \<Rightarrow> (string \<Rightarrow> go_error option) \<Rightarrow> write_result \<Rightarrow> string \<Rightarrow>
    files \<Rightarrow> Request \<Rightarrow> Response \<Rightarrow> Response \<times> files" where
  "handleTokenApply Y bad wr env d r w =
     (if hq_Method r \<noteq> ''POST'' then (WriteHeader 405 w, d)
      else case and_then (hq_Body r) decode_apply of
        Inl e \<Rightarrow> (writeError e w, d)
      | Inr address \<Rightarrow>
          (let addr = TrimSpace address in
           if addr = [] then (writeError (ErrNew ''address is required'') w, d)
           else case updateConfigTokenAddress Y bad wr env addr d of
             (Some e, d') \<Rightarrow> (writeError e w, d')
           | (None, d') \<Rightarrow> (writeJSON (json_object [(''result'', marshal_string ''ok'')]) w, d')))"

section \<open>The routes\<close>

datatype endpoint =
    StaticFiles | ApiMempool | ApiLogs | ApiStream | ApiAccounts | ApiSend | ApiMine
  | ApiTokenLatest | ApiTokenApply

definition routes :: "string \<Rightarrow> endpoint" where
  "routes path = (case map_of
     [(''/api/mempool'', ApiMempool), (''/api/logs'', ApiLogs), (''/api/stream'', ApiStream),
      (''/api/accounts'', ApiAccounts), (''/api/tx/send'', ApiSend), (''/api/mine'', ApiMine),
      (''/api/token/latest'', ApiTokenLatest), (''/api/token/apply'', ApiTokenApply)] path of
     Some e \<Rightarrow> e | None \<Rightarrow> StaticFiles)"

text \<open>
  What surrounds the server while it answers one request; \<open>ux_static\<close> is the file server of
  \<open>net/http\<close> on the embedded files, \<open>ux_ticks\<close> the ticks of a stream before it is closed.
\<close>

record ('s, 'v) ui_env =
  ux_lib :: "'v EthLib"
  ux_time :: "time \<Rightarrow> string"
  ux_node :: "node_call \<Rightarrow> net"
  ux_faults :: faults
  ux_db :: 's
  ux_flusher :: bool
  ux_ticks :: "(faults \<times> 's) list"
  ux_yaml :: Yaml
  ux_unreadable :: "string \<Rightarrow> go_error option"
  ux_write :: write_result
  ux_CONFIG_PATH :: string
  ux_static :: "Request \<Rightarrow> Response"

definition ui_serve :: "('s, 'v) ui_env \<Rightarrow> 's server \<Rightarrow> files \<Rightarrow> Request \<Rightarrow>
    Response result \<times> node_call list \<times> files" where
  "ui_serve X srv d r =
     (let w = fresh_response; calls = (\<lambda>(w, cs). (Inr w, cs, d)) in
      case routes (hq_Path r) of
        StaticFiles \<Rightarrow> (Inr (ux_static X r), [], d)
      | ApiMempool \<Rightarrow> (Inr (handleMempool (ux_time X) srv (ux_faults X) (ux_db X) r w), [], d)
      | ApiLogs \<Rightarrow> (Inr (handleLogs (ux_time X) srv (ux_faults X) (ux_db X) r w), [], d)
      | ApiStream \<Rightarrow> (handleStream (ux_time X) srv (ux_flusher X) (ux_ticks X) r w, [], d)
      | ApiAccounts \<Rightarrow> calls (handleAccounts srv (ux_node X) w)
      | ApiSend \<Rightarrow> calls (handleSendTx (ux_lib X) srv (ux_node X) r w)
      | ApiMine \<Rightarrow> calls (handleMine srv (ux_node X) r w)
      | ApiTokenLatest \<Rightarrow> (Inr (handleTokenLatest (ux_unreadable X) d w), [], d)
      | ApiTokenApply \<Rightarrow> (case handleTokenApply (ux_yaml X) (ux_unreadable X) (ux_write X)
            (ux_CONFIG_PATH X) d r w of (w, d') \<Rightarrow> (Inr w, [], d')))"

section \<open>Starting the server\<close>

text \<open>An \<open>Inl\<close> is the panic of \<open>main\<close>; otherwise the address it listens on and the server.\<close>

definition ui_mustLoadConfig :: "Yaml \<Rightarrow> (string \<Rightarrow> go_error option) \<Rightarrow> files \<Rightarrow> string \<Rightarrow> Config result" where
  "ui_mustLoadConfig Y bad d env = Load (os_ReadFile bad d) (ym_Unmarshal Y) (config_path env)"

definition ui_main :: "Yaml \<Rightarrow> (string \<Rightarrow> go_error option) \<Rightarrow> files \<Rightarrow> string \<Rightarrow> bool \<Rightarrow> sql_open \<Rightarrow>
    (string \<times> db server) result" where
  "ui_main Y bad d env tag openDB =
     and_then (ui_mustLoadConfig Y bad d env) (\<lambda>cfg.
     and_then (store_New tag openDB (cf_Database cfg)) (\<lambda>st.
       let rpcClient = NewClient (mc_HTTPURL (cf_Mempool cfg)) (mc_PendingWorkers (cf_Mempool cfg))
             (ix_RateLimitPerSecond (cf_Indexer cfg));
           addr = ui_ListenAddr (cf_UI cfg)
       in Inr (if addr = '''' then '':8080'' else addr, newServer cfg st rpcClient)))"

end
