(* ===== verification/Ui_Correct.thy ===== *)
theory Ui_Correct
  imports Ui Demo
begin

text \<open>
  What the web server guarantees: a transaction reaches the node only after the checks and with
  exactly the parameters asked for; only \<open>POST\<close> changes anything; applying a token address keeps
  the configuration valid; and a browser receives one event per tick of the stream.
\<close>

section \<open>Responses\<close>

lemma code_written [simp]:
  "hw_Code (WriteHeader c fresh_response) = Some c"
  "hw_Code (writeError e w) = (case hw_Code w of None \<Rightarrow> Some 400 | Some c \<Rightarrow> Some c)"
  "hw_Code (writeJSON v w) = (case hw_Code w of None \<Rightarrow> Some 200 | Some c \<Rightarrow> Some c)"
  by (auto simp: WriteHeader_def writeError_def writeJSON_def resp_Write_def header_Set_def
      fresh_response_def split: option.splits)

lemma fresh_code [simp]: "hw_Code fresh_response = None"
  by (simp add: fresh_response_def)

section \<open>Sending a transaction\<close>

lemma amount_param_Inr:
  assumes "amount_param lib key field v = Inr ps"
  shows "(v = [] \<and> ps = []) \<or> (\<exists>n. v \<noteq> [] \<and> big_SetString v = Some n \<and> ps = [(key, EncodeBig lib n)])"
  using assms by (auto simp: amount_param_def split: if_splits option.splits)

text \<open>What one amount of the request becomes.\<close>

definition amount_sent :: "'v EthLib \<Rightarrow> string \<Rightarrow> string option \<Rightarrow> bool" where
  "amount_sent lib v p \<longleftrightarrow> (if v = [] then p = None
     else \<exists>n. big_SetString v = Some n \<and> p = Some (EncodeBig lib n))"

lemma send_params_Inr:
  assumes "send_params lib q = Inr ps"
  shows "map_of ps ''from'' = Some (to_lower (sr_From q)) \<and> map_of ps ''to'' = Some (to_lower (sr_To q))
    \<and> amount_sent lib (sr_ValueWei q) (map_of ps ''value'')
    \<and> amount_sent lib (sr_GasPrice q) (map_of ps ''gasPrice'')
    \<and> map_of ps ''gas'' = (if sr_GasLimit q = 0 then None else Some (EncodeUint64 lib (sr_GasLimit q)))
    \<and> map_of ps ''nonce'' = map_option (EncodeUint64 lib) (sr_Nonce q)"
proof -
  from assms obtain v p where v: "amount_param lib ''value'' ''value_wei'' (sr_ValueWei q) = Inr v"
    and p: "amount_param lib ''gasPrice'' ''gas_price_wei'' (sr_GasPrice q) = Inr p"
    and ps: "ps = [(''from'', to_lower (sr_From q)), (''to'', to_lower (sr_To q))] @ v
       @ (if sr_GasLimit q > 0 then [(''gas'', EncodeUint64 lib (sr_GasLimit q))] else [])
       @ p @ (case sr_Nonce q of None \<Rightarrow> [] | Some n \<Rightarrow> [(''nonce'', EncodeUint64 lib n)])"
    unfolding send_params_def and_then_Inr by auto
  show ?thesis
    using amount_param_Inr [OF v] amount_param_Inr [OF p]
    by (cases "sr_Nonce q") (auto simp: ps amount_sent_def word_gt_0)
qed

definition sender :: "Config \<Rightarrow> send_request \<Rightarrow> string" where
  "sender cfg q = (if sr_From q = [] then ui_DefaultFrom (cf_UI cfg) else sr_From q)"

lemma check_send_Inr:
  assumes "check_send lib cfg r = Inr ps"
  obtains j q where "hq_Body r = Inr j" "decode_send j = Inr q"
    "IsHexAddress lib (sender cfg q)" "IsHexAddress lib (sr_To q)"
    "send_params lib (q\<lparr>sr_From := sender cfg q\<rparr>) = Inr ps"
proof -
  have same: "(if sr_From q = '''' then q\<lparr>sr_From := ui_DefaultFrom (cf_UI cfg)\<rparr> else q)
      = q\<lparr>sr_From := sender cfg q\<rparr>" for q
    by (simp add: sender_def)
  from assms obtain j q where jq: "hq_Body r = Inr j" "decode_send j = Inr q"
    and c: "(let q = q\<lparr>sr_From := sender cfg q\<rparr> in
       if sr_From q = '''' \<or> sr_To q = '''' then Inl (ErrNew ''from and to are required'')
       else if \<not> IsHexAddress lib (sr_From q) \<or> \<not> IsHexAddress lib (sr_To q)
       then Inl (ErrNew ''invalid from/to address'') else send_params lib q) = Inr ps"
    unfolding check_send_def and_then_Inr same by auto
  from c have "IsHexAddress lib (sender cfg q) \<and> IsHexAddress lib (sr_To q)
      \<and> send_params lib (q\<lparr>sr_From := sender cfg q\<rparr>) = Inr ps"
    by (auto simp: Let_def split: if_splits)
  with jq that show ?thesis by blast
qed


section \<open>Who changes what\<close>

lemma token_apply_frame:
  assumes "handleTokenApply Y bad wr env d r w = (w', d')"
  shows "(hq_Method r \<noteq> ''POST'' \<longrightarrow> d' = d) \<and> (p \<noteq> config_path env \<longrightarrow> d' p = d p)"
  using assms
  by (auto simp: handleTokenApply_def updateConfigTokenAddress_def os_WriteFile_def Let_def
      split: if_splits sum.splits prod.splits write_result.splits)


section \<open>Applying a token address\<close>

text \<open>
  What the model asks of the YAML library: a configuration it has read, with other contracts,
  is read back as it was written.
\<close>

definition yaml_roundtrip :: "Yaml \<Rightarrow> bool" where
  "yaml_roundtrip Y \<longleftrightarrow> (\<forall>b c cs out. ym_Unmarshal Y b = Inr c \<and> ym_Marshal Y (c\<lparr>cf_Contracts := cs\<rparr>) = Inr out
     \<longrightarrow> ym_Unmarshal Y out = Inr (c\<lparr>cf_Contracts := cs\<rparr>))"

lemma resolveNetwork_contracts:
  "resolveNetwork (c\<lparr>cf_Contracts := cs\<rparr>) =
     (case resolveNetwork c of Inl e \<Rightarrow> Inl e | Inr c' \<Rightarrow> Inr (c'\<lparr>cf_Contracts := cs\<rparr>))"
  by (auto simp: resolveNetwork_def split: option.splits)

lemma defaults_contracts:
  "applyMempoolDefaults (c\<lparr>cf_Contracts := cs\<rparr>) = (applyMempoolDefaults c)\<lparr>cf_Contracts := cs\<rparr>"
  "applyUIDefaults (c\<lparr>cf_Contracts := cs\<rparr>) = (applyUIDefaults c)\<lparr>cf_Contracts := cs\<rparr>"
  by (simp_all add: applyMempoolDefaults_def applyUIDefaults_def Let_def)

lemma contracts_first:
  "c\<lparr>cf_Contracts := cs, cf_Indexer := x\<rparr> = c\<lparr>cf_Indexer := x, cf_Contracts := cs\<rparr>"
  "c\<lparr>cf_Contracts := cs, cf_Database := y\<rparr> = c\<lparr>cf_Database := y, cf_Contracts := cs\<rparr>"
  by simp_all

lemma Validate_contracts:
  assumes "Validate c = Inr c'" and "cs \<noteq> []" and "list_all contract_ok cs"
  shows "Validate (c\<lparr>cf_Contracts := cs\<rparr>) = Inr (c'\<lparr>cf_Contracts := cs\<rparr>) \<and> cf_Contracts c' = cf_Contracts c
    \<and> list_all contract_ok (cf_Contracts c)"
proof -
  from assms(1) obtain c1 where c1: "resolveNetwork c = Inr c1"
    by (auto simp: Validate_def and_then_Inr)
  then have keep: "cf_Contracts c1 = cf_Contracts c" by (elim resolveNetwork_ok) simp
  have none: "check_contracts 0 cs = None" using assms(3) by (simp add: check_contracts_None)
  have "Validate (c\<lparr>cf_Contracts := cs\<rparr>) = Inr (c'\<lparr>cf_Contracts := cs\<rparr>) \<and> cf_Contracts c' = cf_Contracts c1
     \<and> check_contracts 0 (cf_Contracts c1) = None"
    using assms(1,2) none
    by (auto simp: Validate_def c1 resolveNetwork_contracts contracts_first defaults_contracts Let_def
        split: if_splits option.splits)
  with keep show ?thesis by (simp add: check_contracts_None)
qed

lemma token_index_in: "cs \<noteq> [] \<Longrightarrow> token_index i cs < i + length cs"
proof (induction cs arbitrary: i)
  case (Cons c cs)
  show ?case
  proof (cases "cs = []")
    case False
    with Cons.IH [of "Suc i"] show ?thesis by simp
  qed simp
qed simp

lemma set_address_ok:
  assumes "list_all contract_ok cs" and "i < length cs" and "a \<noteq> []"
  shows "list_all contract_ok (cs[i := (cs ! i)\<lparr>ct_Address := a\<rparr>])"
proof -
  have "contract_ok (cs ! i)" using assms by (simp add: list_all_length)
  with assms(3) have "contract_ok ((cs ! i)\<lparr>ct_Address := a\<rparr>)" by (simp add: contract_ok_def)
  with assms(1,2) show ?thesis by (simp add: list_all_length nth_list_update)
qed

lemma apply_written:
  assumes "handleTokenApply Y bad wr env d r fresh_response = (w, d')" and "hw_Code w = Some 200"
  obtains j a b cfg out where "hq_Body r = Inr j" "decode_apply j = Inr a" "TrimSpace a \<noteq> []"
    "os_ReadFile bad d (config_path env) = Inr b" "ym_Unmarshal Y b = Inr cfg" "cf_Contracts cfg \<noteq> []"
    "ym_Marshal Y (set_token_address (TrimSpace a) cfg) = Inr out" "d' = d(config_path env \<mapsto> out)"
proof -
  from assms obtain j a where "hq_Body r = Inr j" "decode_apply j = Inr a" and ne: "TrimSpace a \<noteq> []"
    and u: "updateConfigTokenAddress Y bad wr env (TrimSpace a) d = (None, d')"
    by (auto simp: handleTokenApply_def and_then_def Let_def split: if_splits sum.splits prod.splits option.splits)
  moreover from u obtain b cfg out where "os_ReadFile bad d (config_path env) = Inr b"
    "ym_Unmarshal Y b = Inr cfg" "cf_Contracts cfg \<noteq> []"
    "ym_Marshal Y (set_token_address (TrimSpace a) cfg) = Inr out"
    "os_WriteFile wr (config_path env) out d = (None, d')"
    by (auto simp: updateConfigTokenAddress_def and_then_def Let_def split: if_splits sum.splits)
  ultimately show ?thesis
    using that by (auto simp: os_WriteFile_def split: write_result.splits)
qed

text \<open>
  C25. Applying a token address.  If the indexer could load the configuration and \<open>handleTokenApply\<close>
  answers 200, the indexer can still load it, and gets the same configuration but for one
  address: that of the first contract named \<open>LocalERC20\<close> or \<open>TestToken\<close> (of the first contract if
  there is none), which is the trimmed address of the request.
\<close>

theorem token_apply_loads:
  assumes "yaml_roundtrip Y" and "Load (os_ReadFile bad d) (ym_Unmarshal Y) (config_path env) = Inr cfg"
    and "handleTokenApply Y bad wr env d r fresh_response = (w, d')" and "hw_Code w = Some 200"
  shows "\<exists>j a. hq_Body r = Inr j \<and> decode_apply j = Inr a
    \<and> Load (os_ReadFile bad d') (ym_Unmarshal Y) (config_path env) =
        Inr (cfg\<lparr>cf_Contracts := (cf_Contracts cfg)[token_index 0 (cf_Contracts cfg) :=
          (cf_Contracts cfg ! token_index 0 (cf_Contracts cfg))\<lparr>ct_Address := TrimSpace a\<rparr>]\<rparr>)"
proof -
  from apply_written [OF assms(3,4)] obtain j a b raw out where j: "hq_Body r = Inr j" "decode_apply j = Inr a"
    and a: "TrimSpace a \<noteq> []" and b: "os_ReadFile bad d (config_path env) = Inr b"
    and raw: "ym_Unmarshal Y b = Inr raw" "cf_Contracts raw \<noteq> []"
    and out: "ym_Marshal Y (set_token_address (TrimSpace a) raw) = Inr out" and d': "d' = d(config_path env \<mapsto> out)" .
  let ?i = "token_index 0 (cf_Contracts raw)"
  let ?cs = "(cf_Contracts raw)[?i := (cf_Contracts raw ! ?i)\<lparr>ct_Address := TrimSpace a\<rparr>]"
  from assms(2) b raw have v: "Validate raw = Inr cfg" by (simp add: Load_def)
  from v have ok: "list_all contract_ok (cf_Contracts raw)" "cf_Contracts cfg = cf_Contracts raw"
    using Validate_contracts [OF v, of "cf_Contracts raw"] Validate_config_ok [OF v]
    by (auto simp: Validate_def and_then_Inr Let_def check_contracts_None
        elim!: resolveNetwork_ok split: if_splits option.splits)
  with Validate_contracts [OF v, of ?cs] set_address_ok [OF ok(1) _ a, of ?i] token_index_in [OF raw(2), of 0] raw(2)
  have "Validate (raw\<lparr>cf_Contracts := ?cs\<rparr>) = Inr (cfg\<lparr>cf_Contracts := ?cs\<rparr>)" by simp
  moreover have "ym_Unmarshal Y out = Inr (raw\<lparr>cf_Contracts := ?cs\<rparr>)"
    using assms(1) [unfolded yaml_roundtrip_def, rule_format, of b raw ?cs out] raw(1) out
    by (simp add: set_token_address_def Let_def)
  moreover have "os_ReadFile bad d' (config_path env) = Inr out"
    using b by (simp add: d' os_ReadFile_def split: option.splits)
  ultimately show ?thesis using j ok(2) by (simp add: Load_def)
qed

section \<open>What a browser receives\<close>

text \<open>
  The lines of an event stream (a line ends with a line feed, a carriage return or both), and
  the events that \<open>EventSource\<close> dispatches from them: the type and the data gathered up to an
  empty line.
\<close>

function sse_lines :: "string \<Rightarrow> string \<Rightarrow> string list" where
  "sse_lines cur [] = []"
| "sse_lines cur (c # s) =
     (if c = CHR 0x0A then rev cur # sse_lines [] s
      else if c = CHR 0x0D then rev cur # sse_lines [] (if s \<noteq> [] \<and> hd s = CHR 0x0A then tl s else s)
      else sse_lines (c # cur) s)"
  by pat_completeness auto
termination by (relation "measure (\<lambda>(cur, s). length s)") auto

definition sse_field :: "string \<Rightarrow> string \<times> string" where
  "sse_field l = (takeWhile (\<lambda>c. c \<noteq> CHR '':'') l,
     (case dropWhile (\<lambda>c. c \<noteq> CHR '':'') l of [] \<Rightarrow> []
      | _ # v \<Rightarrow> (case v of [] \<Rightarrow> [] | c # v' \<Rightarrow> if c = CHR '' '' then v' else v)))"

fun sse_events :: "string \<Rightarrow> string option \<Rightarrow> string list \<Rightarrow> (string \<times> string) list" where
  "sse_events ty data [] = []"
| "sse_events ty data (l # ls) =
     (if l = [] then
        (case data of None \<Rightarrow> sse_events [] None ls
         | Some x \<Rightarrow> (if ty = [] then ''message'' else ty, x) # sse_events [] None ls)
      else case sse_field l of (k, v) \<Rightarrow>
        if k = ''event'' then sse_events v data ls
        else if k = ''data''
        then sse_events ty (Some (case data of None \<Rightarrow> v | Some x \<Rightarrow> x @ CHR 0x0A # v)) ls
        else sse_events ty data ls)"

definition received :: "string \<Rightarrow> (string \<times> string) list" where
  "received body = sse_events [] None (sse_lines [] body)"

text \<open>The event a tick is meant to be.\<close>

definition stream_event :: "string result \<Rightarrow> string \<times> string" where
  "stream_event p = (case p of Inl e \<Rightarrow> (''error'', marshal_string (err_text e)) | Inr b \<Rightarrow> (''message'', b))"

lemma sse_line: "one_line l \<Longrightarrow> sse_lines cur (l @ CHR 0x0A # s) = (rev cur @ l) # sse_lines [] s"
  by (induction l arbitrary: cur) auto

lemma received_nil [simp]: "received [] = []"
  by (simp add: received_def)

lemma received_frame:
  assumes "\<And>b. p = Inr b \<Longrightarrow> one_line b"
  shows "received (stream_frame p @ s) = stream_event p # received s"
proof (cases p)
  case (Inl e)
  have "sse_lines [] (stream_frame p @ s) =
      ''event: error'' # (''data: '' @ marshal_string (err_text e)) # [] # sse_lines [] s"
    using sse_line [of "''event: error''" "[]"] sse_line [of "''data: '' @ marshal_string (err_text e)" "[]"]
      sse_line [of "[]" "[]"] by (simp add: Inl stream_frame_def escapeJSON_def)
  then show ?thesis by (simp add: received_def sse_field_def stream_event_def Inl)
next
  case (Inr b)
  with assms have "sse_lines [] (stream_frame p @ s) = (''data: '' @ b) # [] # sse_lines [] s"
    using sse_line [of "''data: '' @ b" "[]"] sse_line [of "[]" "[]"] by (simp add: stream_frame_def)
  then show ?thesis by (simp add: received_def sse_field_def stream_event_def Inr)
qed

lemma one_line_commas: "(\<And>s. s \<in> set ss \<Longrightarrow> one_line s) \<Longrightarrow> one_line (commas ss)"
  by (induction ss rule: commas.induct) auto

lemma one_line_array: "(\<And>s. s \<in> set ss \<Longrightarrow> one_line s) \<Longrightarrow> one_line (json_array ss)"
  by (simp add: json_array_def one_line_commas)

lemma one_line_object: "list_all (one_line \<circ> snd) kvs \<Longrightarrow> one_line (json_object kvs)"
  by (force simp: json_object_def list_all_iff intro!: one_line_commas)

lemma list_all_optional: "list_all P (if c then [] else [x]) \<longleftrightarrow> c \<or> P x"
  by simp

lemma one_line_rows:
  assumes "\<And>t. one_line (tt t)"
  shows "one_line (log_json tt l)" and "one_line (tx_json tt m)"
  using assms by (auto simp only: log_json_def tx_json_def Let_def list_all_optional list_all_append
      list.pred_inject comp_apply snd_conv marshal_string_line show_nat_line simp_thms intro!: one_line_object)

lemma stream_rows_line:
  assumes "\<And>t. one_line (tt t)" and "stream_rows tt srv feed status limit f s = Inr b"
  shows "one_line b"
  using assms(2) one_line_rows [OF assms(1)]
  by (auto simp: stream_rows_def and_then_Inr intro!: one_line_array split: if_splits)

lemma stream_body:
  "hw_Body (fold (\<lambda>(f, s). resp_Write (stream_frame (g f s))) ticks w)
     = hw_Body w @ concat (map stream_frame (map (\<lambda>(f, s). g f s) ticks))"
proof (induction ticks arbitrary: w)
  case (Cons x ticks)
  then show ?case by (cases x) (simp add: resp_Write_def WriteHeader_def Let_def)
qed simp

lemma received_frames:
  assumes "\<And>p b. p \<in> set ps \<Longrightarrow> p = Inr b \<Longrightarrow> one_line b"
  shows "received (concat (map stream_frame ps)) = map stream_event ps"
  using assms by (induction ps) (simp_all add: received_frame)

text \<open>
  C26. The stream.  A browser connected to \<open>/api/stream\<close> receives one event per tick, in order:
  the rows of the feed as the data of a message, or, when the store fails, an \<open>error\<close> event with
  the text of the error; whatever the rows and the text contain, no event is split or lost.
\<close>

theorem stream_delivers:
  assumes "handleStream tt srv True ticks r fresh_response = Inr w" and "\<And>t. one_line (tt t)"
    and "feed = (if query_Get ''feed'' r = [] then ui_DefaultFeed (cf_UI (us_cfg srv)) else query_Get ''feed'' r)"
  shows "received (hw_Body w) = map (\<lambda>(f, s). stream_event (stream_rows tt srv feed (query_Get ''status'' r)
            (parseInt (query_Get ''limit'' r) 100) f s)) ticks"
proof -
  let ?g = "stream_rows tt srv feed (query_Get ''status'' r) (parseInt (query_Get ''limit'' r) 100)"
  let ?w = "header_Set ''Connection'' ''keep-alive'' (header_Set ''Cache-Control'' ''no-cache''
                (header_Set ''Content-Type'' ''text/event-stream'' fresh_response))"
  have line: "one_line b" if "?g f s = Inr b" for f s b
    using that by (rule stream_rows_line [of tt, rotated]) (rule assms(2))
  have "hw_Body ?w = []" by (simp add: header_Set_def fresh_response_def)
  moreover from assms(1,3) have "w = fold (\<lambda>(f, s). resp_Write (stream_frame (?g f s))) ticks ?w"
    by (simp add: handleStream_def Let_def split: if_splits option.splits)
  ultimately have "hw_Body w = concat (map stream_frame (map (\<lambda>(f, s). ?g f s) ticks))"
    using stream_body [of ?g ticks ?w] by simp
  moreover have "received (concat (map stream_frame (map (\<lambda>(f, s). ?g f s) ticks)))
      = map stream_event (map (\<lambda>(f, s). ?g f s) ticks)"
    using line by (intro received_frames) auto
  ultimately show ?thesis by (simp add: comp_def split_beta)
qed

section \<open>The properties on a concrete server\<close>

definition demo_server :: "db server" where
  "demo_server = newServer sample_validated sqlite_store (NewClient ''http://h'' 4 0)"

definition demo_send :: Request where
  "demo_send = \<lparr>hq_Method = ''POST'', hq_Path = ''/api/tx/send'', hq_Query = [],
     hq_Body = Inr (JObj [(''from'', JStr ''Alice''), (''to'', JStr ''Bob''), (''value_wei'', JStr ''25'')])\<rparr>"

definition dead_node :: "node_call \<Rightarrow> net" where
  "dead_node c i = \<lparr>at_wait = Some ErrCanceled, at_build = None, at_do = Inl ErrCanceled\<rparr>"

lemma lower_names: "to_lower ''Alice'' = ''alice''" "to_lower ''Bob'' = ''bob''"
  by code_simp+

lemma demo_send_checked:
  "check_send demo_lib (us_cfg demo_server) demo_send =
     Inr [(''from'', ''alice''), (''to'', ''bob''), (''value'', unary 25)]"
  by (simp add: demo_send_def check_send_def decode_send_def json_field_def unmarshal_string_def
      unmarshal_u64_def unmarshal_ptr_def is_object_def send_params_def amount_param_def
      big_SetString_def sign_of_def dec_digit_def digit_val_def char_lower_def lower_names
      read_nat_def char_digit_def demo_lib_def)


text \<open>A YAML library for files that hold one address.\<close>

definition page :: "string \<Rightarrow> Config" where
  "page a = sample_config\<lparr>cf_Contracts := [\<lparr>ct_Name = ''TestToken'', ct_Address = a, ct_ABIPath = ''a'',
     ct_Events = [''Transfer'']\<rparr>]\<rparr>"

definition demo_yaml :: Yaml where
  "demo_yaml = \<lparr>ym_Unmarshal = (\<lambda>b. Inr (page b)),
     ym_Marshal = (\<lambda>c. let a = ct_Address (hd (cf_Contracts c)) in
       if c = page a then Inr a else Inl (ErrNew ''not a page''))\<rparr>"

definition demo_disk :: files where
  "demo_disk = [''c.yaml'' \<mapsto> ''0xold'']"

definition demo_apply :: Request where
  "demo_apply = \<lparr>hq_Method = ''POST'', hq_Path = ''/api/token/apply'', hq_Query = [],
     hq_Body = Inr (JObj [(''address'', JStr '' 0xnew '')])\<rparr>"

lemma demo_yaml_simps [simp]:
  "ym_Unmarshal demo_yaml b = Inr (page b)" "ct_Address (hd (cf_Contracts (page b))) = b"
  "cf_Contracts (page b) \<noteq> []"
  by (simp_all add: demo_yaml_def page_def)

lemma demo_yaml_marshal: "ym_Marshal demo_yaml c = Inr a \<longleftrightarrow> c = page a"
  by (auto simp: demo_yaml_def Let_def)

lemma demo_yaml_roundtrip: "yaml_roundtrip demo_yaml"
  by (simp add: yaml_roundtrip_def demo_yaml_marshal)

lemma demo_apply_address:
  "and_then (hq_Body demo_apply) decode_apply = Inr '' 0xnew ''" "hq_Method demo_apply = ''POST''"
  "TrimSpace '' 0xnew '' = ''0xnew''"
  by (simp_all add: demo_apply_def decode_apply_def is_object_def json_field_def unmarshal_string_def
      TrimSpace_def is_space_def)

lemma demo_apply_new: "ym_Marshal demo_yaml (set_token_address ''0xnew'' (page ''0xold'')) = Inr ''0xnew''"
  unfolding demo_yaml_marshal by (simp add: set_token_address_def page_def EqualFold_def)

lemma demo_update:
  "updateConfigTokenAddress demo_yaml (\<lambda>p. None) wr ''c.yaml'' ''0xnew'' demo_disk
     = os_WriteFile wr ''c.yaml'' ''0xnew'' demo_disk"
  by (simp add: updateConfigTokenAddress_def config_path_def os_ReadFile_def Let_def
      demo_disk_def demo_apply_new)

lemma demo_page_loads:
  assumes "a \<noteq> []"
  shows "Load (os_ReadFile (\<lambda>p. None) (d(''c.yaml'' \<mapsto> a))) (ym_Unmarshal demo_yaml) ''c.yaml''
     = Inr (sample_validated\<lparr>cf_Contracts := cf_Contracts (page a)\<rparr>)"
proof -
  have "Validate (sample_config\<lparr>cf_Contracts := cf_Contracts (page a)\<rparr>)
      = Inr (sample_validated\<lparr>cf_Contracts := cf_Contracts (page a)\<rparr>)"
    using Validate_contracts [OF sample_validates, of "cf_Contracts (page a)"] assms
    by (simp add: page_def contract_ok_def)
  then show ?thesis by (simp add: Load_def os_ReadFile_def) (simp add: page_def)
qed

theorem token_apply_loads_witness:
  "\<exists>cfg. Load (os_ReadFile (\<lambda>p. None)
        (snd (handleTokenApply demo_yaml (\<lambda>p. None) Written ''c.yaml'' demo_disk demo_apply fresh_response)))
      (ym_Unmarshal demo_yaml) (config_path ''c.yaml'') = Inr cfg
     \<and> ct_Address (cf_Contracts cfg ! 0) = ''0xnew''"
proof -
  let ?h = "handleTokenApply demo_yaml (\<lambda>p. None) Written ''c.yaml'' demo_disk demo_apply fresh_response"
  have "Load (os_ReadFile (\<lambda>p. None) demo_disk) (ym_Unmarshal demo_yaml) (config_path ''c.yaml'')
      = Inr (sample_validated\<lparr>cf_Contracts := cf_Contracts (page ''0xold'')\<rparr>)"
    using demo_page_loads [of "''0xold''" Map.empty] by (simp add: demo_disk_def config_path_def)
  moreover have "hw_Code (fst ?h) = Some 200"
    by (simp add: handleTokenApply_def demo_apply_address demo_update os_WriteFile_def)
  ultimately obtain j a where "hq_Body demo_apply = Inr j" "decode_apply j = Inr a"
    "Load (os_ReadFile (\<lambda>p. None) (snd ?h)) (ym_Unmarshal demo_yaml) (config_path ''c.yaml'') =
       Inr (sample_validated\<lparr>cf_Contracts := (cf_Contracts (page ''0xold''))[0 :=
         (cf_Contracts (page ''0xold'') ! 0)\<lparr>ct_Address := TrimSpace a\<rparr>]\<rparr>)"
    using token_apply_loads [OF demo_yaml_roundtrip, of "\<lambda>p. None" demo_disk "''c.yaml''" _ Written demo_apply
        "fst ?h" "snd ?h"] by (auto simp: page_def EqualFold_def)
  with demo_apply_address show ?thesis by (simp add: page_def)
qed

text \<open>
  \<open>os.WriteFile\<close> truncates the file first: a write that fails leaves a configuration that the
  indexer cannot load any more, although the one before was fine.
\<close>

lemma token_apply_can_lose:
  "\<exists>cfg e. Load (os_ReadFile (\<lambda>p. None) demo_disk) (ym_Unmarshal demo_yaml) ''c.yaml'' = Inr cfg
    \<and> Load (os_ReadFile (\<lambda>p. None) (snd (handleTokenApply demo_yaml (\<lambda>p. None) (Partial ErrCanceled 0)
         ''c.yaml'' demo_disk demo_apply fresh_response))) (ym_Unmarshal demo_yaml) ''c.yaml'' = Inl e"
proof -
  have "Load (os_ReadFile (\<lambda>p. None) demo_disk) (ym_Unmarshal demo_yaml) ''c.yaml''
      = Inr (sample_validated\<lparr>cf_Contracts := cf_Contracts (page ''0xold'')\<rparr>)"
    using demo_page_loads [of "''0xold''" Map.empty] by (simp add: demo_disk_def)
  moreover have "Validate (page []) = Inl (ErrNew (''contracts['' @ show_nat 0 @ ''].address is required''))"
    by (simp add: Validate_def page_def sample_config_def resolveNetwork_def
      applyMempoolDefaults_def applyUIDefaults_def Let_def)
  ultimately show ?thesis
    by (simp add: handleTokenApply_def demo_apply_address demo_update os_WriteFile_def Load_def
        os_ReadFile_def)
qed

definition demo_ui :: "(db, string) ui_env" where
  "demo_ui = \<lparr>ux_lib = demo_lib, ux_time = (\<lambda>t. ''0''), ux_node = dead_node, ux_faults = no_faults,
     ux_db = empty_db, ux_flusher = True, ux_ticks = [], ux_yaml = demo_yaml,
     ux_unreadable = (\<lambda>p. None), ux_write = Written, ux_CONFIG_PATH = ''c.yaml'',
     ux_static = (\<lambda>r. fresh_response)\<rparr>"


definition demo_stream :: Request where
  "demo_stream = \<lparr>hq_Method = ''GET'', hq_Path = ''/api/stream'', hq_Query = [(''feed'', ''logs'')],
     hq_Body = Inr JNull\<rparr>"

definition demo_ticks :: "(faults \<times> db) list" where
  "demo_ticks = [(no_faults, empty_db), (\<lambda>i. Some (ErrNew [CHR ''a'', CHR 0x0A, CHR 0x0A, CHR ''b'']), empty_db)]"

lemma sample_poll: "stream_interval demo_server = 2000000000"
  by (simp add: stream_interval_def seconds_small demo_server_def newServer_def sample_validated_def sample_config_def
      Validate_def resolveNetwork_def applyMempoolDefaults_def applyUIDefaults_def indexer_defaults_def Let_def)

lemma no_logs: "stream_rows tt demo_server ''logs'' status n no_faults empty_db = Inr ''[]''"
proof -
  have "d_logs empty_db = []" by (simp add: empty_db_def)
  then have "st_ListLogs (us_st demo_server) no_faults n empty_db = Inr []"
    by (simp add: demo_server_def newServer_def sqlite_store_def sqlite_ListLogs_def no_faults_def sql_desc_def)
  then show ?thesis by (simp add: stream_rows_def json_array_def)
qed

lemma failed_logs:
  "stream_rows tt demo_server ''logs'' status n (\<lambda>i. Some e) empty_db = Inl e"
  by (simp add: stream_rows_def demo_server_def newServer_def sqlite_store_def sqlite_ListLogs_def Let_def)

theorem stream_delivers_witness:
  "\<exists>w. handleStream (\<lambda>t. ''0'') demo_server True demo_ticks demo_stream fresh_response = Inr w
    \<and> map fst (received (hw_Body w)) = [''message'', ''error'']"
proof -
  obtain w where w: "handleStream (\<lambda>t. ''0'') demo_server True demo_ticks demo_stream fresh_response = Inr w"
    by (simp add: handleStream_def sample_poll NewTicker_def Let_def)
  have "received (hw_Body w) = map (\<lambda>(f, s). stream_event (stream_rows (\<lambda>t. ''0'') demo_server ''logs''
      (query_Get ''status'' demo_stream) (parseInt (query_Get ''limit'' demo_stream) 100) f s)) demo_ticks"
    using stream_delivers [OF w, of "''logs''"] by (simp add: demo_stream_def query_Get_def)
  then have "map fst (received (hw_Body w)) = [''message'', ''error'']"
    by (simp add: demo_ticks_def no_logs failed_logs stream_event_def)
  with w show ?thesis by (intro exI [of _ w] conjI)
qed

end
