(* ===== verification/Served.thy ===== *)
theory Served
  imports Process Ui_Correct
begin

text \<open>
  From the node to the browser: \<open>index follow\<close> and the web server on one database.  What the server
  answers between two passes of the follower is a newest-first listing of what the node has
  answered for the indexed blocks.
\<close>

lemma small_rows_fit:
  "small_rows s \<Longrightarrow> db_inv s \<Longrightarrow> l \<in> ran (db_logs s) \<Longrightarrow> fits_int64 (lr_LogIndex l)"
  by (auto simp: ran_db_logs small_rows_def log_of_row_def)

lemma serve_logs:
  assumes "a_store (us_st srv)" and "db_inv (ux_db X)" and "small_rows (ux_db X)" and "ux_faults X 0 = None"
    and "hq_Path r = ''/api/logs''"
  shows "\<exists>ls. ui_serve X srv d r = (Inr (writeJSON (json_array (map (log_json (ux_time X)) ls)) fresh_response), [], d)
    \<and> newest_logs (effective_limit (parseInt (query_Get ''limit'' r) 100)) (db_logs (ux_db X)) ls"
proof -
  have "routes (hq_Path r) = ApiLogs" using assms(5) by (simp add: routes_def)
  with list_logs [of "us_st srv" "ux_db X" "ux_faults X" "parseInt (query_Get ''limit'' r) 100"]
    assms(1,2,4) small_rows_fit [OF assms(3,2)]
  show ?thesis by (auto simp: ui_serve_def handleLogs_def Let_def)
qed


text \<open>The follower of \<open>demo_follow1\<close> has indexed block 6 with its one log, and a browser asks for the list.\<close>

definition demo_get_logs :: Request where
  "demo_get_logs = \<lparr>hq_Method = ''GET'', hq_Path = ''/api/logs'', hq_Query = [], hq_Body = Inr JNull\<rparr>"

lemma demo_small: "small_indexes (demo_deps 2 6)"
  by (auto simp: small_indexes_def demo_logs_def Let_def fits_int64_def split: if_splits)

lemma demo_one_log: "length (d_logs (wd_store (fs_world (demo_follow1 [])))) = 1"
  by (simp add: demo_follow1_def schema_world_def follow_pass_def demo_follow0_def Detect_def follow_index_def
      sample_simps SetLag_def sqlite_LastCheckpoint_def scanCheckpoint_def processRangeAdaptive_def
      range_loop.simps demo_run)


end
