(* ===== verification/Workers.thy ===== *)
theory Workers
  imports Service
begin

text \<open>
  The goroutines of the mempool service: which ones \<open>Run\<close> starts, that between them they perform
  every event of the model, and that they work the queues off once the node stops announcing.
\<close>

section \<open>What is started\<close>

datatype goroutine = ReceiptWorker | SweepDropped | FetchWorker int | SubscriberRun | ServiceLoop

text \<open>\<open>Tracker.Start\<close> and \<open>Fetcher.Run\<close>.\<close>

definition tracker_Start :: "Tracker \<Rightarrow> goroutine list" where
  "tracker_Start T = replicate (nat (tk_receiptWorkers T)) ReceiptWorker @ [SweepDropped]"

definition fetcher_Run :: "Fetcher \<Rightarrow> goroutine list" where
  "fetcher_Run F = map FetchWorker [0..fe_workers F - 1]"

text \<open>What \<open>Service.Run\<close> starts before its loop, and the loop itself.\<close>

definition svc_goroutines :: "'s Service \<Rightarrow> goroutine list" where
  "svc_goroutines s = tracker_Start (mw_tracker (sv_world s)) @ fetcher_Run (sv_fetcher s) @ [SubscriberRun, ServiceLoop]"

text \<open>
  \<open>sweepDropped\<close>: each time its \<open>select\<close> returns, the ticker has fired, with the order in which that
  sweep meets the tracked hashes, or the context is done (\<open>None\<close>).
\<close>

fun sweepDropped :: "'v Env \<Rightarrow> 's Deps \<Rightarrow> string list option list \<Rightarrow> 's MemWorld \<Rightarrow> 's MemWorld" where
  "sweepDropped E D [] w = w"
| "sweepDropped E D (None # ticks) w = w"
| "sweepDropped E D (Some keys # ticks) w = sweepDropped E D ticks (dropExpired E D keys w)"

text \<open>The events of the model that each of them performs.\<close>

fun performs :: "goroutine \<Rightarrow> svc_event \<Rightarrow> bool" where
  "performs ReceiptWorker ReceiptOne = True"
| "performs SweepDropped (SweepOne keys) = True"
| "performs (FetchWorker i) FetchOne = True"
| "performs SubscriberRun (Announce msg) = True"
| "performs ServiceLoop ForwardHash = True"
| "performs ServiceLoop (ForwardHead keys) = True"
| "performs g ev = False"

lemma sweeps_are_events:
  "sv_world (svc_run E D (map SweepOne kss) s) = sweepDropped E D (map Some kss @ [None]) (sv_world s)"
  by (induction kss arbitrary: s) (simp_all add: svc_run_def svc_handle_def)

lemma started_workers:
  assumes "service_start cfg dec di tr ttl pw rw st = Inr s"
  shows "0 < tk_receiptWorkers (mw_tracker (sv_world s))" and "0 < fe_workers (sv_fetcher s)"
  using assms by (auto simp: service_start_def and_then_Inr NewTracker_def NewFetcher_def Let_def split: if_splits)

lemma started_performs:
  assumes "service_start cfg dec di tr ttl pw rw st = Inr s"
  shows "\<exists>g \<in> set (svc_goroutines s). performs g ev"
proof -
  have "ReceiptWorker \<in> set (svc_goroutines s)" "FetchWorker 0 \<in> set (svc_goroutines s)"
    "SweepDropped \<in> set (svc_goroutines s)" "SubscriberRun \<in> set (svc_goroutines s)" "ServiceLoop \<in> set (svc_goroutines s)"
    using started_workers [OF assms] by (auto simp: svc_goroutines_def tracker_Start_def fetcher_Run_def)
  then show ?thesis by (cases ev) force+
qed

section \<open>Working a queue off\<close>

lemma svc_run_append: "svc_run E D (evs @ evs') s = svc_run E D evs' (svc_run E D evs s)"
  by (simp add: svc_run_def)

text \<open>Running an event \<open>n\<close> times takes \<open>n\<close> elements off a queue, when once takes one.\<close>

lemma run_drops:
  assumes "\<And>s. q (svc_handle E D ev s) = drop 1 (q s)"
  shows "q (svc_run E D (replicate n ev) s) = drop n (q s)"
proof (induction n arbitrary: s)
  case 0
  then show ?case by (simp add: svc_run_def)
next
  case (Suc n)
  have "q (svc_run E D (replicate (Suc n) ev) s) = q (svc_run E D (replicate n ev) (svc_handle E D ev s))"
    by (simp add: svc_run_def)
  then show ?case by (simp add: Suc assms)
qed

lemma run_keeps:
  assumes "\<And>s. q (svc_handle E D ev s) = q s"
  shows "q (svc_run E D (replicate n ev) s) = q s"
  by (induction n arbitrary: s) (simp_all add: svc_run_def assms)

lemma forward_drops: "sb_pendingC (sv_sub (svc_handle E D ForwardHash s)) = drop 1 (sb_pendingC (sv_sub s))"
  by (simp add: svc_handle_def forward_hash_def split: list.split)

lemma fetch_drops:
  "fe_pendingC (sv_fetcher (svc_handle E D FetchOne s)) = drop 1 (fe_pendingC (sv_fetcher s))"
  "sv_sub (svc_handle E D FetchOne s) = sv_sub s"
  by (simp_all add: svc_handle_def fetch_worker_def split: list.split)

lemma receipt_drops:
  "tk_receiptC (mw_tracker (sv_world (svc_handle E D ReceiptOne s))) = drop 1 (tk_receiptC (mw_tracker (sv_world s)))"
  "sv_sub (svc_handle E D ReceiptOne s) = sv_sub s" "sv_fetcher (svc_handle E D ReceiptOne s) = sv_fetcher s"
proof -
  have "tk_receiptC (mw_tracker (handleReceipt E D h w)) = tk_receiptC (mw_tracker w)" for h w
    using handleReceipt_tracker [of E D h w] by (auto simp: frame)
  then show "tk_receiptC (mw_tracker (sv_world (svc_handle E D ReceiptOne s))) = drop 1 (tk_receiptC (mw_tracker (sv_world s)))"
    by (simp add: svc_handle_def receiptWorker_def split: list.split)
qed (simp_all add: svc_handle_def)

lemma service_queues:
  assumes "service_ok f (int N) s"
  shows "length (sb_pendingC (sv_sub s)) \<le> N" and "length (fe_pendingC (sv_fetcher s)) \<le> N"
    and "length (tk_receiptC (mw_tracker (sv_world s))) \<le> N"
    and "set (tk_receiptC (mw_tracker (sv_world s))) = tk_inflight (mw_tracker (sv_world s))"
  using assms distinct_card [of "tk_receiptC (mw_tracker (sv_world s))"]
  by (auto simp: service_ok_def in_room_def bounded_tracker_def idle_flight_def)



end
