(* ===== verification/Slots.thy ===== *)
theory Slots
  imports Rpc_Correct
begin

text \<open>
  The semaphore of the client between goroutines.  The workers of a backfill and those of the
  mempool share one client, whose channel \<open>sem\<close> has room for as many elements as requests may be
  in flight.  Each goroutine makes calls one after the other; what it still has to do is the rest
  of their traces, and the goroutines interleave as they like.
\<close>

section \<open>Goroutines that share a client\<close>

text \<open>A sequence of calls: the concatenation of traces that \<open>Call\<close> can have.\<close>

inductive calls :: "Client \<Rightarrow> rpc_event list \<Rightarrow> bool" for c :: Client where
  none: "calls c []"
| more_calls: "Call c m net (\<lambda>j :: json. dec j :: json result) = (r, evs) \<Longrightarrow> calls c rest \<Longrightarrow> calls c (evs @ rest)"

text \<open>The type a caller decodes into does not matter: the trace is the same.\<close>

lemma try_once_any:
  "snd (try_once again (dec :: json \<Rightarrow> 'a result) a) = snd (try_once again (dec' :: json \<Rightarrow> 'b result) a)
   \<and> (fst (try_once again dec a) = Retry \<longleftrightarrow> fst (try_once again dec' a) = Retry)"
  by (simp add: try_once_def on_response_def split: option.split sum.split)

lemma call_loop_any:
  "snd (call_loop retries net (dec :: json \<Rightarrow> 'a result) attempt) = snd (call_loop retries net (dec' :: json \<Rightarrow> 'b result) attempt)"
proof (induction "Suc retries - attempt" arbitrary: attempt)
  case 0
  then show ?case by (simp add: call_loop.simps)
next
  case (Suc n)
  obtain v e where t: "try_once (attempt < retries) dec (net attempt) = (v, e)" by force
  obtain v' e' where t': "try_once (attempt < retries) dec' (net attempt) = (v', e')" by force
  from try_once_any [of "attempt < retries" dec "net attempt" dec'] t t'
  have "e' = e" "v = Retry \<longleftrightarrow> v' = Retry" by simp_all
  with Suc(1) [of "Suc attempt"] Suc(2) show ?case
    by (cases v; cases v') (simp_all add: call_loop.simps [of retries net _ attempt] t t' split_beta)
qed

lemma call_trace_any: "snd (Call c m net (dec :: json \<Rightarrow> 'a result)) = snd (Call c m net (dec' :: json \<Rightarrow> 'b result))"
  by (simp add: Call_def call_loop_any [of _ net dec _ dec'] split: option.split)

record sems =
  sl_used :: nat
  sl_todo :: "rpc_event list list"

text \<open>
  One step of goroutine \<open>i\<close>.  \<open>c.sem <- struct{}{}\<close> waits while the channel is full, \<open><-c.sem\<close> while it
  is empty; requests and pauses need nothing.
\<close>

inductive sem_step :: "Client \<Rightarrow> sems \<Rightarrow> sems \<Rightarrow> bool" for c :: Client where
  acquire: "i < length (sl_todo s) \<Longrightarrow> sl_todo s ! i = Acquire # evs \<Longrightarrow> int (sl_used s) < cl_sem c \<Longrightarrow>
    sem_step c s (s\<lparr>sl_used := Suc (sl_used s), sl_todo := (sl_todo s)[i := evs]\<rparr>)"
| release: "i < length (sl_todo s) \<Longrightarrow> sl_todo s ! i = Release # evs \<Longrightarrow> sl_used s = Suc n \<Longrightarrow>
    sem_step c s (s\<lparr>sl_used := n, sl_todo := (sl_todo s)[i := evs]\<rparr>)"
| post: "i < length (sl_todo s) \<Longrightarrow> sl_todo s ! i = Post # evs \<Longrightarrow> sem_step c s (s\<lparr>sl_todo := (sl_todo s)[i := evs]\<rparr>)"
| pause: "i < length (sl_todo s) \<Longrightarrow> sl_todo s ! i = Backoff k # evs \<Longrightarrow> sem_step c s (s\<lparr>sl_todo := (sl_todo s)[i := evs]\<rparr>)"

inductive sem_steps :: "Client \<Rightarrow> nat \<Rightarrow> sems \<Rightarrow> sems \<Rightarrow> bool" for c :: Client where
  start: "sem_steps c 0 s s"
| step: "sem_steps c n s s' \<Longrightarrow> sem_step c s' s'' \<Longrightarrow> sem_steps c (Suc n) s s''"

section \<open>Who holds a slot\<close>

fun holding :: "rpc_event list \<Rightarrow> bool" where
  "holding (Post # evs) = True"
| "holding (Release # evs) = True"
| "holding evs = False"

definition well_slotted :: "rpc_event list \<Rightarrow> bool" where
  "well_slotted evs \<longleftrightarrow> slots_ok (if holding evs then 1 else 0) evs"

lemma slots_ok_append: "slots_ok h evs \<Longrightarrow> slots_ok 0 rest \<Longrightarrow> slots_ok h (evs @ rest)"
  by (induction h evs rule: slots_ok.induct) auto

lemma slots_ok_holding: "slots_ok h evs \<Longrightarrow> h = (if holding evs then 1 else 0)"
  by (cases "(h, evs)" rule: slots_ok.cases) auto

lemma calls_slotted: "calls c evs \<Longrightarrow> slots_ok 0 evs"
proof (induction rule: calls.induct)
  case none
  then show ?case by simp
next
  case (more_calls m net dec r evs rest)
  have "slots_ok 0 evs"
  proof (cases m)
    case (Some e)
    with more_calls(1) show ?thesis by (simp add: Call_def)
  next
    case None
    with more_calls(1) have "call_loop (cl_retries c) net dec 0 = (r, evs)" by (simp add: Call_def)
    from call_loop_summary [OF this] show ?thesis by simp
  qed
  from slots_ok_append [OF this more_calls(3)] show ?case .
qed

lemma slotted_step:
  assumes "well_slotted (e # evs)"
  shows "well_slotted evs" and "e = Acquire \<Longrightarrow> holding evs" and "e = Release \<Longrightarrow> \<not> holding evs"
    and "e = Post \<Longrightarrow> holding evs" and "e = Backoff k \<Longrightarrow> \<not> holding evs"
  using assms slots_ok_holding [of 0 evs] slots_ok_holding [of 1 evs]
  by (cases e; auto simp: well_slotted_def split: if_splits)+

text \<open>What a step of one goroutine changes in the sums over all.\<close>

lemma filter_update:
  "i < length xs \<Longrightarrow> length (filter P (xs[i := y])) + (if P (xs ! i) then 1 else 0)
     = length (filter P xs) + (if P y then 1 else 0)"
proof (induction xs arbitrary: i)
  case Nil
  then show ?case by simp
next
  case (Cons x xs)
  then show ?case by (cases i) auto
qed

definition holders :: "sems \<Rightarrow> nat" where
  "holders s = length (filter holding (sl_todo s))"

definition events_left :: "sems \<Rightarrow> nat" where
  "events_left s = sum_list (map length (sl_todo s))"

lemma events_left_step:
  "i < length xs \<Longrightarrow> xs ! i = e # evs \<Longrightarrow> Suc (sum_list (map length (xs[i := evs]))) = sum_list (map length xs)"
proof (induction xs arbitrary: i)
  case Nil
  then show ?case by simp
next
  case (Cons x xs)
  then show ?case by (cases i) auto
qed

definition slots_inv :: "Client \<Rightarrow> sems \<Rightarrow> bool" where
  "slots_inv c s \<longleftrightarrow> sl_used s = holders s \<and> int (sl_used s) \<le> cl_sem c \<and> (\<forall>evs \<in> set (sl_todo s). well_slotted evs)"

lemma slots_step:
  assumes "sem_step c s s'" and "slots_inv c s"
  shows "slots_inv c s' \<and> Suc (events_left s') = events_left s"
proof -
  have upd: "holders s' + (if holding (e # evs) then 1 else 0) = holders s + (if holding evs then 1 else 0)"
    "Suc (events_left s') = events_left s" "\<forall>x \<in> set (sl_todo s'). well_slotted x" "well_slotted (e # evs)"
    if "i < length (sl_todo s)" "sl_todo s ! i = e # evs" "sl_todo s' = (sl_todo s)[i := evs]" for i e evs
  proof -
    show "holders s' + (if holding (e # evs) then 1 else 0) = holders s + (if holding evs then 1 else 0)"
      using filter_update [OF that(1), of holding evs] that(2,3) by (simp add: holders_def)
    show "Suc (events_left s') = events_left s" using events_left_step [OF that(1,2)] that(3) by (simp add: events_left_def)
    show w: "well_slotted (e # evs)" using assms(2) that(1,2) nth_mem [OF that(1)] by (simp add: slots_inv_def)
    show "\<forall>x \<in> set (sl_todo s'). well_slotted x"
      using assms(2) slotted_step(1) [OF w] set_update_subset_insert [of "sl_todo s" i evs] that(3)
      unfolding slots_inv_def by auto
  qed
  from assms(1) show ?thesis
  proof cases
    case (acquire i evs)
    with upd [OF acquire(2,3)] slotted_step(2) [of Acquire evs] assms(2) show ?thesis by (simp add: slots_inv_def)
  next
    case (release i evs n)
    with upd [OF release(2,3)] slotted_step(3) [of Release evs] assms(2) show ?thesis by (simp add: slots_inv_def)
  next
    case (post i evs)
    with upd [OF post(2,3)] slotted_step(4) [of Post evs] assms(2) show ?thesis by (simp add: slots_inv_def)
  next
    case (pause i k evs)
    with upd [OF pause(2,3)] slotted_step(5) [of "Backoff k" evs k] assms(2) show ?thesis by (simp add: slots_inv_def)
  qed
qed

lemma slots_steps:
  "sem_steps c n s s' \<Longrightarrow> slots_inv c s \<Longrightarrow> slots_inv c s' \<and> n + events_left s' = events_left s"
  by (induction rule: sem_steps.induct) (auto dest: slots_step)

text \<open>Nobody waits for ever: whoever does not wait for a slot can go on, and if all wait one is free.\<close>

lemma slots_progress:
  assumes "slots_inv c s" and "0 < cl_sem c" and "0 < events_left s"
  shows "\<exists>s'. sem_step c s s'"
proof (cases "\<exists>i < length (sl_todo s). \<exists>e evs. sl_todo s ! i = e # evs \<and> e \<noteq> Acquire")
  case True
  then obtain i e evs where i: "i < length (sl_todo s)" "sl_todo s ! i = e # evs" "e \<noteq> Acquire" by blast
  show ?thesis
  proof (cases e)
    case Release
    with i nth_mem [OF i(1)] have "sl_todo s ! i \<in> set (filter holding (sl_todo s))" by simp
    then have "0 < holders s" unfolding holders_def by (rule length_pos_if_in_set)
    then obtain n where "sl_used s = Suc n" using assms(1) gr0_implies_Suc by (auto simp: slots_inv_def)
    with i Release show ?thesis by (blast intro: sem_step.release)
  qed (use i in \<open>auto intro: sem_step.post sem_step.pause\<close>)
next
  case False
  have "holders s = 0"
  proof -
    have "\<not> holding evs" if "evs \<in> set (sl_todo s)" for evs
      using that False unfolding in_set_conv_nth by (cases evs rule: holding.cases) fastforce+
    then show ?thesis by (simp add: holders_def filter_False)
  qed
  moreover obtain i where "i < length (sl_todo s)" "sl_todo s ! i \<noteq> []"
    using assms(3) unfolding events_left_def by (metis (no_types, lifting) in_set_conv_nth length_0_conv less_irrefl sum_list_eq_0_iff imageE list.set_map)
  with False obtain evs where "i < length (sl_todo s)" "sl_todo s ! i = Acquire # evs" by (metis neq_Nil_conv)
  ultimately show ?thesis using assms(1,2) sem_step.acquire [of i s evs c] by (auto simp: slots_inv_def)
qed

section \<open>The property\<close>

text \<open>
  C28. Goroutines that share a client.  However the goroutines that call through one client interleave,
  at most as many requests are in flight as the client was created for, and each of them belongs to
  a goroutine that holds a slot; while a goroutine has anything left to do some goroutine can go on,
  so the semaphore never deadlocks; every step does one of the events that were left, so all calls
  come to an end; and then every slot has been given back.
\<close>

theorem slots_shared:
  assumes "c = NewClient u k l" and "list_all (calls c) todo"
    and "sem_steps c n \<lparr>sl_used = 0, sl_todo = todo\<rparr> s"
  shows "sl_used s = holders s \<and> int (holders s) \<le> (if k \<le> 0 then 4 else k)
    \<and> (if events_left s = 0 then sl_used s = 0 else \<exists>s'. sem_step c s s')
    \<and> n + events_left s = sum_list (map length todo)"
proof -
  have cap: "cl_sem c = (if k \<le> 0 then 4 else k)" by (simp add: assms(1) NewClient_def)
  have w: "slots_ok 0 evs" if "evs \<in> set todo" for evs using that assms(2) calls_slotted by (auto simp: list_all_iff)
  have h: "\<not> holding evs" if "evs \<in> set todo" for evs using slots_ok_holding [OF w [OF that]] by (auto split: if_splits)
  have "slots_inv c \<lparr>sl_used = 0, sl_todo = todo\<rparr>"
    using w h cap by (simp add: slots_inv_def holders_def well_slotted_def)
  from slots_steps [OF assms(3) this] have S: "slots_inv c s" "n + events_left s = sum_list (map length todo)"
    by (simp_all add: events_left_def)
  have "\<exists>s'. sem_step c s s'" if "events_left s \<noteq> 0" using slots_progress [OF S(1)] that cap by simp
  moreover have "sl_used s = 0" if "events_left s = 0"
  proof -
    from that have "\<forall>evs \<in> set (sl_todo s). evs = []" by (auto simp: events_left_def)
    then have "filter holding (sl_todo s) = []" by (auto simp: filter_empty_conv)
    with S(1) show ?thesis by (simp add: slots_inv_def holders_def)
  qed
  ultimately show ?thesis using S cap by (simp add: slots_inv_def)
qed

text \<open>Two goroutines share a client with one slot; the first has just taken it.\<close>

definition demo_calls :: "rpc_event list list" where
  "demo_calls = [[Acquire, Post, Release], [Acquire, Post, Release]]"

definition demo_taken :: sems where
  "demo_taken = \<lparr>sl_used = 1, sl_todo = [[Post, Release], [Acquire, Post, Release]]\<rparr>"

theorem slots_shared_witness:
  "holders demo_taken = 1 \<and> (\<exists>s'. sem_step (NewClient ''u'' 1 0) demo_taken s') \<and> events_left demo_taken = 5"
proof -
  let ?c = "NewClient ''u'' 1 0"
  have "Call ?c None (\<lambda>i. answers JNull) Inr = (Inr JNull, [Acquire, Post, Release])"
    by (simp add: Call_def NewClient_def defaultRetries_def call_loop.simps answers_def try_once_def on_response_def
        decode_result_def wrap_err_def)
  from calls.more_calls [OF this calls.none] have "calls ?c [Acquire, Post, Release]" by simp
  then have "list_all (calls ?c) demo_calls" by (simp add: demo_calls_def)
  moreover have "sem_step ?c \<lparr>sl_used = 0, sl_todo = demo_calls\<rparr> demo_taken"
    using sem_step.acquire [of 0 "\<lparr>sl_used = 0, sl_todo = demo_calls\<rparr>" "[Post, Release]" ?c]
    by (simp add: demo_calls_def demo_taken_def NewClient_def)
  then have "sem_steps ?c (Suc 0) \<lparr>sl_used = 0, sl_todo = demo_calls\<rparr> demo_taken"
    by (blast intro: sem_steps.intros)
  ultimately show ?thesis
    using slots_shared [OF HOL.refl, of "''u''" 1 0 demo_calls "Suc 0" demo_taken]
    by (simp add: demo_calls_def demo_taken_def events_left_def)
qed

end
