(* ===== verification/Beside.thy ===== *)
theory Beside
  imports Process
begin

text \<open>
  \<open>index follow\<close> and \<open>index mempool\<close> side by side on one database.  Each works on tables of its own, and
  what it does does not depend on the tables of the other; so two processes whose steps interleave
  do, each for itself, what they would have done alone.
\<close>

section \<open>Operations that do not look at other tables\<close>

text \<open>\<open>u\<close> changes a part of the database that the operations of the index neither read nor write.\<close>

locale index_view =
  fixes S :: "'s Store" and u :: "'s \<Rightarrow> 's"
  assumes insert_view: "st_InsertLogs S f ls (u s) = apsnd u (st_InsertLogs S f ls s)"
    and save_view: "st_SaveRangeCheckpoint S f c (u s) = apsnd u (st_SaveRangeCheckpoint S f c s)"
    and rollback_view: "st_RollbackFrom S f b (u s) = apsnd u (st_RollbackFrom S f b s)"
    and last_view: "st_LastCheckpoint S f (u s) = st_LastCheckpoint S f s"
    and before_view: "st_CheckpointBefore S f b (u s) = st_CheckpointBefore S f b s"

locale mempool_view =
  fixes S :: "'s Store" and v :: "'s \<Rightarrow> 's"
  assumes upsert_view: "st_UpsertMempoolTx S f tx (v s) = apsnd v (st_UpsertMempoolTx S f tx s)"
    and mined_view: "st_MarkMempoolMined S f now h mi (v s) = apsnd v (st_MarkMempoolMined S f now h mi s)"
    and replaced_view: "st_MarkMempoolReplaced S f now h h' (v s) = apsnd v (st_MarkMempoolReplaced S f now h h' s)"
    and dropped_view: "st_MarkMempoolDropped S f now h (v s) = apsnd v (st_MarkMempoolDropped S f now h s)"

text \<open>The states with their database changed by \<open>u\<close>.\<close>

definition in_world :: "('s \<Rightarrow> 's) \<Rightarrow> 's World \<Rightarrow> 's World" where
  "in_world u w = w\<lparr>wd_store := u (wd_store w)\<rparr>"

definition in_range :: "('s \<Rightarrow> 's) \<Rightarrow> 's RangeState \<Rightarrow> 's RangeState" where
  "in_range u st = st\<lparr>rs_world := in_world u (rs_world st)\<rparr>"

definition in_follow :: "('s \<Rightarrow> 's) \<Rightarrow> 's FollowState \<Rightarrow> 's FollowState" where
  "in_follow u st = st\<lparr>fs_world := in_world u (fs_world st)\<rparr>"

definition in_mem :: "('s \<Rightarrow> 's) \<Rightarrow> 's MemWorld \<Rightarrow> 's MemWorld" where
  "in_mem v w = w\<lparr>mw_store := v (mw_store w)\<rparr>"

definition in_svc :: "('s \<Rightarrow> 's) \<Rightarrow> 's Service \<Rightarrow> 's Service" where
  "in_svc v s = s\<lparr>sv_world := in_mem v (sv_world s)\<rparr>"

lemma in_world_simps [simp]: "wd_tick (in_world u w) = wd_tick w" "wd_metrics (in_world u w) = wd_metrics w"
  "wd_store (in_world u w) = u (wd_store w)"
  by (simp_all add: in_world_def)

lemma in_range_simps [simp]: "rs_current (in_range u st) = rs_current st" "rs_chunker (in_range u st) = rs_chunker st"
  "rs_cache (in_range u st) = rs_cache st" "rs_world (in_range u st) = in_world u (rs_world st)"
  by (simp_all add: in_range_def)

lemma in_follow_simps [simp]: "fs_start (in_follow u st) = fs_start st" "fs_chunker (in_follow u st) = fs_chunker st"
  "fs_world (in_follow u st) = in_world u (fs_world st)"
  by (simp_all add: in_follow_def)

lemma in_mem_simps [simp]: "mw_tick (in_mem v w) = mw_tick w" "mw_tracker (in_mem v w) = mw_tracker w"
  "mw_store (in_mem v w) = v (mw_store w)"
  by (simp_all add: in_mem_def)

lemma in_svc_simps [simp]: "sv_sub (in_svc v s) = sv_sub s" "sv_fetcher (in_svc v s) = sv_fetcher s"
  "sv_track (in_svc v s) = sv_track s" "sv_world (in_svc v s) = in_mem v (sv_world s)"
  by (simp_all add: in_svc_def)

section \<open>The index\<close>

lemma chunk_in_range [simp]: "chunk_size to (in_range u st) = chunk_size to st"
  "chunk_end to (in_range u st) = chunk_end to st" "chunk_filter E D to (in_range u st) = chunk_filter E D to st"
  by (simp_all add: chunk_size_def chunk_end_def chunk_filter_def Let_def)

context index_view
begin

lemma range_iter_view:
  assumes "dp_Store D = S"
  shows "range_iter E D to (in_range u st) = apfst (in_range u) (range_iter E D to st)"
proof (cases "rpc_GetLogs (dp_RPC D) (wd_tick (rs_world st)) (chunk_filter E D to st)")
  case (Inl e)
  then show ?thesis by (simp add: range_iter_def Let_def)
next
  case (Inr logs)
  have "store_chunk E D to (in_range u st) logs = apfst (in_range u) (store_chunk E D to st logs)"
    by (simp add: store_chunk_def Let_def assms insert_view save_view split: prod.split sum.split option.split)
  with Inr show ?thesis by (simp add: range_iter_def)
qed

end

text \<open>A loop commutes with what its passes commute with.\<close>

lemma range_loop_image1:
  assumes pass: "\<And>st. range_iter E D to (g st) = apfst g (range_iter E D to st)"
    and cur: "\<And>st. rs_current (g st) = rs_current st" and "range_loop E D to st = Some out"
  shows "range_loop E D to (g st) = Some (apfst g out)"
proof -
  define P where "P E1 D1 to1 st out \<longleftrightarrow> (E1 = E \<and> D1 = D \<and> to1 = to \<longrightarrow> range_loop E D to (g st) = Some (apfst g out))"
    for E1 D1 to1 st and out :: "'a RangeState \<times> go_error option"
  have "P E D to st out"
  proof (rule range_loop.raw_induct [of P, OF _ assms(3)])
    fix f E1 D1 to1 st out
    assume IH: "\<And>E1 D1 to1 st out. f E1 D1 to1 st = Some out \<Longrightarrow> P E1 D1 to1 st out"
      and eq: "(if rs_current st \<le> to1 then
          (case range_iter E1 D1 to1 st of (st', Next) \<Rightarrow> f E1 D1 to1 st'
           | (st', Fail e) \<Rightarrow> Some (st', Some e))
        else Some (st, None)) = Some out"
    show "P E1 D1 to1 st out"
      unfolding P_def
    proof (intro impI, elim conjE)
      assume E: "E1 = E" "D1 = D" "to1 = to"
      show "range_loop E D to (g st) = Some (apfst g out)"
        using eq IH [of E D to] unfolding E
        by (subst range_loop.simps) (auto simp: pass cur P_def split: if_splits prod.splits flow.splits)
    qed
  qed
  then show ?thesis by (simp add: P_def)
qed

lemma range_loop_image2:
  assumes pass: "\<And>st. range_iter E D to (g st) = apfst g (range_iter E D to st)"
    and cur: "\<And>st. rs_current (g st) = rs_current st" and "range_loop E D to (g st) = Some out"
  shows "range_loop E D to st \<noteq> None"
proof -
  define P where "P E1 D1 to1 x out \<longleftrightarrow> (E1 = E \<and> D1 = D \<and> to1 = to \<longrightarrow> (\<forall>st. x = g st \<longrightarrow> range_loop E D to st \<noteq> None))"
    for E1 D1 to1 x and out :: "'a RangeState \<times> go_error option"
  have "P E D to (g st) out"
  proof (rule range_loop.raw_induct [of P, OF _ assms(3)])
    fix f E1 D1 to1 x out
    assume IH: "\<And>E1 D1 to1 st out. f E1 D1 to1 st = Some out \<Longrightarrow> P E1 D1 to1 st out"
      and eq: "(if rs_current x \<le> to1 then
          (case range_iter E1 D1 to1 x of (st', Next) \<Rightarrow> f E1 D1 to1 st'
           | (st', Fail e) \<Rightarrow> Some (st', Some e))
        else Some (x, None)) = Some out"
    show "P E1 D1 to1 x out"
      unfolding P_def
    proof (intro impI allI, elim conjE)
      fix st assume E: "E1 = E" "D1 = D" "to1 = to" and x: "x = g st"
      have "range_loop E D to st' \<noteq> None" if "f E D to (g st') = Some out" for st'
        using IH [OF that] by (simp add: P_def)
      with eq show "range_loop E D to st \<noteq> None"
        unfolding E x by (subst range_loop.simps) (auto simp: pass cur split: if_splits prod.splits flow.splits)
    qed
  qed
  then show ?thesis by (simp add: P_def)
qed

lemma range_loop_image:
  assumes "\<And>st. range_iter E D to (g st) = apfst g (range_iter E D to st)" and "\<And>st. rs_current (g st) = rs_current st"
  shows "range_loop E D to (g st) = map_option (apfst g) (range_loop E D to st)"
proof (cases "range_loop E D to st")
  case None
  with range_loop_image2 [OF assms, of st] show ?thesis by (cases "range_loop E D to (g st)") auto
next
  case (Some out)
  with range_loop_image1 [OF assms Some] show ?thesis by simp
qed

context index_view
begin

lemma processRange_view:
  assumes "dp_Store D = S"
  shows "processRangeAdaptive E D ch lo to (in_world u w)
    = map_option (apfst (in_range u)) (processRangeAdaptive E D ch lo to w)"
proof -
  have "range_start ch lo (in_world u w) = in_range u (range_start ch lo w)"
    by (simp add: range_start_def in_range_def)
  then show ?thesis
    unfolding processRangeAdaptive_def by (simp add: range_loop_image [OF range_iter_view [OF assms]])
qed

lemma follow_index_view:
  assumes "dp_Store D = S"
  shows "follow_index E cfg D (in_follow u st) = map_option (apfst (in_follow u)) (follow_index E cfg D st)"
proof -
  have w: "(in_world u w)\<lparr>wd_tick := t\<rparr> = in_world u (w\<lparr>wd_tick := t\<rparr>)"
    "(in_world u w)\<lparr>wd_metrics := m\<rparr> = in_world u (w\<lparr>wd_metrics := m\<rparr>)" for w t m
    by (simp_all add: in_world_def)
  show ?thesis
    by (simp add: follow_index_def Let_def w processRange_view [OF assms] option.map_comp split: sum.split option.split)
qed

lemma follow_pass_view:
  assumes "dp_Store D = S"
  shows "follow_pass E cfg D (in_follow u st) = map_option (apfst (in_follow u)) (follow_pass E cfg D st)"
proof -
  have dt: "Detect rpc S df t (u s) = Detect rpc S df t s" for rpc df t s
    unfolding Detect_def last_view before_view ..
  have rb: "Rollback S f x (u s) = apsnd u (Rollback S f x s)" for f x s
    by (simp add: Rollback_def rollback_view)
  have c: "(in_follow u st)\<lparr>fs_world := (in_world u (fs_world st))\<lparr>wd_tick := t, wd_store := u s\<rparr>\<rparr>
      = in_follow u (st\<lparr>fs_world := (fs_world st)\<lparr>wd_tick := t, wd_store := s\<rparr>\<rparr>)"
    "(in_follow u st)\<lparr>fs_start := x, fs_world := (in_world u (fs_world st))\<lparr>wd_tick := t, wd_store := u s\<rparr>\<rparr>
      = in_follow u (st\<lparr>fs_start := x, fs_world := (fs_world st)\<lparr>wd_tick := t, wd_store := s\<rparr>\<rparr>)" for t s x
    by (simp_all add: in_follow_def in_world_def)
  show ?thesis
    by (simp add: follow_pass_def Let_def assms dt rb c follow_index_view [OF assms] split: sum.split prod.split option.split)
qed

end

section \<open>The mempool table\<close>

context mempool_view
begin

lemma HandleTx_view:
  assumes "dp_Store D = S"
  shows "HandleTx E D tx (in_mem v w) = apsnd (in_mem v) (HandleTx E D tx w)"
  by (simp add: HandleTx_def Let_def assms replaced_view upsert_view split: prod.split option.split)

lemma handleReceipt_view:
  assumes "dp_Store D = S"
  shows "handleReceipt E D h (in_mem v w) = in_mem v (handleReceipt E D h w)"
  by (simp add: handleReceipt_def Let_def assms mined_view split: prod.split option.split)

lemma drop_rows_view:
  "dp_Store D = S \<Longrightarrow> drop_rows E D hs t (v s) = apsnd v (drop_rows E D hs t s)"
  by (induction hs arbitrary: t s) (simp_all add: dropped_view)

lemma dropExpired_view:
  assumes "dp_Store D = S"
  shows "dropExpired E D keys (in_mem v w) = in_mem v (dropExpired E D keys w)"
  by (simp add: dropExpired_def Let_def drop_rows_view [OF assms] split: prod.split)

lemma handleHash_view:
  assumes "dp_Store D = S"
  shows "handleHash E D F (HandleTx E D) h (in_mem v w) = in_mem v (handleHash E D F (HandleTx E D) h w)"
proof -
  have t: "(in_mem v w)\<lparr>mw_tick := t\<rparr> = in_mem v (w\<lparr>mw_tick := t\<rparr>)" for t by (simp add: in_mem_def)
  show ?thesis
    by (simp add: handleHash_def t HandleTx_view [OF assms] split: prod.split fetched.split sum.split)
qed

lemma svc_handle_view:
  assumes "dp_Store D = S"
  shows "svc_handle E D ev (in_svc v s) = in_svc v (svc_handle E D ev s)"
proof -
  have w: "(in_mem v w)\<lparr>mw_tracker := T\<rparr> = in_mem v (w\<lparr>mw_tracker := T\<rparr>)" for w T by (simp add: in_mem_def)
  have s: "(in_svc v s)\<lparr>sv_world := in_mem v w\<rparr> = in_svc v (s\<lparr>sv_world := w\<rparr>)"
    "(in_svc v s)\<lparr>sv_sub := S'\<rparr> = in_svc v (s\<lparr>sv_sub := S'\<rparr>)"
    "(in_svc v s)\<lparr>sv_fetcher := F\<rparr> = in_svc v (s\<lparr>sv_fetcher := F\<rparr>)"  for s w S' F
    by (simp_all add: in_svc_def)
  show ?thesis
  proof (cases ev)
    case (Announce msg)
    then show ?thesis by (simp add: svc_handle_def s)
  next
    case ForwardHash
    then show ?thesis by (simp add: svc_handle_def forward_hash_def s split: list.split)
  next
    case (ForwardHead keys)
    then show ?thesis by (simp add: svc_handle_def forward_head_def s w split: list.split)
  next
    case FetchOne
    then show ?thesis
      by (simp add: svc_handle_def fetch_worker_def s handleHash_view [OF assms] split: list.split)
  next
    case ReceiptOne
    then show ?thesis
      by (simp add: svc_handle_def receiptWorker_def s w handleReceipt_view [OF assms] split: list.split)
  next
    case (SweepOne keys)
    then show ?thesis by (simp add: svc_handle_def s dropExpired_view [OF assms])
  qed
qed

end

section \<open>The two drivers\<close>

text \<open>The rows of the mempool table of \<open>b\<close>, everything else of \<open>a\<close>.\<close>

definition merge_db :: "db \<Rightarrow> db \<Rightarrow> db" where
  "merge_db a b = a\<lparr>d_mem := d_mem b\<rparr>"

interpretation sqlite_index_view: index_view sqlite_store "\<lambda>a. merge_db a b" for b
  by unfold_locales (simp_all add: merge_db_def sqlite_store_def sqlite_InsertLogs_def sqlite_SaveRangeCheckpoint_def
      sqlite_RollbackFrom_def sqlite_LastCheckpoint_def sqlite_CheckpointBefore_def Let_def split: option.split sum.split)

interpretation pg_index_view: index_view pg_store "\<lambda>a. merge_db a b" for b
  by unfold_locales (simp_all add: merge_db_def pg_store_def pg_InsertLogs_def pg_SaveRangeCheckpoint_def
      pg_RollbackFrom_def pg_LastCheckpoint_def pg_CheckpointBefore_def Let_def split: option.split sum.split)

interpretation sqlite_mempool_view: mempool_view sqlite_store "merge_db a" for a
  by unfold_locales (simp_all add: merge_db_def sqlite_store_def sqlite_UpsertMempoolTx_def sqlite_MarkMempoolMined_def
      sqlite_MarkMempoolReplaced_def sqlite_MarkMempoolDropped_def split: option.split)

interpretation pg_mempool_view: mempool_view pg_store "merge_db a" for a
  by unfold_locales (simp_all add: merge_db_def pg_store_def pg_UpsertMempoolTx_def pg_MarkMempoolMined_def
      pg_MarkMempoolReplaced_def pg_MarkMempoolDropped_def split: option.split)

lemma store_index_view: "a_store S \<Longrightarrow> index_view S (\<lambda>a. merge_db a b)"
  using sqlite_index_view.index_view_axioms pg_index_view.index_view_axioms by (auto simp: a_store_def)

lemma store_mempool_view: "a_store S \<Longrightarrow> mempool_view S (merge_db a)"
  using sqlite_mempool_view.mempool_view_axioms pg_mempool_view.mempool_view_axioms by (auto simp: a_store_def)

section \<open>Two processes\<close>

text \<open>
  The follower between two passes, the service between two events, and the database they share.  A
  step of either runs on the database as it is and leaves its result there.
\<close>

record joint =
  jt_follow :: "db FollowState"
  jt_service :: "db Service"
  jt_db :: db

inductive joint_reaches :: "'v Env \<Rightarrow> Config \<Rightarrow> db Deps \<Rightarrow> 'x Env \<Rightarrow> db Deps \<Rightarrow> joint \<Rightarrow> svc_event list \<Rightarrow> joint \<Rightarrow> bool"
  for E cfg D E' D' j0 where
  together: "joint_reaches E cfg D E' D' j0 [] j0"
| a_pass: "joint_reaches E cfg D E' D' j0 evs j \<Longrightarrow>
    follow_pass E cfg D (in_follow (\<lambda>_. jt_db j) (jt_follow j)) = Some (st, Next) \<Longrightarrow>
    joint_reaches E cfg D E' D' j0 evs (j\<lparr>jt_follow := st, jt_db := wd_store (fs_world st)\<rparr>)"
| an_event: "joint_reaches E cfg D E' D' j0 evs j \<Longrightarrow>
    s = svc_handle E' D' ev (in_svc (\<lambda>_. jt_db j) (jt_service j)) \<Longrightarrow>
    joint_reaches E cfg D E' D' j0 (evs @ [ev]) (j\<lparr>jt_service := s, jt_db := mw_store (sv_world s)\<rparr>)"

lemma in_follow_twice [simp]: "in_follow (\<lambda>_. d) (in_follow u st) = in_follow (\<lambda>_. d) st"
  by (simp add: in_follow_def in_world_def)

lemma in_svc_twice [simp]: "in_svc (\<lambda>_. d) (in_svc v s) = in_svc (\<lambda>_. d) s"
  by (simp add: in_svc_def in_mem_def)

lemma in_follow_store: "in_follow (\<lambda>_. u (wd_store (fs_world st))) st = in_follow u st"
  by (simp add: in_follow_def in_world_def)

lemma in_svc_store: "in_svc (\<lambda>_. v (mw_store (sv_world s))) s = in_svc v s"
  by (simp add: in_svc_def in_mem_def)

text \<open>\<open>st\<close> and \<open>s\<close> are the two processes, each on a database of its own.\<close>

definition beside :: "db FollowState \<Rightarrow> db Service \<Rightarrow> joint \<Rightarrow> bool" where
  "beside st s j \<longleftrightarrow> jt_db j = merge_db (wd_store (fs_world st)) (mw_store (sv_world s))
     \<and> (\<forall>d. in_follow (\<lambda>_. d) (jt_follow j) = in_follow (\<lambda>_. d) st)
     \<and> (\<forall>d. in_svc (\<lambda>_. d) (jt_service j) = in_svc (\<lambda>_. d) s)"

lemma beside_fields:
  assumes "beside st s j"
  shows "fs_start (jt_follow j) = fs_start st" and "fs_chunker (jt_follow j) = fs_chunker st"
    and "wd_metrics (fs_world (jt_follow j)) = wd_metrics (fs_world st)"
    and "sv_sub (jt_service j) = sv_sub s" and "sv_fetcher (jt_service j) = sv_fetcher s"
    and "mw_tracker (sv_world (jt_service j)) = mw_tracker (sv_world s)"
proof -
  from assms have f: "in_follow (\<lambda>_. jt_db j) (jt_follow j) = in_follow (\<lambda>_. jt_db j) st"
    and s: "in_svc (\<lambda>_. jt_db j) (jt_service j) = in_svc (\<lambda>_. jt_db j) s" by (auto simp: beside_def)
  from arg_cong [OF f, of fs_start] show "fs_start (jt_follow j) = fs_start st" by simp
  from arg_cong [OF f, of fs_chunker] show "fs_chunker (jt_follow j) = fs_chunker st" by simp
  from arg_cong [OF f, of "\<lambda>x. wd_metrics (fs_world x)"]
  show "wd_metrics (fs_world (jt_follow j)) = wd_metrics (fs_world st)" by simp
  from arg_cong [OF s, of sv_sub] show "sv_sub (jt_service j) = sv_sub s" by simp
  from arg_cong [OF s, of sv_fetcher] show "sv_fetcher (jt_service j) = sv_fetcher s" by simp
  from arg_cong [OF s, of "\<lambda>x. mw_tracker (sv_world x)"]
  show "mw_tracker (sv_world (jt_service j)) = mw_tracker (sv_world s)" by simp
qed

lemma beside_pass:
  assumes "beside st s j" and "a_store (dp_Store D)"
    and "follow_pass E cfg D (in_follow (\<lambda>_. jt_db j) (jt_follow j)) = Some (st', Next)"
  shows "\<exists>st1. follow_pass E cfg D st = Some (st1, Next)
    \<and> beside st1 s (j\<lparr>jt_follow := st', jt_db := wd_store (fs_world st')\<rparr>)"
proof -
  let ?u = "\<lambda>a. merge_db a (mw_store (sv_world s))"
  from assms(1) have "in_follow (\<lambda>_. jt_db j) (jt_follow j) = in_follow ?u st"
    using in_follow_store [of ?u st] by (simp add: beside_def)
  with assms(3) index_view.follow_pass_view [OF store_index_view [OF assms(2)] HOL.refl, of E cfg _ st]
  obtain st1 where p: "follow_pass E cfg D st = Some (st1, Next)" "st' = in_follow ?u st1" by auto
  then show ?thesis using assms(1) by (simp add: beside_def)
qed

lemma beside_event:
  assumes "beside st s j" and "a_store (dp_Store D)"
    and "s' = svc_handle E D ev (in_svc (\<lambda>_. jt_db j) (jt_service j))"
  shows "beside st (svc_handle E D ev s) (j\<lparr>jt_service := s', jt_db := mw_store (sv_world s')\<rparr>)"
proof -
  let ?v = "merge_db (wd_store (fs_world st))"
  from assms(1) have "in_svc (\<lambda>_. jt_db j) (jt_service j) = in_svc ?v s"
    using in_svc_store [of ?v s] by (simp add: beside_def)
  with assms(3) mempool_view.svc_handle_view [OF store_mempool_view [OF assms(2)] HOL.refl]
  have "s' = in_svc ?v (svc_handle E D ev s)" by metis
  with assms(1) show ?thesis by (simp add: beside_def)
qed

text \<open>
  C6. Two feeds on one database.  Let \<open>index follow\<close> and the mempool service run side by side on one
  database, with nodes, clocks and database failures of their own, the passes of the one and the
  events of the other interleaved in any order.  Then what each of them has done is what it would
  have done alone: there is a run of the follower alone, and the service alone on the same events,
  such that the shared database consists of the index of the former and the mempool table of the
  latter, and position, chunk size, counters, queues and tracker are those of the runs alone.
\<close>

theorem feeds_side_by_side:
  assumes "a_store (dp_Store D)" and "a_store (dp_Store D')"
    and "follow_init E cfg D w = Inr st0"
    and "service_start cfg' dec di tr ttl pw rw (wd_store w) = Inr s0"
    and "joint_reaches E cfg D E' D' \<lparr>jt_follow = st0, jt_service = s0, jt_db = wd_store w\<rparr> evs j"
    and "s = svc_run E' D' evs s0"
  shows "\<exists>st. follow_reaches E cfg D w st
    \<and> jt_db j = merge_db (wd_store (fs_world st)) (mw_store (sv_world s))
    \<and> fs_start (jt_follow j) = fs_start st \<and> fs_chunker (jt_follow j) = fs_chunker st
    \<and> wd_metrics (fs_world (jt_follow j)) = wd_metrics (fs_world st)
    \<and> sv_sub (jt_service j) = sv_sub s \<and> sv_fetcher (jt_service j) = sv_fetcher s
    \<and> mw_tracker (sv_world (jt_service j)) = mw_tracker (sv_world s)"
proof -
  have w: "wd_store (fs_world st0) = wd_store w"
    using assms(3) by (auto simp: follow_init_def split: sum.splits)
  have "\<exists>st. follow_reaches E cfg D w st \<and> beside st (svc_run E' D' evs s0) j"
    using assms(5)
  proof (induction rule: joint_reaches.induct)
    case together
    have "beside st0 s0 \<lparr>jt_follow = st0, jt_service = s0, jt_db = wd_store w\<rparr>"
      using w service_start_store [OF assms(4)] by (simp add: beside_def merge_db_def)
    with follow_reaches.started [OF assms(3)] show ?case by (auto simp: svc_run_def)
  next
    case (a_pass evs j st')
    then obtain st where "follow_reaches E cfg D w st" "beside st (svc_run E' D' evs s0) j" by blast
    with beside_pass [OF this(2) assms(1) a_pass(2)] show ?case by (blast intro: follow_reaches.passed)
  next
    case (an_event evs j s' ev)
    then obtain st where "follow_reaches E cfg D w st" "beside st (svc_run E' D' evs s0) j" by blast
    with beside_event [OF this(2) assms(2) an_event(2)] show ?case by (auto simp: svc_run_def)
  qed
  then obtain st where st: "follow_reaches E cfg D w st" "beside st s j" unfolding assms(6) by blast
  then have "jt_db j = merge_db (wd_store (fs_world st)) (mw_store (sv_world s))" by (simp add: beside_def)
  with st(1) beside_fields [OF st(2)] show ?thesis by blast
qed

text \<open>The service hears of a transaction, then the follower makes its pass.\<close>

theorem feeds_side_by_side_witness:
  "\<exists>j st s0. service_start sample_validated None False False '''' 0 0 empty_db = Inr s0
    \<and> joint_reaches demo_stop sample_validated (demo_deps 2 6) demo_env known_deps
        \<lparr>jt_follow = demo_follow0 [], jt_service = s0, jt_db = empty_db\<rparr> [Announce (demo_note (JStr ''0xab''))] j
    \<and> follow_reaches demo_stop sample_validated (demo_deps 2 6) (schema_world []) st
    \<and> fs_start (jt_follow j) = 7 \<and> fs_start st = 7"
proof -
  obtain s0 where s0: "service_start sample_validated None False False '''' 0 0 empty_db = Inr s0"
    using sample_starts by blast
  let ?ev = "Announce (demo_note (JStr ''0xab''))"
  let ?reaches = "joint_reaches demo_stop sample_validated (demo_deps 2 6) demo_env known_deps
      \<lparr>jt_follow = demo_follow0 [], jt_service = s0, jt_db = empty_db\<rparr>"
  have w: "wd_store (schema_world []) = empty_db" by (simp add: schema_world_def empty_db_def)
  define s1 where "s1 = svc_handle demo_env known_deps ?ev (in_svc (\<lambda>_. empty_db) s0)"
  define j1 where "j1 = \<lparr>jt_follow = demo_follow0 [], jt_service = s1, jt_db = mw_store (sv_world s1)\<rparr>"
  have db: "jt_db j1 = empty_db" by (simp add: j1_def s1_def svc_handle_def)
  let ?j0 = "\<lparr>jt_follow = demo_follow0 [], jt_service = s0, jt_db = empty_db\<rparr>"
  have j1: "j1 = ?j0\<lparr>jt_service := s1, jt_db := mw_store (sv_world s1)\<rparr>" by (simp add: j1_def)
  have r1: "?reaches ([] @ [?ev]) j1"
    unfolding j1 by (rule joint_reaches.an_event [OF joint_reaches.together]) (simp add: s1_def)
  have "in_follow (\<lambda>_. empty_db) (demo_follow0 []) = demo_follow0 []"
    by (simp add: demo_follow0_def in_follow_def in_world_def schema_world_def empty_db_def)
  then have p: "follow_pass demo_stop sample_validated (demo_deps 2 6) (in_follow (\<lambda>_. jt_db j1) (jt_follow j1)) = Some (demo_follow1 [], Next)"
    using demo_follow_pass(1) db by (simp add: j1_def)
  let ?j = "j1\<lparr>jt_follow := demo_follow1 [], jt_db := wd_store (fs_world (demo_follow1 []))\<rparr>"
  have r: "?reaches [?ev] ?j" using joint_reaches.a_pass [OF r1 p] by simp
  have A: "a_store (dp_Store (demo_deps 2 6))" "a_store (dp_Store known_deps)"
    by (simp_all add: known_deps_def a_store_def demo_deps_def)
  from feeds_side_by_side [OF A demo_follow_init s0 [folded w] r [folded w] HOL.refl]
  obtain st where "follow_reaches demo_stop sample_validated (demo_deps 2 6) (schema_world []) st"
    "fs_start (jt_follow ?j) = fs_start st" by blast
  moreover have "fs_start (jt_follow ?j) = 7" by (simp add: demo_follow_pass(2))
  ultimately show ?thesis using s0 r by (intro exI [of _ ?j] exI [of _ st] exI [of _ s0]) simp
qed

end
