(* ===== verification/CatchUp.thy ===== *)
theory CatchUp
  imports Follow Backfill
begin

text \<open>
  Progress of the index.  While the node answers, its logs can be decoded and the database does not
  fail, nothing stops a range: every pass of \<open>Follow\<close> reaches the confirmed head, and every backfill
  succeeds.
\<close>

section \<open>Stores that answer\<close>

text \<open>Without a fault, and on numbers the driver can bind, every operation on the index succeeds.\<close>

definition fits_log :: "LogRecord \<Rightarrow> bool" where
  "fits_log l \<longleftrightarrow> fits_int64 (lr_ChainID l) \<and> fits_int64 (lr_BlockNumber l) \<and> fits_int64 (lr_LogIndex l)"

locale answering_store = log_store +
  assumes insert_answers: "(\<And>i. f i = None) \<Longrightarrow> (\<And>l. l \<in> set ls \<Longrightarrow> fits_log l) \<Longrightarrow> fst (st_InsertLogs S f ls s) = None"
    and save_answers: "(\<And>i. f i = None) \<Longrightarrow> fits_int64 (cp_StartBlock c) \<Longrightarrow> fits_int64 (cp_EndBlock c) \<Longrightarrow>
      fst (st_SaveRangeCheckpoint S f c s) = None"
    and last_answers: "(\<And>i. f i = None) \<Longrightarrow> \<exists>r. st_LastCheckpoint S f s = Inr r"
    and before_answers: "(\<And>i. f i = None) \<Longrightarrow> fits_int64 b \<Longrightarrow> \<exists>r. st_CheckpointBefore S f b s = Inr r"
    and rollback_answers: "(\<And>i. f i = None) \<Longrightarrow> fits_int64 b \<Longrightarrow> fst (st_RollbackFrom S f b s) = None"

interpretation sqlite_answers: answering_store sqlite_store db_inv db_logs db_cps
proof unfold_locales
  fix f :: faults and ls and s :: db assume f: "\<And>i. f i = None" and l: "\<And>l. l \<in> set ls \<Longrightarrow> fits_log l"
  obtain rows where "exec_inserts sqlite_log_args f 2 ls (d_logs s) = Inr rows"
    using exec_inserts_total [of f ls sqlite_log_args 2 "d_logs s"] f l
    by (auto simp: sqlite_log_args_def bind_u64s_def fits_log_def)
  with f show "fst (st_InsertLogs sqlite_store f ls s) = None"
    by (simp add: sqlite_store_def sqlite_InsertLogs_def)
qed (auto simp: sqlite_store_def sqlite_SaveRangeCheckpoint_def sqlite_LastCheckpoint_def sqlite_CheckpointBefore_def
    sqlite_RollbackFrom_def scanCheckpoint_def bind_u64s_def Let_def split: option.split)

interpretation pg_answers: answering_store pg_store db_inv db_logs db_cps
proof unfold_locales
  fix f :: faults and ls and s :: db assume f: "\<And>i. f i = None" and l: "\<And>l. l \<in> set ls \<Longrightarrow> fits_log l"
  obtain rows where "exec_inserts pg_log_args f 2 ls (d_logs s) = Inr rows"
    using exec_inserts_total [of f ls pg_log_args 2 "d_logs s"] f l
    by (auto simp: pg_log_args_def bind_u64s_def fits_log_def)
  with f show "fst (st_InsertLogs pg_store f ls s) = None"
    by (simp add: pg_store_def pg_InsertLogs_def)
qed (auto simp: pg_store_def pg_SaveRangeCheckpoint_def pg_LastCheckpoint_def pg_CheckpointBefore_def
    pg_RollbackFrom_def scanCheckpoint_def bind_u64s_def Let_def split: option.split)

lemma a_store_answers: "a_store S \<Longrightarrow> answering_store S db_inv db_logs db_cps"
  using sqlite_answers.answering_store_axioms pg_answers.answering_store_axioms by (auto simp: a_store_def)

section \<open>A node and a database that work\<close>

text \<open>
  Up to block \<open>hi\<close> the node knows every block and answers every request for logs, except that it may
  refuse a range as too large, with logs of blocks up to \<open>hi\<close> that the registry and the ABI decoder
  can decode; no call of the database fails; and the numbers fit the columns.
\<close>

definition decodable :: "'v Env \<Rightarrow> 's Deps \<Rightarrow> eth_log \<Rightarrow> bool" where
  "decodable E D l \<longleftrightarrow> (\<exists>d. DecodeLog (en_lib E) (dp_Decoder D) l = Inr d \<and> (\<exists>j. ArgsJSON (en_lib E) d = Inr j))"

definition working :: "'v Env \<Rightarrow> 's Deps \<Rightarrow> u64 \<Rightarrow> bool" where
  "working E D hi \<longleftrightarrow> fits_int64 hi \<and> fits_int64 (dp_ChainID D) \<and> (\<forall>t i. en_faults E t i = None)
     \<and> (\<forall>t n. n \<le> hi \<longrightarrow> (\<exists>h. rpc_GetBlockByNumber (dp_RPC D) t n = Inr h))
     \<and> (\<forall>t a b e. b \<le> hi \<longrightarrow> rpc_GetLogs (dp_RPC D) t (buildFilter (en_lib E) a b (dp_Decoder D)) = Inl e \<longrightarrow> e = ErrTooManyResults)
     \<and> (\<forall>t a b logs l. b \<le> hi \<longrightarrow> rpc_GetLogs (dp_RPC D) t (buildFilter (en_lib E) a b (dp_Decoder D)) = Inr logs \<longrightarrow>
          l \<in> set logs \<longrightarrow> l_BlockNumber l \<le> hi \<and> fits_int64 (l_Index l) \<and> decodable E D l)"

lemma fits_le: "fits_int64 hi \<Longrightarrow> n \<le> hi \<Longrightarrow> fits_int64 n"
  by (auto simp: fits_int64_def)

lemma fits_not_max: "fits_int64 hi \<Longrightarrow> hi \<noteq> maxU64"
  by (auto simp: fits_int64_def maxU64_def)

lemma build_works:
  assumes "working E D hi" and "\<And>l. l \<in> set logs \<Longrightarrow> l_BlockNumber l \<le> hi \<and> decodable E D l"
  shows "\<exists>recs c' t'. buildRecords E D c t logs = (Inr recs, c', t')"
  using assms(2)
proof (induction logs arbitrary: c t)
  case Nil
  then show ?case by simp
next
  case (Cons l ls)
  from Cons.prems [of l] obtain d j where d: "DecodeLog (en_lib E) (dp_Decoder D) l = Inr d" "ArgsJSON (en_lib E) d = Inr j"
    and b: "l_BlockNumber l \<le> hi" by (auto simp: decodable_def)
  obtain h c1 t1 where g: "cache_Get (dp_RPC D) c t (l_BlockNumber l) = (Inr h, c1, t1)"
  proof (cases "c (l_BlockNumber l)")
    case None
    moreover from assms(1) b obtain h where "rpc_GetBlockByNumber (dp_RPC D) t (l_BlockNumber l) = Inr h"
      unfolding working_def by blast
    ultimately show thesis using that by (simp add: cache_Get_def)
  qed (use that in \<open>simp add: cache_Get_def\<close>)
  from Cons.IH [of c1 "Suc t1"] Cons.prems obtain recs c' t' where "buildRecords E D c1 (Suc t1) ls = (Inr recs, c', t')"
    by auto
  with d g show ?case by (simp add: Let_def)
qed

lemma records_fit:
  assumes "working E D hi" and "buildRecords E D c t logs = (Inr recs, c', t')"
    and "\<And>l. l \<in> set logs \<Longrightarrow> l_BlockNumber l \<le> hi \<and> fits_int64 (l_Index l)" and "r \<in> set recs"
  shows "fits_log r"
proof -
  from assms(4) obtain i where i: "i < length recs" "r = recs ! i" by (metis in_set_conv_nth)
  note keys = buildRecords_keys [OF assms(2)]
  let ?l = "logs ! i"
  have "i < length logs" using i(1) list_all2_lengthD [OF keys] by simp
  then have l: "?l \<in> set logs" by simp
  from list_all2_nthD [OF keys i(1)] i(2) have r: "log_key r = key_of E D ?l" "lr_BlockNumber r = l_BlockNumber ?l"
    by simp_all
  from assms(1) have f: "fits_int64 hi" "fits_int64 (dp_ChainID D)" by (simp_all add: working_def)
  from r f(2) assms(3) [OF l] fits_le [OF f(1)] show ?thesis
    by (simp add: fits_log_def log_key_def key_of_def)
qed

section \<open>Ranges\<close>

context answering_store
begin

lemma store_chunk_works:
  assumes W: "working E D hi" and S: "dp_Store D = S" and ck: "chunker_ok (rs_chunker st)"
    and le: "rs_current st \<le> to" "to \<le> hi"
    and ans: "rpc_GetLogs (dp_RPC D) u (chunk_filter E D to st) = Inr logs"
  shows "\<exists>st'. store_chunk E D to st logs = (st', Next)"
proof -
  have fh: "fits_int64 hi" and F: "\<And>t i. en_faults E t i = None" using W by (auto simp: working_def)
  have "to \<noteq> maxU64" using fits_not_max [OF fits_le [OF fh le(2)]] .
  note cb = chunk_bounds [OF ck le(1) this]
  have e: "chunk_end to st \<le> to" using cb(1,3,4) by (simp add: u64_le_iff)
  then have eh: "chunk_end to st \<le> hi" using le(2) by simp
  have L: "l_BlockNumber l \<le> hi \<and> fits_int64 (l_Index l) \<and> decodable E D l" if "l \<in> set logs" for l
    using W ans eh that unfolding working_def chunk_filter_def by blast
  obtain recs c t where br: "buildRecords E D (rs_cache st) (Suc (wd_tick (rs_world st))) logs = (Inr recs, c, t)"
    using build_works [OF W, of logs] L by blast
  obtain s1 where ins: "st_InsertLogs S (en_faults E t) recs (wd_store (rs_world st)) = (None, s1)"
    using insert_answers [of "en_faults E t" recs "wd_store (rs_world st)", OF F records_fit [OF W br]] L
    by (metis prod.collapse)
  obtain header where h: "rpc_GetBlockByNumber (dp_RPC D) (Suc t) (chunk_end to st) = Inr header"
    using W eh unfolding working_def by blast
  let ?cp = "\<lparr>cp_ID = 0, cp_StartBlock = rs_current st, cp_EndBlock = chunk_end to st,
    cp_BlockHash = bh_Hash header, cp_InsertedAt = en_now E (t + 2)\<rparr>"
  have "fits_int64 (rs_current st)" "fits_int64 (chunk_end to st)" using fits_le [OF fh] le eh by auto
  then obtain s2 where "st_SaveRangeCheckpoint S (en_faults E (t + 3)) ?cp s1 = (None, s2)"
    using save_answers [of "en_faults E (t + 3)" ?cp s1, OF F] by (metis Checkpoint.select_convs(2,3) prod.collapse)
  with br ins h S show ?thesis by (simp add: store_chunk_def Let_def)
qed

lemma range_iter_works:
  assumes W: "working E D hi" and S: "dp_Store D = S" and ck: "chunker_ok (rs_chunker st)"
    and le: "rs_current st \<le> to" "to \<le> hi"
  shows "\<exists>st'. range_iter E D to st = (st', Next)"
proof (cases "rpc_GetLogs (dp_RPC D) (wd_tick (rs_world st)) (chunk_filter E D to st)")
  case (Inl e)
  have "to \<noteq> maxU64" using W fits_not_max fits_le le(2) by (auto simp: working_def)
  note cb = chunk_bounds [OF ck le(1) this]
  have "chunk_end to st \<le> hi" using cb(1,3,4) le(2) by (auto simp: u64_le_iff)
  with W Inl have "e = ErrTooManyResults" unfolding working_def chunk_filter_def by blast
  with Inl show ?thesis by (simp add: range_iter_def Let_def)
next
  case (Inr logs)
  from store_chunk_works [OF assms Inr] Inr show ?thesis by (simp add: range_iter_def)
qed

text \<open>Nothing stops a range that returns.\<close>

lemma range_completes:
  assumes W: "working E D hi" and S: "dp_Store D = S" and "to \<le> hi" and "answers_small E D (ch_min ch)"
    and ck: "chunker_ok ch" "growth_ok (ch_max ch)" and le: "lo \<le> to" and iw: "inv (wd_store w)"
  shows "\<exists>rs. processRangeAdaptive E D ch lo to w = Some (rs, None)"
proof -
  have to: "to \<noteq> maxU64" using W fits_not_max fits_le assms(3) by (auto simp: working_def)
  obtain rs r where pr: "processRangeAdaptive E D ch lo to w = Some (rs, r)"
    using range_loop_returns [of E D "ch_min ch" to "range_start ch lo w"] assms(4) ck to
    by (auto simp: processRangeAdaptive_def range_start_def)
  let ?I = "range_inv inv logv cpv E D (cpv (wd_store w)) (processedBlocks (wd_metrics w)) lo (ch_max ch) to"
  have I0: "?I (range_start ch lo w)"
    using range_start_inv [where iv = inv and lv = logv and cv = cpv and w = w] iw ck(1) le by blast
  have "r = None"
  proof (rule ccontr)
    assume "r \<noteq> None"
    then obtain e where e: "r = Some e" by blast
    have "\<exists>st. ?I st \<and> rs_current st \<le> to \<and> range_iter E D to st = (rs, Fail e)"
      by (rule range_loop_rule(3) [where I = ?I, OF pr [unfolded processRangeAdaptive_def] I0 _ e])
        (rule range_iter_inv [OF _ S _ _ to ck(2)])
    then obtain st where "chunker_ok (rs_chunker st)" "rs_current st \<le> to" "range_iter E D to st = (rs, Fail e)"
      by (auto simp: range_inv_def)
    with range_iter_works [OF W S _ _ assms(3), of st] show False by auto
  qed
  with pr show ?thesis by blast
qed

end

section \<open>The chunker keeps its minimum\<close>

lemma store_chunk_min:
  "store_chunk E D to st logs = (st', fl) \<Longrightarrow> ch_min (rs_chunker st') = ch_min (rs_chunker st)"
  by (auto simp: store_chunk_def Let_def frame split: prod.splits sum.splits option.splits)

lemma range_iter_min:
  "range_iter E D to st = (st', fl) \<Longrightarrow> ch_min (rs_chunker st') = ch_min (rs_chunker st)"
  by (auto simp: range_iter_def Let_def frame store_chunk_min split: sum.splits if_splits)

lemma processRange_min:
  assumes "processRangeAdaptive E D ch lo to w = Some (rs, r)"
  shows "ch_min (rs_chunker rs) = ch_min ch"
  by (rule range_loop_rule(1) [OF assms [unfolded processRangeAdaptive_def], where I = "\<lambda>st. ch_min (rs_chunker st) = ch_min ch"])
    (simp_all add: range_start_def range_iter_min)

lemma follow_reaches_min:
  assumes "follow_reaches E cfg D w st" and hd: "heads_ok D"
  shows "ch_min (fs_chunker st) = ch_min (cfg_chunker cfg)"
  using assms(1)
proof (induction rule: follow_reaches.induct)
  case (started st)
  then show ?case by (auto simp: follow_init_def split: sum.splits)
next
  case (passed st st')
  have index: "ch_min (fs_chunker st') = ch_min (fs_chunker st1)" if "follow_index E cfg D st1 = Some (st', Next)" for st1
    using that hd by (cases rule: follow_index_cases) (simp_all add: processRange_min)
  from passed(2) show ?case
    by (cases rule: follow_pass_cases) (use index passed(3) in auto)
qed

section \<open>Following\<close>

text \<open>Whenever it is asked, the node reports a head between \<open>H\<close> and \<open>hi\<close>.\<close>

definition heads_from :: "'s Deps \<Rightarrow> u64 \<Rightarrow> u64 \<Rightarrow> bool" where
  "heads_from D H hi \<longleftrightarrow> (\<forall>t. \<exists>h. rpc_GetBlockNumber (dp_RPC D) t = Inr h \<and> H \<le> h \<and> h \<le> hi)"

lemma heads_from_ok: "heads_from D H hi \<Longrightarrow> fits_int64 hi \<Longrightarrow> heads_ok D"
  using fits_le fits_not_max unfolding heads_from_def heads_ok_def by (metis Inr_inject)

lemma confirmed_known: "heads_from D H hi \<Longrightarrow> confirmed cfg D c \<Longrightarrow> cp_EndBlock c \<le> hi"
  unfolding heads_from_def confirmed_def by (metis Inr_inject add_leD1 order.trans u64_le_iff)

context answering_store
begin

lemma detect_works:
  assumes W: "working E D hi" and iv: "inv s" and t: "tiled a (cpv s) b" and known: "\<And>c. c \<in> set (cpv s) \<Longrightarrow> cp_EndBlock c \<le> hi"
  shows "\<exists>x. Detect (dp_RPC D) S (en_faults E) u s = Inr x"
proof -
  have F: "\<And>t i. en_faults E t i = None" and fh: "fits_int64 hi" using W by (auto simp: working_def)
  obtain r where l: "st_LastCheckpoint S (en_faults E u) s = Inr r" using last_answers [of "en_faults E u" s] F by blast
  show ?thesis
  proof (cases r)
    case None
    with l show ?thesis by (auto simp: Detect_def)
  next
    case (Some c)
    with last_ok [OF iv l] have c: "c \<in> set (cpv s)" by (simp add: last_of_def)
    from W known [OF c] obtain h where h: "rpc_GetBlockByNumber (dp_RPC D) (u + 1) (cp_EndBlock c) = Inr h"
      unfolding working_def by blast
    from t obtain ds where ds: "mset ds = mset (cpv s)" "tiles a ds b" by (auto simp: tiled_iff)
    have "c \<in> set ds" using c ds(1) by (metis set_mset_mset)
    with tiles_before [OF ds(2)] have "cp_StartBlock c \<le> cp_EndBlock c" by blast
    then have "fits_int64 (cp_StartBlock c)" using fits_le [OF fh] known [OF c] by (meson order.trans)
    with before_answers [of "en_faults E (u + 2)"] F obtain p where "st_CheckpointBefore S (en_faults E (u + 2)) (cp_StartBlock c) s = Inr p"
      by blast
    with l Some h show ?thesis by (auto simp: Detect_def GetBlockHashByNumber_def Let_def)
  qed
qed

lemma follow_index_works:
  assumes W: "working E D hi" and S: "dp_Store D = S" and H: "heads_from D H hi"
    and iv: "inv (wd_store (fs_world st))" and ck: "chunker_ok (fs_chunker st)" "growth_ok (ch_max (fs_chunker st))"
    and sm: "answers_small E D (ch_min (fs_chunker st))" and conf: "ix_Confirmations (cf_Indexer cfg) < H"
  shows "\<exists>st'. follow_index E cfg D st = Some (st', Next)
    \<and> unat H < unat (fs_start st') + unat (ix_Confirmations (cf_Indexer cfg))"
proof -
  let ?w = "fs_world st" and ?conf = "ix_Confirmations (cf_Indexer cfg)"
  obtain h where h: "rpc_GetBlockNumber (dp_RPC D) (wd_tick ?w) = Inr h" "H \<le> h" "h \<le> hi"
    using H unfolding heads_from_def by blast
  have ch: "?conf < h" using conf h(2) by simp
  then have nch: "\<not> h \<le> ?conf" by simp
  from ch have to: "unat (h - ?conf) + unat ?conf = unat h" by (simp add: unat_minus_ok u64_arith)
  have le: "h - ?conf \<le> hi" using to h(3) by (simp add: u64_le_iff)
  let ?w2 = "?w\<lparr>wd_tick := Suc (wd_tick ?w), wd_metrics := SetLag (h - ?conf - fs_start st) (wd_metrics ?w)\<rparr>"
  show ?thesis
  proof (cases "h - ?conf < fs_start st")
    case True
    then have "unat h < unat (fs_start st) + unat ?conf" using to by (simp add: u64_less_iff)
    with True h(1,2) nch show ?thesis by (simp add: follow_index_def Let_def u64_le_iff)
  next
    case False
    then have lo: "fs_start st \<le> h - ?conf" by simp
    have "inv (wd_store ?w2)" using iv by simp
    from range_completes [OF W S le sm ck lo this]
    obtain rs where pr: "processRangeAdaptive E D (fs_chunker st) (fs_start st) (h - ?conf) ?w2 = Some (rs, None)" by blast
    have "h - ?conf \<noteq> maxU64" using W fits_not_max fits_le [OF _ le] by (auto simp: working_def)
    then have "unat (h - ?conf + 1) = unat (h - ?conf) + 1" using unat_u64_le [of "h - ?conf"] by (simp add: unat_plus_one_lt u64_arith)
    with to h(2) have "unat H < unat (h - ?conf + 1) + unat ?conf" by (simp add: u64_le_iff)
    with pr h(1) nch False show ?thesis by (simp add: follow_index_def Let_def)
  qed
qed

lemma follow_pass_works:
  assumes W: "working E D hi" and S: "dp_Store D = S" and H: "heads_from D H hi"
    and I: "follow_inv inv cpv cfg (confirmed cfg D) a st" and gr: "growth_ok (ch_max (cfg_chunker cfg))"
    and sm: "answers_small E D (ch_min (fs_chunker st))" and conf: "ix_Confirmations (cf_Indexer cfg) < H"
    and nc: "\<not> en_cancelled E (wd_tick (fs_world st))"
  shows "\<exists>st'. follow_pass E cfg D st = Some (st', Next)
    \<and> unat H < unat (fs_start st') + unat (ix_Confirmations (cf_Indexer cfg))"
proof -
  let ?w = "fs_world st" let ?t = "wd_tick ?w" let ?s = "wd_store ?w"
  have iv: "inv ?s" "tiled a (cpv ?s) (unat (fs_start st))" and ck: "chunker_ok (fs_chunker st)" "growth_ok (ch_max (fs_chunker st))"
    and known: "\<And>c. c \<in> set (cpv ?s) \<Longrightarrow> cp_EndBlock c \<le> hi"
    using I gr confirmed_known [OF H] by (auto simp: follow_inv_def)
  obtain x b where dt: "Detect (dp_RPC D) S (en_faults E) ?t ?s = Inr (x, b)"
    using detect_works [OF W iv known] by (metis surj_pair)
  show ?thesis
  proof (cases b)
    case False
    let ?st1 = "st\<lparr>fs_world := ?w\<lparr>wd_tick := ?t + 3, wd_store := ?s\<rparr>\<rparr>"
    from follow_index_works [OF W S H, of ?st1 cfg] iv ck sm conf
    show ?thesis using dt False nc S by (simp add: follow_pass_def Let_def)
  next
    case True
    from detect_tiled [OF iv] dt True obtain c where c: "last_of (cpv ?s) (Some c)" and x: "x = cp_StartBlock c" by metis
    then have "c \<in> set (cpv ?s)" by (simp add: last_of_def)
    from iv(2) obtain ds where ds: "mset ds = mset (cpv ?s)" "tiles a ds (unat (fs_start st))" by (auto simp: tiled_iff)
    have "c \<in> set ds" using \<open>c \<in> set (cpv ?s)\<close> ds(1) by (metis set_mset_mset)
    with tiles_before [OF ds(2)] known [OF \<open>c \<in> set (cpv ?s)\<close>] x have "x \<le> hi" by fastforce
    then have "fits_int64 x" and F: "\<And>t i. en_faults E t i = None" using W fits_le by (auto simp: working_def)
    with rollback_answers [of "en_faults E (?t + 3)" x ?s]
    obtain s1 where rb: "st_RollbackFrom S (en_faults E (?t + 3)) x ?s = (None, s1)" by (metis prod.collapse)
    let ?st1 = "st\<lparr>fs_start := x, fs_world := ?w\<lparr>wd_tick := ?t + 4, wd_store := s1\<rparr>\<rparr>"
    have "follow_inv inv cpv cfg (confirmed cfg D) a ?st1"
      by (rule follow_rolled_back(1) [OF I S]) (use dt True rb S in auto)
    then have "inv (wd_store (fs_world ?st1))" by (simp add: follow_inv_def)
    from follow_index_works [OF W S H this] ck sm conf
    show ?thesis using dt True rb nc S by (simp add: follow_pass_def Rollback_def Let_def)
  qed
qed

end

section \<open>The property\<close>

text \<open>
  C9. Following makes progress.  Take a node whose reported heads stay between \<open>H\<close> and \<open>hi\<close>, that
  answers every request for blocks up to \<open>hi\<close> (it may refuse ranges larger than the minimum chunk
  size), with logs that can be decoded, and a database without failures.  Then from every head of
  the loop of \<open>Follow\<close>, after whatever reorganisation, the pass returns, without an error, and at
  its end every block from the start block on that has its confirmations under \<open>H\<close> is covered by a
  checkpoint: only a cancellation, a failure or a reorganisation keeps the index behind.
\<close>

theorem follow_catches_up:
  assumes "a_store (dp_Store D)" and "config_ok cfg"
    and "growth_ok (ix_MaxChunkSize (cf_Indexer cfg))" and "index_ok cfg D (wd_store w)"
    and "working E D hi" and "heads_from D H hi" and "answers_small E D (ch_min (cfg_chunker cfg))"
    and "ix_Confirmations (cf_Indexer cfg) < H"
    and "follow_reaches E cfg D w st" and "\<not> en_cancelled E (wd_tick (fs_world st))"
  shows "\<exists>st'. follow_pass E cfg D st = Some (st', Next) \<and> follow_reaches E cfg D w st'
    \<and> (\<forall>n. ix_StartBlock (cf_Indexer cfg) \<le> n \<and> unat n + unat (ix_Confirmations (cf_Indexer cfg)) \<le> unat H
         \<longrightarrow> (\<exists>c \<in> set (db_cps (wd_store (fs_world st'))). covers c n))"
proof -
  let ?a = "unat (ix_StartBlock (cf_Indexer cfg))"
  have gr: "growth_ok (ch_max (cfg_chunker cfg))"
    using assms(3) cfg_chunker_validated [OF assms(2)] by simp
  have hd: "heads_ok D" using assms(5,6) heads_from_ok by (auto simp: working_def)
  note inv = follow_reaches_inv [OF _ assms(1,4) [unfolded index_ok_on] confirmed_below [OF hd] gr hd order.refl]
  have "answers_small E D (ch_min (fs_chunker st))" using assms(7) follow_reaches_min [OF assms(9) hd] by simp
  from answering_store.follow_pass_works [OF a_store_answers [OF assms(1)] assms(5) HOL.refl assms(6)
      inv [OF assms(9)] gr this assms(8,10)]
  obtain st' where st': "follow_pass E cfg D st = Some (st', Next)"
    "unat H < unat (fs_start st') + unat (ix_Confirmations (cf_Indexer cfg))" by blast
  have r: "follow_reaches E cfg D w st'" by (rule follow_reaches.passed [OF assms(9) st'(1)])
  from inv [OF r] have "tiled ?a (db_cps (wd_store (fs_world st'))) (unat (fs_start st'))" by (simp add: follow_inv_def)
  then obtain ds where ds: "mset ds = mset (db_cps (wd_store (fs_world st')))" "tiles ?a ds (unat (fs_start st'))"
    by (auto simp: tiled_iff)
  have "\<exists>c \<in> set (db_cps (wd_store (fs_world st'))). covers c n"
    if "ix_StartBlock (cf_Indexer cfg) \<le> n" "unat n + unat (ix_Confirmations (cf_Indexer cfg)) \<le> unat H" for n
  proof -
    from that st'(2) have "?a \<le> unat n" "unat n < unat (fs_start st')" by (simp_all add: u64_le_iff)
    from tiles_covers [OF ds(2) this] have "\<exists>c \<in> set ds. covers c n" .
    with ds(1) show ?thesis by (metis set_mset_mset)
  qed
  with st'(1) r show ?thesis by blast
qed

text \<open>The head is block 20 and the node refuses ranges of more than a hundred blocks.\<close>

lemma demo_working: "working demo_env (demo_deps 100 20) 20"
proof -
  let ?D = "demo_deps 100 20"
  have d: "decodable demo_env ?D (demo_log n)" for n
    by (simp add: decodable_def demo_decode ArgsJSON_def)
  have l: "l_BlockNumber l \<le> 20 \<and> fits_int64 (l_Index l) \<and> decodable demo_env ?D l"
    if "rpc_GetLogs (dp_RPC ?D) t (buildFilter (en_lib demo_env) a b (dp_Decoder ?D)) = Inr logs" "l \<in> set logs" "b \<le> 20"
    for t a b logs l
  proof -
    have "l_BlockNumber l \<le> b" using demo_logs_in_range [of 100 20] that(1,2) unfolding logs_in_range_def by blast
    with that(3) have "l_BlockNumber l \<le> 20" by simp
    moreover from that(1,2) obtain n where "l = demo_log n"
      by (auto simp: buildFilter_def demo_logs_def Let_def split: if_splits)
    ultimately show ?thesis using d by (simp add: fits_int64_def)
  qed
  have e: "e = ErrTooManyResults"
    if "rpc_GetLogs (dp_RPC ?D) t (buildFilter (en_lib demo_env) a b (dp_Decoder ?D)) = Inl e" for t a b e
    using that by (auto simp: Let_def split: if_splits)
  show ?thesis
    unfolding working_def using l e by (simp add: fits_int64_def no_faults_def del: demo_rpc_simps(3))
qed

lemma demo_answers_small: "answers_small demo_env (demo_deps 100 20) (ch_min (cfg_chunker sample_validated))"
  by (auto simp: answers_small_def cfg_chunker_def sample_simps NewChunker_def buildFilter_def Let_def)

theorem follow_catches_up_witness:
  "\<exists>st'. follow_pass demo_env sample_validated (demo_deps 100 20) (demo_follow0 []) = Some (st', Next)
    \<and> (\<exists>c \<in> set (db_cps (wd_store (fs_world st'))). covers c 15)"
proof -
  let ?D = "demo_deps 100 20"
  have a: "a_store (dp_Store ?D)" by (simp add: a_store_def)
  have ix: "index_ok sample_validated ?D (wd_store (schema_world []))"
    by (auto simp: index_ok_def schema_world_def empty_db_def db_view_defs tiled_iff)
  have hf: "heads_from ?D 20 20" by (simp add: heads_from_def)
  have conf: "ix_Confirmations (cf_Indexer sample_validated) < 20" by (simp add: sample_simps)
  have "follow_init demo_env sample_validated ?D (schema_world []) = Inr (demo_follow0 [])"
    by (simp add: follow_init_def demo_follow0_def cfg_chunker_def sample_simps schema_world_def empty_db_def
        sqlite_store_def sqlite_LastCheckpoint_def scanCheckpoint_def no_faults_def)
  then have r: "follow_reaches demo_env sample_validated ?D (schema_world []) (demo_follow0 [])"
    by (rule follow_reaches.started)
  obtain st' where st': "follow_pass demo_env sample_validated ?D (demo_follow0 []) = Some (st', Next)"
    "\<forall>n. ix_StartBlock (cf_Indexer sample_validated) \<le> n
       \<and> unat n + unat (ix_Confirmations (cf_Indexer sample_validated)) \<le> unat (20 :: u64)
       \<longrightarrow> (\<exists>c \<in> set (db_cps (wd_store (fs_world st'))). covers c n)"
    using follow_catches_up [OF a demo_follow_pre(2,3) ix demo_working hf demo_answers_small conf r] by auto
  from st'(2) [rule_format, of 15] have "\<exists>c \<in> set (db_cps (wd_store (fs_world st'))). covers c 15"
    by (simp add: sample_simps)
  with st'(1) show ?thesis by blast
qed

section \<open>Backfills\<close>

context answering_store
begin

lemma bf_step_works:
  assumes W: "working E D hi" and S: "dp_Store D = S" and I: "bf_inv inv logv cpv E D base k start hi s"
    and "bf_step E cfg D hi s s'" and e: "bf_err s = None"
  shows "bf_err s' = None"
  using assms(4)
proof cases
  case (pass i ch r cur c)
  from bf_invD(5) [OF I pass(2)] pass(3) bf_invD(3) [OF I]
  have "chunker_ok ch" "rg_To r \<le> hi" by (auto simp: same_bounds_def u64_le_iff)
  then obtain st where "range_iter E D (rg_To r) (worker_state ch cur c (bf_world s)) = (st, Next)"
    using range_iter_works [OF W S, of "worker_state ch cur c (bf_world s)" "rg_To r"] pass(4)
    by (auto simp: worker_state_def)
  with e pass(1) show ?thesis by (simp add: worker_pass_def)
qed (use e in \<open>simp_all add: take_job_def\<close>)

end

lemma bf_works:
  assumes "a_store (dp_Store D)" and "db_inv (wd_store w)" and "config_ok cfg"
    and "growth_ok (ix_MaxChunkSize (cf_Indexer cfg))" and "range_fits cfg hi" and "start \<le> hi" and "working E D hi"
    and "bf_reaches E cfg D hi (backfill_start cfg start w) s"
  shows "bf_err s = None"
  using assms(8)
proof (induction rule: bf_reaches.induct)
  case refl
  then show ?case by (simp add: backfill_start_def)
next
  case (step s1 s2)
  from answering_store.bf_step_works [OF a_store_answers [OF assms(1)] assms(7) HOL.refl
      bf_reaches_db(1) [OF step(1) assms(1-6)] step(2,3)]
  show ?case .
qed

lemma bf_ends:
  assumes "a_store (dp_Store D)" and "db_inv (wd_store w)" and "config_ok cfg"
    and "growth_ok (ix_MaxChunkSize (cf_Indexer cfg))" and "range_fits cfg hi" and "start \<le> hi"
    and "answers_small E D (ch_min (cfg_chunker cfg))" and "bf_reaches E cfg D hi (backfill_start cfg start w) s"
  shows "\<exists>s'. bf_reaches E cfg D hi (backfill_start cfg start w) s' \<and> all_exited s'"
  using assms(8)
proof (induction s rule: wf_induct_rule [OF wf_measures [of "bf_measures hi"]])
  case (1 s)
  show ?case
  proof (cases "all_exited s")
    case True
    with 1(2) show ?thesis by blast
  next
    case False
    with bf_can_step obtain s' where st: "bf_step E cfg D hi s s'" by blast
    from bf_step_decreases [OF st _ assms(7)] bf_reaches_db [OF 1(2) assms(1-6)]
    have "(s', s) \<in> measures (bf_measures hi)" by blast
    from 1(1) [OF this bf_reaches.step [OF 1(2) st]] show ?thesis .
  qed
qed

text \<open>
  C10. A backfill succeeds.  With such a node and database, and without a cancellation, \<open>Backfill\<close>
  of the range it resolved returns, and however its workers interleave it returns without an error,
  with every block of the range covered by exactly one of the checkpoints it has added.
\<close>

theorem backfill_succeeds:
  assumes "a_store (dp_Store D)" and "db_inv (wd_store w)" and "config_ok cfg"
    and "growth_ok (ix_MaxChunkSize (cf_Indexer cfg))"
    and "backfill_range cfg D f t (wd_tick w) = Inr (start, hi)" and "start \<le> hi" and "range_fits cfg hi"
    and "working E D hi" and "answers_small E D (ch_min (cfg_chunker cfg))" and "\<And>u. \<not> en_cancelled E u"
  shows "(\<exists>w'. Backfill_returns E cfg D f t w w' None)
    \<and> (\<forall>w' r. Backfill_returns E cfg D f t w w' r \<longrightarrow> r = None
         \<and> (\<exists>new. db_cps (wd_store w') = db_cps (wd_store w) @ new
              \<and> (\<forall>n. cover_count new n = (if start \<le> n \<and> n \<le> hi then 1 else 0))))"
proof -
  let ?w = "w\<lparr>wd_tick := Suc (wd_tick w)\<rparr>"
  have iw: "db_inv (wd_store ?w)" using assms(2) by simp
  note err = bf_works [OF assms(1) iw assms(3,4,7,6,8)]
  obtain s where s: "bf_reaches E cfg D hi (backfill_start cfg start ?w) s" "all_exited s"
    using bf_ends [OF assms(1) iw assms(3,4,7,6,9) bf_reaches.refl] by blast
  have "Backfill_returns E cfg D f t w (bf_world s) None"
    using Backfill_returns.waited [OF assms(5,6) s] err [OF s(1)] by simp
  moreover have "r = None \<and> (\<exists>new. db_cps (wd_store w') = db_cps (wd_store w) @ new
      \<and> (\<forall>n. cover_count new n = (if start \<le> n \<and> n \<le> hi then 1 else 0)))"
    if B: "Backfill_returns E cfg D f t w w' r" for w' r
  proof -
    from B assms(5,6) have "r = None" by cases (auto dest: err)
    with Backfill_covered(2) [OF assms(1-7) B] assms(10) show ?thesis by blast
  qed
  ultimately show ?thesis by blast
qed

text \<open>The sample configuration on a node with twenty blocks.\<close>

theorem backfill_succeeds_witness:
  "\<exists>w'. Backfill_returns demo_env sample_validated (demo_deps 100 20) None None demo_world w' None
    \<and> (\<exists>c \<in> set (db_cps (wd_store w')). covers c 15)"
proof -
  let ?D = "demo_deps 100 20"
  have rng: "backfill_range sample_validated ?D None None (wd_tick demo_world) = Inr (6, 20)"
    by (simp add: backfill_range_def sample_simps Let_def)
  have fits: "range_fits sample_validated 20" by (simp add: range_fits_def sample_simps)
  have a: "a_store (dp_Store ?D)" by (simp add: a_store_def)
  obtain w' where w': "Backfill_returns demo_env sample_validated ?D None None demo_world w' None"
    "\<exists>new. db_cps (wd_store w') = db_cps (wd_store demo_world) @ new
       \<and> (\<forall>n. cover_count new n = (if 6 \<le> n \<and> n \<le> 20 then 1 else 0))"
    using backfill_succeeds [OF a demo_backfill_pre(2-4) rng _ fits demo_working demo_answers_small] by auto
  then obtain new where new: "db_cps (wd_store w') = db_cps (wd_store demo_world) @ new" "cover_count new 15 = 1" by auto
  then have "filter (\<lambda>c. covers c 15) new \<noteq> []" by (auto simp: cover_count_def)
  then obtain c where c: "c \<in> set new" "covers c 15" by (auto simp: filter_empty_conv)
  have "c \<in> set (db_cps (wd_store w'))" using c(1) new(1) by simp
  with w'(1) c(2) show ?thesis by blast
qed

end
